(* ===== verification/Prelude.thy ===== *)
theory Prelude
  imports Main "HOL-Library.Word"
begin

text \<open>
  Shared vocabulary of the development: the three ways a Go function ends, Go's strings
  package as far as the program uses it, and the generic facts about lists, association lists
  and range loops that every component needs.

  A Go string is a byte sequence, so it is a \<^typ>\<open>string\<close> here (a list of 8-bit characters)
  and \<open>len(s)\<close> is \<^term>\<open>length s\<close>.  A Go map that the program only reads and ranges over
  is an association list: its order is the (unspecified) order in which one particular
  \<open>range\<close> statement visits the entries.
\<close>

section \<open>How a Go function ends\<close>

text \<open>
  A call returns a value, returns an error, or panics.  The run-time panics that the
  program can raise are listed explicitly, so that their absence can be proved.
\<close>

datatype panic =
    NilDereference
  | CloseOfClosedChannel
  | NonPositiveTicker

datatype ('e, 'a) outcome =
    Ok 'a
  | Err 'e
  | Panic panic

fun and_then :: "('e, 'a) outcome \<Rightarrow> ('a \<Rightarrow> ('e, 'b) outcome) \<Rightarrow> ('e, 'b) outcome" where
  "and_then (Ok a) f = f a"
| "and_then (Err e) f = Err e"
| "and_then (Panic p) f = Panic p"

fun wrap_err :: "('d \<Rightarrow> 'e) \<Rightarrow> ('d, 'a) outcome \<Rightarrow> ('e, 'a) outcome" where
  "wrap_err w (Ok a) = Ok a"
| "wrap_err w (Err e) = Err (w e)"
| "wrap_err w (Panic p) = Panic p"

fun is_ok :: "('e, 'a) outcome \<Rightarrow> bool" where
  "is_ok (Ok _) = True"
| "is_ok _ = False"

lemma and_then_Ok [simp]:
  "and_then r f = Ok b \<longleftrightarrow> (\<exists>a. r = Ok a \<and> f a = Ok b)"
  by (cases r) auto

lemma wrap_err_Ok [simp]: "wrap_err w r = Ok a \<longleftrightarrow> r = Ok a"
  by (cases r) auto

lemma wrap_err_Panic [simp]: "wrap_err w r = Panic p \<longleftrightarrow> r = Panic p"
  by (cases r) auto

lemma is_ok_iff: "is_ok r \<longleftrightarrow> (\<exists>a. r = Ok a)"
  by (cases r) auto

lemma is_okE:
  assumes "is_ok r"
  obtains a where "r = Ok a"
  using assms by (auto simp: is_ok_iff)

text \<open>
  \<open>for i, x := range xs { if err := f(&x); err != nil { return wrap(i, err) } }\<close>: the loop
  stops at the first error; otherwise it has replaced every element by its updated value.
\<close>

fun range_update :: "(nat \<Rightarrow> 'a \<Rightarrow> ('e, 'b) outcome) \<Rightarrow> nat \<Rightarrow> 'a list \<Rightarrow> ('e, 'b list) outcome" where
  "range_update f i [] = Ok []"
| "range_update f i (x # xs) =
     and_then (f i x) (\<lambda>y. and_then (range_update f (Suc i) xs) (\<lambda>ys. Ok (y # ys)))"

lemma range_update_length:
  "range_update f i xs = Ok ys \<Longrightarrow> length ys = length xs"
  by (induction xs arbitrary: i ys) auto

lemma range_update_nth:
  "range_update f i xs = Ok ys \<Longrightarrow> k < length xs \<Longrightarrow> f (i + k) (xs ! k) = Ok (ys ! k)"
proof (induction xs arbitrary: i ys k)
  case Nil
  then show ?case by simp
next
  case (Cons x xs)
  from Cons.prems(1) obtain z zs where
    ys: "ys = z # zs" and fz: "f i x = Ok z" and rest: "range_update f (Suc i) xs = Ok zs"
    by auto
  show ?case
  proof (cases k)
    case 0
    with ys fz show ?thesis by simp
  next
    case (Suc j)
    with Cons.prems(2) have "f (Suc i + j) (xs ! j) = Ok (zs ! j)"
      using Cons.IH [OF rest, of j] by simp
    with Suc ys show ?thesis by simp
  qed
qed

lemma range_update_Ok_set:
  assumes "range_update f i xs = Ok ys" and "y \<in> set ys"
  shows "\<exists>k x. k < length xs \<and> x = xs ! k \<and> f (i + k) x = Ok y"
proof -
  from assms(2) obtain k where k: "k < length ys" "y = ys ! k"
    by (auto simp: in_set_conv_nth)
  with range_update_length [OF assms(1)] have "k < length xs" by simp
  with range_update_nth [OF assms(1)] k show ?thesis by blast
qed

lemma range_update_all_Ok:
  assumes "\<And>k. k < length xs \<Longrightarrow> f (i + k) (xs ! k) = Ok (g (xs ! k))"
  shows "range_update f i xs = Ok (map g xs)"
  using assms
proof (induction xs arbitrary: i)
  case Nil
  then show ?case by simp
next
  case (Cons x xs)
  have hd: "f i x = Ok (g x)" using Cons.prems [of 0] by simp
  have "\<And>k. k < length xs \<Longrightarrow> f (Suc i + k) (xs ! k) = Ok (g (xs ! k))"
    using Cons.prems [of "Suc _"] by simp
  then have "range_update f (Suc i) xs = Ok (map g xs)" by (rule Cons.IH)
  with hd show ?case by simp
qed

lemma range_update_exists:
  assumes "\<And>k. k < length xs \<Longrightarrow> is_ok (f (i + k) (xs ! k))"
  shows "is_ok (range_update f i xs)"
  using assms
proof (induction xs arbitrary: i)
  case Nil
  then show ?case by simp
next
  case (Cons x xs)
  have "is_ok (f i x)" using Cons.prems [of 0] by simp
  moreover have "is_ok (range_update f (Suc i) xs)"
    using Cons.prems [of "Suc _"] by (intro Cons.IH) simp
  ultimately show ?case by (auto simp: is_ok_iff)
qed

lemma range_update_wrap_Ok:
  assumes "\<And>x y. f x = Ok y \<longleftrightarrow> P x \<and> y = g x"
  shows "range_update (\<lambda>i x. wrap_err (w i) (f x)) i xs = Ok ys \<longleftrightarrow>
           (\<forall>x \<in> set xs. P x) \<and> ys = map g xs"
  by (induction xs arbitrary: i ys) (auto simp: assms)

text \<open>A loop whose body only checks: success means that every element passed.\<close>

fun range_check :: "('a \<Rightarrow> ('e, unit) outcome) \<Rightarrow> 'a list \<Rightarrow> ('e, unit) outcome" where
  "range_check f [] = Ok ()"
| "range_check f (x # xs) = and_then (f x) (\<lambda>_. range_check f xs)"

lemma range_check_Ok:
  "range_check f xs = Ok u \<longleftrightarrow> (\<forall>x \<in> set xs. f x = Ok ())"
  by (induction xs) auto

text \<open>
  A sequence of guards, each with an early return: \<open>require c e\<close> is
  \<open>if !c { return e }\<close>, and \<open>checks\<close> runs its elements up to the first that does not pass.
\<close>

definition require :: "bool \<Rightarrow> 'e \<Rightarrow> ('e, unit) outcome" where
  "require c e = (if c then Ok () else Err e)"

fun checks :: "('e, unit) outcome list \<Rightarrow> ('e, unit) outcome" where
  "checks [] = Ok ()"
| "checks (c # cs) = and_then c (\<lambda>_. checks cs)"

lemma require_Ok [simp]: "require c e = Ok u \<longleftrightarrow> c"
  by (simp add: require_def)

lemma require_Panic [simp]: "require c e \<noteq> Panic p"
  by (simp add: require_def)

lemma checks_Ok: "checks cs = Ok u \<longleftrightarrow> (\<forall>c \<in> set cs. c = Ok ())"
  by (induction cs) auto

lemma checks_Cons_Ok [simp]: "checks (c # cs) = Ok u \<longleftrightarrow> c = Ok () \<and> checks cs = Ok ()"
  by simp

lemma and_then_Panic:
  "and_then r f = Panic p \<longleftrightarrow> r = Panic p \<or> (\<exists>a. r = Ok a \<and> f a = Panic p)"
  by (cases r) auto

lemma and_then_Err:
  "and_then r f = Err e \<longleftrightarrow> r = Err e \<or> (\<exists>a. r = Ok a \<and> f a = Err e)"
  by (cases r) auto

lemma range_check_Panic:
  "range_check f xs = Panic p \<Longrightarrow> \<exists>x \<in> set xs. f x = Panic p"
  by (induction xs) (auto simp: and_then_Panic)

lemma range_update_Panic:
  "range_update f i xs = Panic p \<Longrightarrow> \<exists>k < length xs. f (i + k) (xs ! k) = Panic p"
proof (induction xs arbitrary: i)
  case Nil
  then show ?case by simp
next
  case (Cons x xs)
  then consider "f i x = Panic p" | "range_update f (Suc i) xs = Panic p"
    by (auto simp: and_then_Panic)
  then show ?case
  proof cases
    case 1
    then show ?thesis by (intro exI [of _ 0]) simp
  next
    case 2
    from Cons.IH [OF this] obtain k where "k < length xs" "f (Suc i + k) (xs ! k) = Panic p"
      by blast
    then show ?thesis by (intro exI [of _ "Suc k"]) simp
  qed
qed

text \<open>A loop that threads a state through its body and stops at the first error or panic.\<close>

fun each :: "('a \<Rightarrow> 's \<Rightarrow> ('e, 's) outcome) \<Rightarrow> 'a list \<Rightarrow> 's \<Rightarrow> ('e, 's) outcome" where
  "each f [] s = Ok s"
| "each f (x # xs) s = and_then (f x s) (each f xs)"

lemma each_append: "each f (xs @ ys) s = and_then (each f xs s) (each f ys)"
proof (induction xs arbitrary: s)
  case (Cons x xs)
  then show ?case by (cases "f x s") simp_all
qed simp

text \<open>A property that the body keeps holds after the loop.\<close>

lemma each_keeps:
  assumes "each f xs s = Ok t" and "P s" and "\<And>x u v. x \<in> set xs \<Longrightarrow> P u \<Longrightarrow> f x u = Ok v \<Longrightarrow> P v"
  shows "P t"
  using assms by (induction xs arbitrary: s) auto

lemma each_no_Err: "(\<And>x s. f x s \<noteq> Err e) \<Longrightarrow> each f xs s \<noteq> Err e"
  by (induction xs arbitrary: s) (auto simp: and_then_Err)

text \<open>A panic of the loop is the panic of its body in a state with everything that the body keeps.\<close>

lemma each_Panic:
  assumes "each f xs s = Panic p" and "P s" and "\<And>x u v. x \<in> set xs \<Longrightarrow> P u \<Longrightarrow> f x u = Ok v \<Longrightarrow> P v"
  shows "\<exists>x \<in> set xs. \<exists>u. P u \<and> f x u = Panic p"
  using assms
proof (induction xs arbitrary: s)
  case Nil
  then show ?case by simp
next
  case (Cons x xs)
  show ?case
  proof (cases "f x s")
    case (Ok t)
    have "P t" by (rule Cons.prems(3) [OF _ Cons.prems(2) Ok]) simp
    moreover have rest: "each f xs t = Panic p" using Cons.prems(1) Ok by simp
    moreover have "P v" if "y \<in> set xs" "P u" "f y u = Ok v" for y u v
      using Cons.prems(3) [OF _ that(2,3)] that(1) by simp
    ultimately have "\<exists>y \<in> set xs. \<exists>u. P u \<and> f y u = Panic p" by (intro Cons.IH [OF rest])
    then show ?thesis by simp
  next
    case (Panic q)
    with Cons.prems(1,2) show ?thesis by auto
  qed (use Cons.prems(1) in simp)
qed

section \<open>Go's strings package\<close>

definition has_prefix :: "string \<Rightarrow> string \<Rightarrow> bool" where
  "has_prefix s p \<longleftrightarrow> take (length p) s = p"

definition has_suffix :: "string \<Rightarrow> string \<Rightarrow> bool" where
  "has_suffix s p \<longleftrightarrow> length p \<le> length s \<and> drop (length s - length p) s = p"

fun contains_str :: "string \<Rightarrow> string \<Rightarrow> bool" where
  "contains_str [] p = (p = [])"
| "contains_str (c # s) p = (has_prefix (c # s) p \<or> contains_str s p)"

fun split_on :: "char \<Rightarrow> string \<Rightarrow> string list" where
  "split_on c [] = [[]]"
| "split_on c (x # xs) =
     (if x = c then [] # split_on c xs
      else (case split_on c xs of [] \<Rightarrow> [[x]] | y # ys \<Rightarrow> (x # y) # ys))"

fun join_with :: "char \<Rightarrow> string list \<Rightarrow> string" where
  "join_with c [] = []"
| "join_with c [x] = x"
| "join_with c (x # y # ys) = x @ c # join_with c (y # ys)"

definition replace_char :: "char \<Rightarrow> char \<Rightarrow> string \<Rightarrow> string" where
  "replace_char a b s = map (\<lambda>x. if x = a then b else x) s"

lemma has_prefix_append [simp]: "has_prefix (p @ s) p"
  by (simp add: has_prefix_def)

lemma has_prefix_iff: "has_prefix s p \<longleftrightarrow> (\<exists>r. s = p @ r)"
  by (auto simp: has_prefix_def) (metis append_take_drop_id)

lemma has_suffix_iff: "has_suffix s p \<longleftrightarrow> (\<exists>r. s = r @ p)"
  by (auto simp: has_suffix_def) (metis append_take_drop_id)

lemma contains_str_append: "contains_str (a @ p @ b) p"
proof (induction a)
  case Nil
  have "has_prefix (p @ b) p" by simp
  then show ?case by (cases "p @ b") (auto simp del: has_prefix_append simp: has_prefix_def)
next
  case (Cons c a)
  then show ?case by simp
qed

lemma contains_str_iff: "contains_str s p \<longleftrightarrow> (\<exists>a b. s = a @ p @ b)"
proof
  show "contains_str s p \<Longrightarrow> \<exists>a b. s = a @ p @ b"
  proof (induction s)
    case Nil
    then show ?case by simp
  next
    case (Cons c s)
    then show ?case
    proof (cases "has_prefix (c # s) p")
      case True
      then obtain r where "c # s = [] @ p @ r" by (auto simp: has_prefix_iff)
      then show ?thesis by blast
    next
      case False
      with Cons obtain a b where "s = a @ p @ b" by auto
      then have "c # s = (c # a) @ p @ b" by simp
      then show ?thesis by blast
    qed
  qed
qed (auto intro: contains_str_append)

lemma split_on_nonempty [simp]: "split_on c s \<noteq> []"
  by (induction s) (auto split: list.splits)

lemma split_on_no_sep: "e \<in> set (split_on c s) \<Longrightarrow> c \<notin> set e"
proof (induction s arbitrary: e)
  case Nil
  then show ?case by simp
next
  case (Cons x s)
  then show ?case
    by (cases "split_on c s") (auto split: if_splits)
qed

lemma split_on_single: "c \<notin> set s \<Longrightarrow> split_on c s = [s]"
  by (induction s) auto

lemma split_on_append:
  "c \<notin> set a \<Longrightarrow> split_on c (a @ c # s) = a # split_on c s"
  by (induction a) auto

lemma split_on_join:
  "es \<noteq> [] \<Longrightarrow> (\<And>e. e \<in> set es \<Longrightarrow> c \<notin> set e) \<Longrightarrow> split_on c (join_with c es) = es"
  by (induction c es rule: join_with.induct) (auto simp: split_on_single split_on_append)

lemma join_with_snoc: "es \<noteq> [] \<Longrightarrow> join_with c (es @ [e]) = join_with c es @ c # e"
  by (induction c es rule: join_with.induct) auto

lemma join_with_empty_iff:
  "(\<And>e. e \<in> set es \<Longrightarrow> e \<noteq> []) \<Longrightarrow> join_with c es = [] \<longleftrightarrow> es = []"
  by (induction c es rule: join_with.induct) auto

section \<open>Association lists as Go maps\<close>

definition keys :: "('k \<times> 'v) list \<Rightarrow> 'k list" where
  "keys m = map fst m"

definition go_map :: "('k \<times> 'v) list \<Rightarrow> bool" where
  "go_map m \<longleftrightarrow> distinct (keys m)"

lemma keys_simps [simp]: "keys [] = []" "keys ((k, v) # m) = k # keys m"
  by (simp_all add: keys_def)

lemma length_keys [simp]: "length (keys m) = length m"
  by (simp add: keys_def)

lemma map_of_iff_keys: "(\<exists>v. map_of m k = Some v) \<longleftrightarrow> k \<in> set (keys m)"
  by (induction m) auto

lemma map_of_None_keys: "map_of m k = None \<longleftrightarrow> k \<notin> set (keys m)"
  by (induction m) auto

lemma go_map_lookup: "go_map m \<Longrightarrow> (k, v) \<in> set m \<Longrightarrow> map_of m k = Some v"
  by (simp add: go_map_def keys_def)

end
