(* ===== verification/Config_Types.thy ===== *)
theory Config_Types
  imports Prelude
begin

text \<open>
  \<open>internal/config/types.go\<close>: the configuration as records with the source's fields, and the
  functions that resolve a secret's namespace and credentials.  A duration is its number of
  nanoseconds.  Fields carry a prefix for their struct because record fields are global.
\<close>

section \<open>The configuration structs\<close>

record CredentialSet =
  cs_AuthMethod :: string
  cs_Token :: string
  cs_RoleID :: string
  cs_SecretID :: string

record SecretStore =
  ss_Address :: string
  ss_Namespace :: string
  ss_AuthMethod :: string
  ss_Token :: string
  ss_RoleID :: string
  ss_SecretID :: string
  ss_Credentials :: "(string \<times> CredentialSet) list"
  ss_TLSSkipVerify :: bool
  ss_TLSCACert :: string
  ss_TLSCAPath :: string
  ss_TLSClientCert :: string
  ss_TLSClientKey :: string

record File =
  file_Path :: string
  file_Mode :: string
  file_Owner :: string
  file_Group :: string

record Secret =
  sec_Name :: string
  sec_Key :: string
  sec_MountPath :: string
  sec_Namespace :: string
  sec_Credentials :: string
  sec_KVVersion :: string
  sec_RefreshInterval :: int
  sec_TemplateData :: "(string \<times> string) list"
  sec_Files :: "File list"

record Config =
  cfg_SecretStore :: SecretStore
  cfg_Secrets :: "Secret list"

section \<open>Resolution\<close>

definition ResolveNamespace :: "Secret \<Rightarrow> string \<Rightarrow> string" where
  "ResolveNamespace s globalNamespace =
     (if sec_Namespace s \<noteq> [] then sec_Namespace s else globalNamespace)"

definition ResolveCredentials :: "Secret \<Rightarrow> string" where
  "ResolveCredentials s = sec_Credentials s"

definition GetDefaultCredentials :: "SecretStore \<Rightarrow> CredentialSet" where
  "GetDefaultCredentials ss =
     \<lparr>cs_AuthMethod = ss_AuthMethod ss, cs_Token = ss_Token ss,
      cs_RoleID = ss_RoleID ss, cs_SecretID = ss_SecretID ss\<rparr>"

definition GetCredentials :: "SecretStore \<Rightarrow> string \<Rightarrow> CredentialSet option" where
  "GetCredentials ss nm =
     (if nm = [] then Some (GetDefaultCredentials ss) else map_of (ss_Credentials ss) nm)"

lemma GetCredentials_default [simp]: "GetCredentials ss [] = Some (GetDefaultCredentials ss)"
  by (simp add: GetCredentials_def)

lemma GetCredentials_Some_iff:
  "(\<exists>c. GetCredentials ss nm = Some c) \<longleftrightarrow> nm = [] \<or> nm \<in> set (keys (ss_Credentials ss))"
  by (simp add: GetCredentials_def map_of_iff_keys)

text \<open>
  A per-secret namespace cannot select the root namespace: an empty one always means the
  global namespace.
\<close>

lemma ResolveNamespace_nonempty:
  "globalNamespace \<noteq> [] \<Longrightarrow> ResolveNamespace s globalNamespace \<noteq> []"
  by (simp add: ResolveNamespace_def)

end
