(* ===== verification/Go_Numbers.thy ===== *)
theory Go_Numbers
  imports Prelude Complex_Main
begin

text \<open>
  The parts of Go's numbers the program computes with: \<open>strconv.ParseUint\<close>, \<open>Atoi\<close> and
  \<open>ParseBool\<close>, \<open>time.ParseDuration\<close>, and IEEE-754 double precision (\<open>float64\<close>) as far as the
  circuit breaker's failure ratio and the retry back-off use it: conversion from and to
  integers, multiplication, division and comparison, each correctly rounded to nearest,
  ties to even.  The two zeros are not distinguished.
\<close>

section \<open>Digits and strconv\<close>

datatype num_error = ErrSyntax | ErrRange

definition char_code :: "char \<Rightarrow> nat" where
  "char_code c = of_char c"

definition is_digit :: "char \<Rightarrow> bool" where
  "is_digit c \<longleftrightarrow> 48 \<le> char_code c \<and> char_code c \<le> 57"

text \<open>\<open>strconv.Itoa\<close> of a natural number.\<close>

fun decimal :: "nat \<Rightarrow> string" where
  "decimal n = (if n < 10 then [char_of (48 + n)] else decimal (n div 10) @ [char_of (48 + n mod 10)])"

declare decimal.simps [simp del]

definition digit_val :: "char \<Rightarrow> nat" where
  "digit_val c = char_code c - 48"

text \<open>
  \<open>ParseUint(s, base, bits)\<close> for a base of at most ten: the loop reports a character that is no
  digit of the base as a syntax error and the first value beyond \<open>bits\<close> as a range error.
\<close>

fun uint_loop :: "nat \<Rightarrow> nat \<Rightarrow> nat \<Rightarrow> string \<Rightarrow> (num_error, nat) outcome" where
  "uint_loop base maxv n [] = Ok n"
| "uint_loop base maxv n (c # s) =
     (if \<not> is_digit c \<or> base \<le> digit_val c then Err ErrSyntax
      else let n1 = n * base + digit_val c in
        (if maxv < n1 then Err ErrRange else uint_loop base maxv n1 s))"

definition strconv_ParseUint :: "string \<Rightarrow> nat \<Rightarrow> nat \<Rightarrow> (num_error, nat) outcome" where
  "strconv_ParseUint s base bits =
     (if s = [] then Err ErrSyntax else uint_loop base (2 ^ bits - 1) 0 s)"

lemma uint_loop_bound: "uint_loop base maxv n s = Ok m \<Longrightarrow> n \<le> maxv \<Longrightarrow> m \<le> maxv"
  by (induction s arbitrary: n) (auto simp: Let_def split: if_splits)

lemma ParseUint_bound: "strconv_ParseUint s base bits = Ok m \<Longrightarrow> m < 2 ^ bits"
proof -
  assume p: "strconv_ParseUint s base bits = Ok m"
  then have "uint_loop base (2 ^ bits - 1) 0 s = Ok m"
    by (simp add: strconv_ParseUint_def split: if_splits)
  from uint_loop_bound [OF this] have "m \<le> 2 ^ bits - 1" by simp
  moreover have "0 < (2 :: nat) ^ bits" by simp
  ultimately show ?thesis by linarith
qed

text \<open>\<open>Atoi\<close>: an optional sign and decimal digits whose value fits a 64-bit \<open>int\<close>.\<close>

definition strip_sign :: "string \<Rightarrow> bool \<times> string" where
  "strip_sign s =
     (case s of [] \<Rightarrow> (False, [])
      | c # t \<Rightarrow> (if c = CHR ''-'' then (True, t) else if c = CHR ''+'' then (False, t) else (False, s)))"

definition strconv_Atoi :: "string \<Rightarrow> (num_error, int) outcome" where
  "strconv_Atoi s =
     (let (neg, ds) = strip_sign s in
      and_then (strconv_ParseUint ds 10 64) (\<lambda>n.
        if neg then (if 2 ^ 63 < n then Err ErrRange else Ok (- int n))
        else (if 2 ^ 63 \<le> n then Err ErrRange else Ok (int n))))"

lemma Atoi_bound: "strconv_Atoi s = Ok i \<Longrightarrow> - (2 ^ 63) \<le> i \<and> i < 2 ^ 63"
  by (auto simp: strconv_Atoi_def split: prod.splits if_splits)

definition strconv_ParseBool :: "string \<Rightarrow> bool option" where
  "strconv_ParseBool s =
     (if s \<in> set [''1'', ''t'', ''T'', ''true'', ''TRUE'', ''True''] then Some True
      else if s \<in> set [''0'', ''f'', ''F'', ''false'', ''FALSE'', ''False''] then Some False
      else None)"

section \<open>Double precision\<close>

datatype f64 = Fin rat | PosInf | NegInf | NaN

definition pow2 :: "int \<Rightarrow> rat" where
  "pow2 e = (if 0 \<le> e then 2 ^ nat e else 1 / 2 ^ nat (- e))"

definition round_even :: "rat \<Rightarrow> int" where
  "round_even y =
     (let q = \<lfloor>y\<rfloor>; r = y - of_int q in
      if r < 1 / 2 then q else if 1 / 2 < r then q + 1 else if even q then q else q + 1)"

text \<open>
  \<open>nbits n\<close> is the number of binary digits of \<open>n\<close>, and \<open>lg x\<close> the floor of the binary logarithm of
  a positive rational.
\<close>

fun nbits :: "nat \<Rightarrow> nat" where
  "nbits n = (if n = 0 then 0 else Suc (nbits (n div 2)))"

declare nbits.simps [simp del]

lemma nbits_numeral [simp]:
  "nbits 0 = 0" "nbits (Suc 0) = 1" "nbits 1 = 1" "nbits (numeral Num.One) = 1"
  "nbits (numeral (Num.Bit0 k)) = Suc (nbits (numeral k))"
  "nbits (numeral (Num.Bit1 k)) = Suc (nbits (numeral k))"
  using nbits.simps [of 0] nbits.simps [of 1] nbits.simps [of "numeral (Num.Bit0 k)"]
    nbits.simps [of "numeral (Num.Bit1 k)"]
  by simp_all

lemma nbits_bounds: "0 < n \<Longrightarrow> 2 ^ (nbits n - 1) \<le> n \<and> n < 2 ^ nbits n \<and> 0 < nbits n"
proof (induction n rule: nbits.induct)
  case (1 n)
  show ?case
  proof (cases "n < 2")
    case True
    with "1.prems" have "n = 1" by simp
    then show ?thesis by simp
  next
    case False
    with "1.IH" have ih: "2 ^ (nbits (n div 2) - 1) \<le> n div 2" "n div 2 < 2 ^ nbits (n div 2)"
      "0 < nbits (n div 2)" by auto
    have "nbits n = Suc (nbits (n div 2))" using False by (simp add: nbits.simps [of n])
    moreover obtain k where k: "nbits (n div 2) = Suc k" using ih(3) by (cases "nbits (n div 2)") auto
    moreover define t :: nat where "t = 2 ^ k"
    ultimately have "t \<le> n div 2" "n div 2 < 2 * t" and n: "nbits n = Suc (Suc k)" using ih by auto
    then have "2 * t \<le> n" "n < 4 * t" by arith+
    with n show ?thesis by (simp add: t_def)
  qed
qed

definition lg :: "rat \<Rightarrow> int" where
  "lg x = (if 1 \<le> x then int (nbits (nat \<lfloor>x\<rfloor>)) - 1 else - int (nbits (nat (\<lceil>1 / x\<rceil> - 1))))"

definition ulp_exp :: "rat \<Rightarrow> int" where
  "ulp_exp x = max (lg x - 52) (- 1074)"

definition round_pos :: "rat \<Rightarrow> rat" where
  "round_pos x = of_int (round_even (x / pow2 (ulp_exp x))) * pow2 (ulp_exp x)"

definition f64_round :: "rat \<Rightarrow> f64" where
  "f64_round x =
     (if x = 0 then Fin 0
      else let y = round_pos \<bar>x\<bar> in
        if pow2 1024 \<le> y then (if 0 < x then PosInf else NegInf)
        else Fin (if 0 < x then y else - y))"

definition f64_of_int :: "int \<Rightarrow> f64" where
  "f64_of_int i = f64_round (of_int i)"

fun f64_mul :: "f64 \<Rightarrow> f64 \<Rightarrow> f64" where
  "f64_mul (Fin x) (Fin y) = f64_round (x * y)"
| "f64_mul (Fin x) PosInf = (if x = 0 then NaN else if 0 < x then PosInf else NegInf)"
| "f64_mul (Fin x) NegInf = (if x = 0 then NaN else if 0 < x then NegInf else PosInf)"
| "f64_mul PosInf (Fin y) = (if y = 0 then NaN else if 0 < y then PosInf else NegInf)"
| "f64_mul NegInf (Fin y) = (if y = 0 then NaN else if 0 < y then NegInf else PosInf)"
| "f64_mul PosInf PosInf = PosInf"
| "f64_mul PosInf NegInf = NegInf"
| "f64_mul NegInf PosInf = NegInf"
| "f64_mul NegInf NegInf = PosInf"
| "f64_mul NaN b = NaN"
| "f64_mul a NaN = NaN"

fun f64_div :: "f64 \<Rightarrow> f64 \<Rightarrow> f64" where
  "f64_div (Fin x) (Fin y) =
     (if y = 0 then (if x = 0 then NaN else if 0 < x then PosInf else NegInf)
      else f64_round (x / y))"
| "f64_div (Fin x) PosInf = Fin 0"
| "f64_div (Fin x) NegInf = Fin 0"
| "f64_div PosInf (Fin y) = (if 0 \<le> y then PosInf else NegInf)"
| "f64_div NegInf (Fin y) = (if 0 \<le> y then NegInf else PosInf)"
| "f64_div _ _ = NaN"

fun f64_ge :: "f64 \<Rightarrow> f64 \<Rightarrow> bool" where
  "f64_ge (Fin x) (Fin y) = (y \<le> x)"
| "f64_ge PosInf (Fin y) = True"
| "f64_ge PosInf PosInf = True"
| "f64_ge PosInf NegInf = True"
| "f64_ge (Fin x) NegInf = True"
| "f64_ge NegInf NegInf = True"
| "f64_ge _ _ = False"

text \<open>
  Conversion to a 64-bit integer truncates towards zero.  The language leaves the result of
  converting a value that does not fit open, so that case is the argument \<open>oor\<close>.
\<close>

definition rat_trunc :: "rat \<Rightarrow> int" where
  "rat_trunc x = (if 0 \<le> x then \<lfloor>x\<rfloor> else - \<lfloor>- x\<rfloor>)"

fun f64_to_int64 :: "(f64 \<Rightarrow> int) \<Rightarrow> f64 \<Rightarrow> int" where
  "f64_to_int64 oor (Fin x) =
     (if - (2 ^ 63) \<le> rat_trunc x \<and> rat_trunc x < 2 ^ 63 then rat_trunc x else oor (Fin x))"
| "f64_to_int64 oor a = oor a"

subsection \<open>Facts about rounding\<close>

lemma pow2_powi: "pow2 e = power_int 2 e"
  by (auto simp: pow2_def power_int_def field_simps)

lemma pow2_pos [simp]: "0 < pow2 e"
  by (simp add: pow2_def)

lemma pow2_nonzero [simp]: "pow2 e \<noteq> 0"
  using pow2_pos [of e] by linarith

lemma pow2_add: "pow2 (a + b) = pow2 a * pow2 b"
  by (simp add: pow2_powi power_int_add)

lemma pow2_mono: "a \<le> b \<Longrightarrow> pow2 a \<le> pow2 b"
  by (simp add: pow2_powi power_int_increasing)

lemma pow2_less_iff: "pow2 a < pow2 b \<longleftrightarrow> a < b"
  using pow2_mono [of b a] power_int_strict_increasing [of a b "2 :: rat"]
  by (auto simp: pow2_powi not_le [symmetric])

lemma pow2_nat: "pow2 (int k) = 2 ^ k"
  by (simp add: pow2_def)

lemma pow2_neg_nat: "pow2 (- int k) = 1 / 2 ^ k"
  by (cases "k = 0") (simp_all add: pow2_def)

lemma lg_bounds:
  assumes "0 < x"
  shows "pow2 (lg x) \<le> x" and "x < pow2 (lg x + 1)"
proof -
  have "pow2 (lg x) \<le> x \<and> x < pow2 (lg x + 1)"
  proof (cases "1 \<le> x")
    case True
    define n where "n = nat \<lfloor>x\<rfloor>"
    from True have n: "0 < n" "of_nat n = (of_int \<lfloor>x\<rfloor> :: rat)" by (auto simp: n_def)
    obtain k where k: "nbits n = Suc k" using nbits_bounds [OF n(1)] by (cases "nbits n") auto
    with nbits_bounds [OF n(1)] have "2 ^ k \<le> n" "n + 1 \<le> 2 ^ Suc k" by auto
    then have "(of_nat (2 ^ k) :: rat) \<le> of_nat n" "(of_nat (n + 1) :: rat) \<le> of_nat (2 ^ Suc k)"
      by (simp_all only: of_nat_le_iff)
    then have "2 ^ k \<le> (of_nat n :: rat)" "of_nat n + 1 \<le> (2 :: rat) ^ Suc k" by simp_all
    moreover have "of_int \<lfloor>x\<rfloor> \<le> x" "x < of_int \<lfloor>x\<rfloor> + 1" by linarith+
    ultimately have "2 ^ k \<le> x" "x < 2 ^ Suc k" using n(2) by linarith+
    moreover have "lg x = int k" using True k by (simp add: lg_def n_def)
    ultimately show ?thesis using pow2_nat [of k] pow2_nat [of "Suc k"] by (simp add: add.commute)
  next
    case False
    define m where "m = nat (\<lceil>1 / x\<rceil> - 1)"
    from False assms have "1 < 1 / x" by (simp add: field_simps)
    then have "of_int 1 < 1 / x" by (simp only: of_int_1)
    then have c: "1 < \<lceil>1 / x\<rceil>" by (simp only: less_ceiling_iff)
    then have m: "0 < m" unfolding m_def by linarith
    have "of_nat m = (of_int (\<lceil>1 / x\<rceil> - 1) :: rat)"
      unfolding m_def using c by (intro of_nat_nat) linarith
    then have m2: "of_nat m = (of_int \<lceil>1 / x\<rceil> - 1 :: rat)" by (simp only: of_int_diff of_int_1)
    obtain k where k: "nbits m = Suc k" using nbits_bounds [OF m] by (cases "nbits m") auto
    with nbits_bounds [OF m] have "2 ^ k \<le> m" "m + 1 \<le> 2 ^ Suc k" by auto
    then have "(of_nat (2 ^ k) :: rat) \<le> of_nat m" "(of_nat (m + 1) :: rat) \<le> of_nat (2 ^ Suc k)"
      by (simp_all only: of_nat_le_iff)
    then have "2 ^ k \<le> (of_nat m :: rat)" "of_nat m + 1 \<le> (2 :: rat) ^ Suc k" by simp_all
    moreover have "1 / x \<le> of_int \<lceil>1 / x\<rceil>" "of_int \<lceil>1 / x\<rceil> - 1 < 1 / x" by linarith+
    ultimately have b: "2 ^ k < 1 / x" "1 / x \<le> 2 ^ Suc k" using m2 by linarith+
    have l: "lg x = - int (Suc k)" using False k by (simp add: lg_def m_def)
    from b assms have "x < 1 / 2 ^ k" "1 / 2 ^ Suc k \<le> x" by (simp_all add: field_simps)
    with l pow2_neg_nat [of "Suc k"] pow2_neg_nat [of k] show ?thesis by simp
  qed
  then show "pow2 (lg x) \<le> x" and "x < pow2 (lg x + 1)" by auto
qed

lemma round_even_cases: "round_even y = \<lfloor>y\<rfloor> \<or> round_even y = \<lfloor>y\<rfloor> + 1"
  by (simp add: round_even_def Let_def)

lemma round_even_err: "\<bar>of_int (round_even y) - y\<bar> \<le> 1 / 2"
  unfolding round_even_def Let_def by (simp add: abs_if split: if_splits) linarith

lemma round_even_int [simp]: "round_even (of_int i) = i"
  by (simp add: round_even_def)

lemma round_even_mono:
  assumes "y \<le> z"
  shows "round_even y \<le> round_even z"
proof (cases "\<lfloor>y\<rfloor> = \<lfloor>z\<rfloor>")
  case True
  with assms show ?thesis by (auto simp: round_even_def Let_def)
next
  case False
  with assms have "\<lfloor>y\<rfloor> + 1 \<le> \<lfloor>z\<rfloor>" using floor_mono [OF assms] by simp
  with round_even_cases [of y] round_even_cases [of z] show ?thesis by auto
qed

lemma round_pos_err: "\<bar>round_pos x - x\<bar> \<le> pow2 (ulp_exp x) / 2"
proof -
  let ?u = "pow2 (ulp_exp x)"
  have "round_pos x - x = (of_int (round_even (x / ?u)) - x / ?u) * ?u"
    by (simp add: round_pos_def field_simps)
  then have "\<bar>round_pos x - x\<bar> = \<bar>of_int (round_even (x / ?u)) - x / ?u\<bar> * ?u"
    by (simp only: abs_mult abs_of_pos pow2_pos)
  also have "\<dots> \<le> 1 / 2 * ?u"
    by (rule mult_right_mono) (use round_even_err [of "x / ?u"] in \<open>simp_all add: less_imp_le\<close>)
  finally show ?thesis by simp
qed

lemma round_pos_exact:
  assumes "0 < n" and "n < 2 ^ 53"
  shows "round_pos (of_int n) = of_int n"
proof -
  let ?x = "of_int n :: rat"
  have x: "0 < ?x" "1 \<le> ?x" "?x < pow2 53" using assms by (simp_all add: pow2_def)
  have "pow2 0 < pow2 (lg ?x + 1)" using lg_bounds(2) [OF x(1)] x(2) by (simp add: pow2_def)
  then have "0 \<le> lg ?x" by (simp add: pow2_less_iff)
  moreover have "pow2 (lg ?x) < pow2 53" using lg_bounds(1) [OF x(1)] x(3) by linarith
  then have "lg ?x < 53" by (simp add: pow2_less_iff)
  ultimately obtain k where e: "ulp_exp ?x = - int k"
    by (intro that [of "nat (52 - lg ?x)"]) (simp add: ulp_exp_def)
  have "?x / pow2 (- int k) = of_int (n * 2 ^ k)" by (simp add: pow2_neg_nat)
  then have "round_even (?x / pow2 (- int k)) = n * 2 ^ k" by (simp only: round_even_int)
  then show ?thesis by (simp add: round_pos_def e pow2_neg_nat)
qed

lemma f64_of_int_exact:
  assumes "\<bar>n\<bar> < 2 ^ 53"
  shows "f64_of_int n = Fin (of_int n)"
proof (cases "n = 0")
  case True
  then show ?thesis by (simp add: f64_of_int_def f64_round_def)
next
  case False
  then have r: "round_pos (of_int \<bar>n\<bar>) = of_int \<bar>n\<bar>" using assms by (intro round_pos_exact) auto
  have "(of_int \<bar>n\<bar> :: rat) < of_int (2 ^ 53)" using assms by (simp only: of_int_less_iff)
  also have "\<dots> \<le> pow2 1024" using pow2_mono [of 53 1024] by (simp add: pow2_def)
  finally have "\<not> pow2 1024 \<le> of_int \<bar>n\<bar>" by simp
  with False r show ?thesis by (auto simp: f64_of_int_def f64_round_def Let_def)
qed

section \<open>time.ParseDuration\<close>

text \<open>
  A duration is a 64-bit count of nanoseconds.  The text is a sign and a sequence of decimal
  numbers with a unit; the fraction of a number goes through \<open>float64\<close>, and the sum is kept in
  an unsigned 64-bit word.
\<close>

definition Second :: int where "Second = 1000000000"
definition Minute :: int where "Minute = 60 * Second"

fun leading_int :: "nat \<Rightarrow> string \<Rightarrow> (num_error, nat \<times> string) outcome" where
  "leading_int x [] = Ok (x, [])"
| "leading_int x (c # s) =
     (if \<not> is_digit c then Ok (x, c # s)
      else if 2 ^ 63 div 10 < x then Err ErrRange
      else let y = x * 10 + digit_val c in
        (if 2 ^ 63 < y then Err ErrRange else leading_int y s))"

fun leading_fraction :: "bool \<Rightarrow> nat \<Rightarrow> f64 \<Rightarrow> string \<Rightarrow> nat \<times> f64 \<times> string" where
  "leading_fraction overflow x scale [] = (x, scale, [])"
| "leading_fraction overflow x scale (c # s) =
     (if \<not> is_digit c then (x, scale, c # s)
      else if overflow then leading_fraction True x scale s
      else if (2 ^ 63 - 1) div 10 < x then leading_fraction True x scale s
      else let y = x * 10 + digit_val c in
        (if 2 ^ 63 < y then leading_fraction True x scale s
         else leading_fraction False y (f64_mul scale (Fin 10)) s))"

definition duration_unit :: "string \<Rightarrow> nat option" where
  "duration_unit u =
     map_of [(''ns'', 1), (''us'', 1000), ([CHR 0xC2, CHR 0xB5, CHR ''s''], 1000),
       ([CHR 0xCE, CHR 0xBC, CHR ''s''], 1000), (''ms'', 1000000), (''s'', 1000000000),
       (''m'', 60000000000), (''h'', 3600000000000)] u"

definition duration_fraction :: "nat \<Rightarrow> nat \<Rightarrow> f64 \<Rightarrow> nat" where
  "duration_fraction f un scale =
     (case f64_mul (f64_of_int (int f)) (f64_div (f64_of_int (int un)) scale) of
        Fin x \<Rightarrow> nat (rat_trunc x) | _ \<Rightarrow> 0)"

text \<open>\<open>[0-9]*(\.[0-9]*)?\<close>: the integer part, the fraction with its scale, and what follows.\<close>

definition duration_fraction_part :: "string \<Rightarrow> nat \<times> f64 \<times> string \<times> bool" where
  "duration_fraction_part s =
     (if has_prefix s ''.'' then
        (let (f, scale, r) = leading_fraction False 0 (Fin 1) (tl s)
         in (f, scale, r, length r \<noteq> length (tl s)))
      else (0, Fin 1, s, False))"

definition duration_number :: "string \<Rightarrow> (nat \<times> nat \<times> f64 \<times> string) option" where
  "duration_number s =
     (if s = [] \<or> \<not> (hd s = CHR ''.'' \<or> is_digit (hd s)) then None
      else (case leading_int 0 s of
          Ok (v, s1) \<Rightarrow>
            (case duration_fraction_part s1 of (f, scale, s2, post) \<Rightarrow>
               if length s1 = length s \<and> \<not> post then None else Some (v, f, scale, s2))
        | _ \<Rightarrow> None))"

definition duration_value :: "nat \<Rightarrow> nat \<Rightarrow> f64 \<Rightarrow> nat \<Rightarrow> nat option" where
  "duration_value v f scale un =
     (if 2 ^ 63 div un < v then None
      else if 0 < f then
        (let w = v * un + duration_fraction f un scale
         in if 2 ^ 63 < w then None else Some w)
      else Some (v * un))"

definition unit_char :: "char \<Rightarrow> bool" where
  "unit_char c \<longleftrightarrow> c \<noteq> CHR ''.'' \<and> \<not> is_digit c"

definition duration_component :: "string \<Rightarrow> (nat \<times> string) option" where
  "duration_component s =
     (case duration_number s of
        None \<Rightarrow> None
      | Some (v, f, scale, s2) \<Rightarrow>
          (if takeWhile unit_char s2 = [] then None
           else (case duration_unit (takeWhile unit_char s2) of
               None \<Rightarrow> None
             | Some un \<Rightarrow>
                 map_option (\<lambda>w. (w, dropWhile unit_char s2)) (duration_value v f scale un))))"

lemma leading_int_length: "leading_int x s = Ok (v, r) \<Longrightarrow> length r \<le> length s"
  by (induction s arbitrary: x) (auto simp: Let_def le_SucI split: if_splits)

lemma leading_fraction_length: "leading_fraction ov x sc s = (f, scale, r) \<Longrightarrow> length r \<le> length s"
  by (induction s arbitrary: ov x sc) (auto simp: Let_def le_SucI split: if_splits)

lemma dropWhile_shorter: "takeWhile P s \<noteq> [] \<Longrightarrow> length (dropWhile P s) < length s"
  by (cases s) (auto simp: le_imp_less_Suc length_dropWhile_le split: if_splits)

lemma duration_number_length:
  assumes "duration_number s = Some (v, f, scale, s2)"
  shows "length s2 \<le> length s"
proof -
  from assms obtain w s1 post where l: "leading_int 0 s = Ok (w, s1)"
    and fp: "duration_fraction_part s1 = (f, scale, s2, post)"
    by (auto simp: duration_number_def split: if_splits outcome.splits prod.splits)
  from fp have "length s2 \<le> length s1"
    by (auto simp: duration_fraction_part_def split: if_splits prod.splits
        dest!: leading_fraction_length)
  with leading_int_length [OF l] show ?thesis by simp
qed

lemma duration_component_length:
  "duration_component s = Some (v, rest) \<Longrightarrow> length rest < length s"
  by (auto simp: duration_component_def split: option.splits prod.splits if_splits
      dest!: duration_number_length dropWhile_shorter)

function duration_loop :: "nat \<Rightarrow> string \<Rightarrow> nat option" where
  "duration_loop d s =
     (if s = [] then Some d
      else (case duration_component s of
          None \<Rightarrow> None
        | Some (v, rest) \<Rightarrow>
            (let d' = (d + v) mod 2 ^ 64 in
             if 2 ^ 63 < d' then None else duration_loop d' rest)))"
  by pat_completeness auto
termination
  by (relation "measure (\<lambda>(d, s). length s)") (auto dest: duration_component_length)

declare duration_loop.simps [simp del]

definition time_ParseDuration :: "string \<Rightarrow> int option" where
  "time_ParseDuration s =
     (let (neg, t) = strip_sign s in
      if t = ''0'' then Some 0
      else if t = [] then None
      else (case duration_loop 0 t of
          None \<Rightarrow> None
        | Some d \<Rightarrow>
            (if neg then Some (- int d)
             else if 2 ^ 63 - 1 < d then None else Some (int d))))"

lemma duration_loop_bound: "duration_loop d s = Some r \<Longrightarrow> d \<le> 2 ^ 63 \<Longrightarrow> r \<le> 2 ^ 63"
proof (induction d s rule: duration_loop.induct)
  case (1 d s)
  from "1.prems" show ?case
    by (subst (asm) duration_loop.simps)
       (auto simp: Let_def split: if_splits option.splits prod.splits dest!: "1.IH")
qed

lemma ParseDuration_bound:
  "time_ParseDuration s = Some d \<Longrightarrow> - (2 ^ 63) \<le> d \<and> d < 2 ^ 63"
  by (auto simp: time_ParseDuration_def split: prod.splits if_splits option.splits
      dest!: duration_loop_bound)

end
