(* ===== verification/File_Mode.thy ===== *)
theory File_Mode
  imports Go_Numbers "HOL-Library.Word"
begin

text \<open>
  \<open>ParseMode\<close>, \<open>validateMode\<close> and \<open>ParseOwner\<close> of \<open>internal/filewriter/writer.go\<close>.  An
  \<open>os.FileMode\<close> is a 32-bit word; the permission bits are its low nine bits.  The source's
  octal constants are written in hexadecimal: \<open>0777 = 0x1FF\<close>, \<open>0644 = 0x1A4\<close>, \<open>0600 = 0x180\<close>,
  \<open>0020 = 0x10\<close>.
\<close>

unbundle bit_operations_syntax

section \<open>Modes and owners\<close>

type_synonym FileMode = "32 word"

definition ModePerm :: FileMode where "ModePerm = 0x1FF"

datatype mode_error =
    InvalidMode num_error
  | WorldWritable FileMode
  | GroupWritableWorldReadable FileMode
  | TooPermissive FileMode

definition validateMode :: "FileMode \<Rightarrow> (mode_error, unit) outcome" where
  "validateMode mode =
     (let perm = mode AND ModePerm in
      if perm AND 0x2 \<noteq> 0 then Err (WorldWritable perm)
      else if perm AND 0x10 \<noteq> 0 \<and> perm AND 0x4 \<noteq> 0 then Err (GroupWritableWorldReadable perm)
      else if 0x1A4 < perm then Err (TooPermissive perm)
      else Ok ())"

definition ParseMode :: "string \<Rightarrow> (mode_error, FileMode) outcome" where
  "ParseMode mode =
     (if mode = [] then Ok 0x180
      else and_then (wrap_err InvalidMode (strconv_ParseUint mode 8 32)) (\<lambda>m.
        let fileMode = word_of_nat m in and_then (validateMode fileMode) (\<lambda>_. Ok fileMode)))"

definition ParseOwner :: "string \<Rightarrow> (num_error, int) outcome" where
  "ParseOwner owner = (if owner = [] then Ok (- 1) else strconv_Atoi owner)"

section \<open>What an accepted mode grants\<close>

lemma and_single_bit: "(w AND 2 ^ n \<noteq> 0) = bit (w :: FileMode) n" if "n < 32"
proof
  assume "bit w n"
  then have "bit (w AND 2 ^ n) n" using that by (simp add: bit_and_iff bit_exp_iff)
  then show "w AND 2 ^ n \<noteq> 0" by auto
next
  assume "w AND 2 ^ n \<noteq> 0"
  then obtain k where "bit (w AND 2 ^ n) k" by (auto simp: bit_eq_iff)
  then show "bit w n" by (auto simp: bit_and_iff bit_exp_iff)
qed

lemma mode_bits:
  "((w :: FileMode) AND 0x2 \<noteq> 0) = bit w 1"
  "(w AND 0x4 \<noteq> 0) = bit w 2"
  "(w AND 0x10 \<noteq> 0) = bit w 4"
  using and_single_bit [of 1 w] and_single_bit [of 2 w] and_single_bit [of 4 w] by simp_all

lemma perm_bits: "k < 9 \<Longrightarrow> bit (w AND ModePerm) k = bit (w :: FileMode) k"
proof -
  assume k: "k < 9"
  have m: "ModePerm = mask 9" by (simp add: ModePerm_def mask_eq_exp_minus_1)
  show ?thesis using k by (auto simp: m bit_and_iff bit_mask_iff)
qed

text \<open>Acceptance, read off the permission bits.\<close>

definition mode_allowed :: "FileMode \<Rightarrow> bool" where
  "mode_allowed m \<longleftrightarrow>
     \<not> bit m 1 \<and> \<not> (bit m 4 \<and> bit m 2) \<and> m AND ModePerm \<le> 0x1A4"

lemma validateMode_iff: "validateMode m = Ok () \<longleftrightarrow> mode_allowed m"
  by (auto simp: validateMode_def mode_allowed_def Let_def mode_bits perm_bits not_less)

lemma validateMode_no_panic: "validateMode m \<noteq> Panic p"
  by (simp add: validateMode_def Let_def)

lemma ParseUint_no_panic: "strconv_ParseUint s b n \<noteq> Panic p"
proof -
  have "uint_loop b mx k s \<noteq> Panic p" for mx k
    by (induction s arbitrary: k) (auto simp: Let_def)
  then show ?thesis by (simp add: strconv_ParseUint_def)
qed

lemma ParseMode_Ok:
  assumes "ParseMode s = Ok m"
  shows "mode_allowed m"
proof (cases "s = []")
  case True
  with assms have "m = 0x180" by (simp add: ParseMode_def)
  moreover have "validateMode 0x180 = Ok ()" by (simp add: validateMode_def ModePerm_def)
  ultimately show ?thesis by (simp add: validateMode_iff)
next
  case False
  with assms show ?thesis by (auto simp: ParseMode_def Let_def validateMode_iff)
qed

lemma ParseMode_no_panic: "ParseMode s \<noteq> Panic p"
proof (cases "strconv_ParseUint s 8 32")
  case (Ok m)
  then show ?thesis using validateMode_no_panic [of "word_of_nat m"]
    by (cases "validateMode (word_of_nat m)") (auto simp: ParseMode_def Let_def)
next
  case (Panic q)
  then show ?thesis using ParseUint_no_panic by blast
qed (simp add: ParseMode_def)

lemma Atoi_no_panic: "strconv_Atoi s \<noteq> Panic p"
proof -
  obtain neg ds where d: "strip_sign s = (neg, ds)" by (cases "strip_sign s")
  show ?thesis using ParseUint_no_panic [of ds 10 64]
    by (cases "strconv_ParseUint ds 10 64") (auto simp: strconv_Atoi_def d)
qed

lemma ParseOwner_no_panic: "ParseOwner s \<noteq> Panic p"
  by (simp add: ParseOwner_def Atoi_no_panic)

lemma ParseOwner_Ok_range: "ParseOwner s = Ok i \<Longrightarrow> - (2 ^ 63) \<le> i \<and> i < 2 ^ 63"
  using Atoi_bound [of s i] by (auto simp: ParseOwner_def split: if_splits)

text \<open>The octal rendering of a number, as the error messages print a mode.\<close>

fun octal :: "nat \<Rightarrow> string" where
  "octal n = (if n < 8 then [char_of (48 + n)] else octal (n div 8) @ [char_of (48 + n mod 8)])"

declare octal.simps [simp del]

lemma digit_char: "d < 8 \<Longrightarrow> is_digit (char_of (48 + d)) \<and> digit_val (char_of (48 + d)) = d"
  by (simp add: is_digit_def digit_val_def char_code_def)

lemma uint_loop_append:
  "uint_loop b mx n (s @ t) = and_then (uint_loop b mx n s) (\<lambda>m. uint_loop b mx m t)"
  by (induction s arbitrary: n) (auto simp: Let_def)

lemma octal_nonempty: "octal n \<noteq> []"
  by (subst octal.simps) simp

lemma uint_loop_octal: "n \<le> mx \<Longrightarrow> uint_loop 8 mx 0 (octal n) = Ok n"
proof (induction n rule: octal.induct)
  case (1 n)
  show ?case
  proof (cases "n < 8")
    case True
    with "1.prems" show ?thesis by (subst octal.simps) (simp add: digit_char)
  next
    case False
    have "n div 8 \<le> mx" using "1.prems" by (simp add: le_trans [OF div_le_dividend])
    with "1.IH" False have ih: "uint_loop 8 mx 0 (octal (n div 8)) = Ok (n div 8)" by simp
    have o: "octal n = octal (n div 8) @ [char_of (48 + n mod 8)]" by (subst octal.simps) (simp add: False)
    have "n div 8 * 8 + n mod 8 = n" by simp
    with "1.prems" show ?thesis by (simp add: o uint_loop_append ih digit_char)
  qed
qed

lemma ParseUint_octal: "n < 2 ^ 32 \<Longrightarrow> strconv_ParseUint (octal n) 8 32 = Ok n"
  by (simp add: strconv_ParseUint_def octal_nonempty uint_loop_octal)

lemma ParseUint_octal_0: "n < 2 ^ 32 \<Longrightarrow> strconv_ParseUint (CHR ''0'' # octal n) 8 32 = Ok n"
  by (simp add: strconv_ParseUint_def uint_loop_octal is_digit_def digit_val_def char_code_def)

text \<open>C38: the mode printed by the \<open>0%o\<close> verb parses back to itself exactly when it is allowed.\<close>

lemma ParseMode_roundtrip:
  "ParseMode (CHR ''0'' # octal (unat m)) = Ok m \<longleftrightarrow> mode_allowed m"
proof -
  have "unat m < 2 ^ 32" using unsigned_less [of m] by simp
  then have "ParseMode (CHR ''0'' # octal (unat m)) = and_then (validateMode m) (\<lambda>_. Ok m)"
    by (simp add: ParseMode_def ParseUint_octal_0)
  then show ?thesis using validateMode_iff [of m] by (auto simp: is_ok_iff)
qed

end
