(* ===== verification/Go_Path.thy ===== *)
theory Go_Path
  imports Prelude
begin

text \<open>
  The lexical path operations of Go's \<open>path\<close> and \<open>path/filepath\<close> on Unix: \<open>Clean\<close>, \<open>Join\<close>,
  \<open>Dir\<close>, \<open>Base\<close>, \<open>IsAbs\<close> and \<open>Abs\<close>.  The validator resolves every output path with them, the
  file writer takes the directory of a path, the fetcher builds the Vault path, the syncer
  matches template names with base names.  What the callers rely on is stated once as the
  locale \<open>path_normaliser\<close> and proved for these definitions at the end.
\<close>

section \<open>Clean\<close>

text \<open>
  One path element against the stack of elements kept so far (its head is the last one):
  empty elements and \<open>.\<close> disappear, \<open>..\<close> removes the element before it, is dropped at the
  root and is kept at the front of a relative path.
\<close>

fun clean_step :: "bool \<Rightarrow> string list \<Rightarrow> string \<Rightarrow> string list" where
  "clean_step rooted st e =
     (if e = [] \<or> e = ''.'' then st
      else if e = ''..'' then
        (case st of
           [] \<Rightarrow> (if rooted then [] else [''..''])
         | t # ts \<Rightarrow> (if t = ''..'' then ''..'' # st else ts))
      else e # st)"

definition clean_elems :: "bool \<Rightarrow> string list \<Rightarrow> string list" where
  "clean_elems rooted es = rev (foldl (clean_step rooted) [] es)"

definition render_path :: "bool \<Rightarrow> string list \<Rightarrow> string" where
  "render_path rooted es =
     (if rooted then CHR ''/'' # join_with (CHR ''/'') es
      else if es = [] then ''.'' else join_with (CHR ''/'') es)"

definition filepath_IsAbs :: "string \<Rightarrow> bool" where
  "filepath_IsAbs p = has_prefix p ''/''"

definition path_Clean :: "string \<Rightarrow> string" where
  "path_Clean p =
     render_path (filepath_IsAbs p) (clean_elems (filepath_IsAbs p) (split_on (CHR ''/'') p))"

text \<open>
  The elements of a cleaned path: none is empty, \<open>.\<close> or holds a slash, and \<open>..\<close> occurs only
  in front of a relative one.
\<close>

definition plain_elem :: "string \<Rightarrow> bool" where
  "plain_elem e \<longleftrightarrow> e \<noteq> [] \<and> e \<noteq> ''.'' \<and> CHR ''/'' \<notin> set e"

fun clean_list :: "bool \<Rightarrow> string list \<Rightarrow> bool" where
  "clean_list rooted [] = True"
| "clean_list rooted (e # es) =
     (plain_elem e \<and>
      (if e = ''..'' then \<not> rooted \<and> clean_list rooted es
       else ''..'' \<notin> set es \<and> (\<forall>x \<in> set es. plain_elem x)))"

lemma clean_list_plain: "clean_list r es \<Longrightarrow> e \<in> set es \<Longrightarrow> plain_elem e"
  by (induction es) (auto split: if_splits)

lemma clean_list_rooted:
  "clean_list True es \<longleftrightarrow> (\<forall>e \<in> set es. plain_elem e \<and> e \<noteq> ''..'')"
  by (cases es) auto

lemma clean_list_append:
  "clean_list r (es @ [e]) \<longleftrightarrow>
     clean_list r es \<and> plain_elem e \<and>
     (e = ''..'' \<longrightarrow> \<not> r \<and> (\<forall>x \<in> set es. x = ''..''))"
  by (induction es) auto

lemma clean_list_prefix: "clean_list r (xs @ ys) \<Longrightarrow> clean_list r xs"
  by (induction xs) (auto split: if_splits)

lemma clean_list_last_dots:
  "clean_list r (es @ [''..'']) \<Longrightarrow> \<forall>x \<in> set es. x = ''..''"
  by (simp add: clean_list_append)

lemma plain_dots [simp]: "plain_elem ''..''"
  by (simp add: plain_elem_def)

lemma clean_step_inv:
  assumes "clean_list r (rev st)" and "CHR ''/'' \<notin> set e"
  shows "clean_list r (rev (clean_step r st e))"
proof (cases "e = [] \<or> e = ''.''")
  case True
  with assms show ?thesis by auto
next
  case plain: False
  show ?thesis
  proof (cases "e = ''..''")
    case False
    with plain assms show ?thesis
      by (auto simp: clean_list_append plain_elem_def)
  next
    case True
    show ?thesis
    proof (cases st)
      case Nil
      with True show ?thesis by simp
    next
      case (Cons t ts)
      show ?thesis
      proof (cases "t = ''..''")
        case False
        with True Cons assms show ?thesis by (simp add: clean_list_append)
      next
        case dots: True
        with Cons assms(1) have "\<not> r" "\<forall>x \<in> set (rev st). x = ''..''"
          by (auto simp: clean_list_append)
        with assms(1) have "clean_list r (rev st @ [''..''])"
          unfolding clean_list_append [of r "rev st"] by simp
        with True Cons dots show ?thesis by simp
      qed
    qed
  qed
qed

lemma foldl_clean_inv:
  "clean_list r (rev st) \<Longrightarrow> (\<And>e. e \<in> set es \<Longrightarrow> CHR ''/'' \<notin> set e) \<Longrightarrow>
   clean_list r (rev (foldl (clean_step r) st es))"
proof (induction es arbitrary: st)
  case Nil
  then show ?case by simp
next
  case (Cons e es)
  from Cons.prems have "clean_list r (rev (clean_step r st e))"
    by (intro clean_step_inv) auto
  with Cons show ?case by (simp del: clean_step.simps)
qed

lemma clean_elems_clean: "clean_list r (clean_elems r (split_on (CHR ''/'') p))"
  unfolding clean_elems_def by (rule foldl_clean_inv) (auto dest: split_on_no_sep)

lemma foldl_clean_id:
  "clean_list r (rev st @ es) \<Longrightarrow> foldl (clean_step r) st es = rev es @ st"
proof (induction es arbitrary: st)
  case Nil
  then show ?case by simp
next
  case (Cons e es)
  have pe: "clean_list r (rev (e # st) @ es)" using Cons.prems by simp
  have pre: "clean_list r (rev st @ [e])"
    using clean_list_prefix [of r "rev st @ [e]" es] Cons.prems by simp
  have "clean_step r st e = e # st"
  proof (cases "e = ''..''")
    case False
    with pre show ?thesis by (auto simp: clean_list_append plain_elem_def)
  next
    case True
    with pre have "\<not> r" "\<forall>x \<in> set st. x = ''..''" by (auto simp: clean_list_append)
    with True show ?thesis by (cases st) auto
  qed
  with Cons.IH [OF pe] show ?case by (simp del: clean_step.simps)
qed

lemma clean_elems_id: "clean_list r es \<Longrightarrow> clean_elems r es = es"
  using foldl_clean_id [of r "[]" es] by (simp add: clean_elems_def)

lemma clean_elems_empty_elem: "clean_elems r ([] # es) = clean_elems r es"
  by (simp add: clean_elems_def)

section \<open>Paths as element lists\<close>

lemma IsAbs_Cons [simp]: "filepath_IsAbs (CHR ''/'' # p)"
  by (simp add: filepath_IsAbs_def has_prefix_def)

lemma IsAbs_iff: "filepath_IsAbs p \<longleftrightarrow> (\<exists>q. p = CHR ''/'' # q)"
  by (auto simp: filepath_IsAbs_def has_prefix_iff)

lemma plain_elem_not_abs: "plain_elem e \<Longrightarrow> \<not> filepath_IsAbs (e @ s)"
  by (cases e) (auto simp: plain_elem_def filepath_IsAbs_def has_prefix_def)

lemma join_not_abs:
  assumes "es \<noteq> []" and "\<forall>e \<in> set es. plain_elem e"
  shows "\<not> filepath_IsAbs (join_with (CHR ''/'') es)"
proof (cases es)
  case Nil
  with assms show ?thesis by simp
next
  case (Cons x ys)
  with assms have "plain_elem x" by simp
  from plain_elem_not_abs [OF this] have "\<not> filepath_IsAbs (x @ t)" for t .
  from this [of "[]"] this [of "CHR ''/'' # join_with (CHR ''/'') ys"] Cons show ?thesis
    by (cases ys) auto
qed

lemma render_path_abs [simp]:
  "clean_list r es \<Longrightarrow> filepath_IsAbs (render_path r es) = r"
  using join_not_abs [of es] clean_list_plain [of r es]
  by (auto simp: render_path_def filepath_IsAbs_def has_prefix_def)

lemma split_render:
  assumes "clean_list r es"
  shows "clean_elems r (split_on (CHR ''/'') (render_path r es)) = es"
proof (cases "es = []")
  case True
  then show ?thesis by (cases r) (simp_all add: render_path_def clean_elems_def)
next
  case False
  have "split_on (CHR ''/'') (join_with (CHR ''/'') es) = es"
    using False clean_list_plain [OF assms] by (intro split_on_join) (auto simp: plain_elem_def)
  with False assms show ?thesis
    by (auto simp: render_path_def clean_elems_empty_elem clean_elems_id)
qed

lemma path_Clean_render: "clean_list r es \<Longrightarrow> path_Clean (render_path r es) = render_path r es"
  by (simp add: path_Clean_def split_render)

lemma path_Clean_cases:
  obtains es where "clean_list (filepath_IsAbs p) es"
    and "path_Clean p = render_path (filepath_IsAbs p) es"
  using clean_elems_clean [of "filepath_IsAbs p" p] by (auto simp: path_Clean_def)

lemma Clean_idem: "path_Clean (path_Clean p) = path_Clean p"
  by (rule path_Clean_cases [of p]) (simp add: path_Clean_render)

lemma Clean_abs: "filepath_IsAbs (path_Clean p) = filepath_IsAbs p"
  by (rule path_Clean_cases [of p]) simp

lemma Clean_abs_elems:
  assumes "filepath_IsAbs p"
  obtains es where "path_Clean p = CHR ''/'' # join_with (CHR ''/'') es"
    and "\<And>e. e \<in> set es \<Longrightarrow> plain_elem e \<and> e \<noteq> ''..''"
proof -
  obtain es where es: "clean_list True es" "path_Clean p = render_path True es"
    using assms path_Clean_cases [of p] by auto
  with that [of es] show thesis by (auto simp: clean_list_rooted render_path_def)
qed

lemma Clean_nonempty: "path_Clean p \<noteq> []"
proof (rule path_Clean_cases [of p])
  fix es
  assume c: "clean_list (filepath_IsAbs p) es" "path_Clean p = render_path (filepath_IsAbs p) es"
  have "\<And>e. e \<in> set es \<Longrightarrow> e \<noteq> []" using clean_list_plain [OF c(1)] by (auto simp: plain_elem_def)
  with c(2) show ?thesis by (auto simp: render_path_def join_with_empty_iff)
qed

section \<open>Join, Dir, Base, Abs\<close>

text \<open>
  \<open>path.Join\<close> drops leading empty elements, joins the rest with slashes and cleans; it is
  empty only when every element is.
\<close>

fun drop_empty :: "string list \<Rightarrow> string list" where
  "drop_empty [] = []"
| "drop_empty (e # es) = (if e = [] then drop_empty es else e # es)"

definition path_Join :: "string list \<Rightarrow> string" where
  "path_Join es =
     (if drop_empty es = [] then [] else path_Clean (join_with (CHR ''/'') (drop_empty es)))"

definition after_last_slash :: "string \<Rightarrow> string" where
  "after_last_slash p = rev (takeWhile (\<lambda>c. c \<noteq> CHR ''/'') (rev p))"

definition upto_last_slash :: "string \<Rightarrow> string" where
  "upto_last_slash p = rev (dropWhile (\<lambda>c. c \<noteq> CHR ''/'') (rev p))"

definition strip_trailing_slashes :: "string \<Rightarrow> string" where
  "strip_trailing_slashes p = rev (dropWhile (\<lambda>c. c = CHR ''/'') (rev p))"

definition filepath_Dir :: "string \<Rightarrow> string" where
  "filepath_Dir p = path_Clean (upto_last_slash p)"

definition filepath_Base :: "string \<Rightarrow> string" where
  "filepath_Base p =
     (if p = [] then ''.''
      else let b = after_last_slash (strip_trailing_slashes p)
           in if b = [] then ''/'' else b)"

text \<open>
  \<open>filepath.Abs\<close> asks the operating system for the working directory when the path is
  relative.  The directory is given by its elements (\<open>os.Getwd\<close> returns a rooted path), or
  \<^const>\<open>None\<close> when \<open>Getwd\<close> fails.
\<close>

type_synonym workdir = "string list option"

definition os_Getwd :: "workdir \<Rightarrow> string option" where
  "os_Getwd wd = map_option (\<lambda>es. CHR ''/'' # join_with (CHR ''/'') es) wd"

definition filepath_Abs :: "workdir \<Rightarrow> string \<Rightarrow> string option" where
  "filepath_Abs wd p =
     (if filepath_IsAbs p then Some (path_Clean p)
      else (case os_Getwd wd of None \<Rightarrow> None | Some d \<Rightarrow> Some (path_Join [d, p])))"

lemma Abs_cases:
  assumes "filepath_Abs wd p = Some q"
  obtains r where "q = path_Clean r" and "filepath_IsAbs r"
proof (cases "filepath_IsAbs p")
  case True
  with assms that [of p] show thesis by (simp add: filepath_Abs_def)
next
  case False
  with assms obtain d where d: "os_Getwd wd = Some d" "q = path_Join [d, p]"
    by (auto simp: filepath_Abs_def split: option.splits)
  then obtain e where e: "d = CHR ''/'' # e" by (auto simp: os_Getwd_def)
  with d(2) that [of "d @ CHR ''/'' # p"] show thesis by (simp add: path_Join_def)
qed

lemma Abs_abs: "filepath_Abs wd p = Some q \<Longrightarrow> filepath_IsAbs q"
  by (erule Abs_cases) (simp add: Clean_abs)

lemma Abs_clean: "filepath_Abs wd p = Some q \<Longrightarrow> path_Clean q = q"
  by (erule Abs_cases) (simp add: Clean_idem)

lemma Abs_of_abs: "filepath_IsAbs p \<Longrightarrow> filepath_Abs wd p = Some (path_Clean p)"
  by (simp add: filepath_Abs_def)

lemma last_slash_decomp: "upto_last_slash p @ after_last_slash p = p"
  unfolding upto_last_slash_def after_last_slash_def
  by (metis rev_append rev_rev_ident takeWhile_dropWhile_id)

lemma after_last_slash_no_slash: "CHR ''/'' \<notin> set (after_last_slash p)"
  by (auto simp: after_last_slash_def dest: set_takeWhileD)

lemma after_last_slash_app:
  "CHR ''/'' \<notin> set a \<Longrightarrow> after_last_slash (b @ CHR ''/'' # a) = a"
  by (simp add: after_last_slash_def takeWhile_append)

lemma upto_last_slash_app:
  "CHR ''/'' \<notin> set a \<Longrightarrow> upto_last_slash (b @ CHR ''/'' # a) = b @ ''/''"
  by (simp add: upto_last_slash_def dropWhile_append)

lemma Dir_abs:
  assumes "filepath_IsAbs p"
  shows "filepath_IsAbs (filepath_Dir p)"
proof -
  from assms have "filepath_IsAbs (upto_last_slash p)"
    using last_slash_decomp [of p] after_last_slash_no_slash [of p]
    by (cases "upto_last_slash p") (auto simp: IsAbs_iff)
  then show ?thesis by (simp add: filepath_Dir_def Clean_abs)
qed

lemma Base_app:
  assumes "a \<noteq> []" and "CHR ''/'' \<notin> set a"
  shows "filepath_Base (b @ CHR ''/'' # a) = a"
proof -
  have "last a \<noteq> CHR ''/''" using assms by (auto dest: last_in_set)
  then have "strip_trailing_slashes (b @ CHR ''/'' # a) = b @ CHR ''/'' # a"
    using assms(1) by (cases a rule: rev_cases) (auto simp: strip_trailing_slashes_def)
  with assms show ?thesis by (simp add: filepath_Base_def after_last_slash_app)
qed

section \<open>The contract of a path normaliser\<close>

text \<open>
  What the validator and the writer rely on, whatever the working directory is: resolving
  gives a rooted, already clean path, and leaves rooted clean paths alone.
\<close>

locale path_normaliser =
  fixes is_abs :: "string \<Rightarrow> bool"
    and clean :: "string \<Rightarrow> string"
    and resolve :: "string \<Rightarrow> string option"
  assumes clean_idem: "clean (clean p) = clean p"
    and clean_abs: "is_abs (clean p) = is_abs p"
    and resolve_abs: "resolve p = Some q \<Longrightarrow> is_abs q"
    and resolve_of_abs: "is_abs p \<Longrightarrow> resolve p = Some (clean p)"
begin

lemma resolve_clean_abs: "resolve p = Some q \<Longrightarrow> is_abs (clean q)"
  using resolve_abs clean_abs by simp

lemma resolve_twice: "resolve p = Some q \<Longrightarrow> resolve (clean q) = Some (clean q)"
  using resolve_of_abs [OF resolve_clean_abs, of p q] clean_idem by simp

lemma normalise_stable:
  "resolve p = Some q \<Longrightarrow> map_option clean (resolve (clean q)) = Some (clean q)"
  using resolve_twice [of p q] clean_idem by simp

lemma resolve_total_on_abs: "is_abs p \<Longrightarrow> resolve p \<noteq> None"
  using resolve_of_abs by simp

end

interpretation go_path: path_normaliser filepath_IsAbs path_Clean "filepath_Abs wd" for wd
  by unfold_locales (auto simp: Clean_idem Clean_abs Abs_of_abs dest: Abs_abs)

lemma split_on_sep: "split_on c (a @ c # s) = split_on c a @ split_on c s"
  by (induction a) (auto split: list.splits)

lemma Base_plain:
  assumes "plain_elem e"
  shows "filepath_Base e = e"
proof -
  from assms have e: "e \<noteq> []" "CHR ''/'' \<notin> set e" by (simp_all add: plain_elem_def)
  have "last e \<noteq> CHR ''/''" using e by (auto dest: last_in_set)
  then have "strip_trailing_slashes e = e"
    using e(1) by (cases e rule: rev_cases) (auto simp: strip_trailing_slashes_def)
  moreover have "after_last_slash e = e"
  proof -
    have "takeWhile (\<lambda>c. c \<noteq> CHR ''/'') (rev e) = rev e"
      using e(2) by (intro takeWhile_eq_all_conv [THEN iffD2]) auto
    then show ?thesis unfolding after_last_slash_def by (simp only: rev_rev_ident)
  qed
  ultimately show ?thesis using e(1) by (simp add: filepath_Base_def)
qed

text \<open>The last element of a joined path is its base name, unless it is one of the special ones.\<close>

lemma Base_render_any:
  assumes "plain_elem e"
  shows "filepath_Base (render_path r (es @ [e])) = e"
proof (cases "r \<or> es \<noteq> []")
  case True
  have "e \<noteq> []" "CHR ''/'' \<notin> set e" using assms by (simp_all add: plain_elem_def)
  note b = Base_app [OF this]
  have "\<exists>b. render_path r (es @ [e]) = b @ CHR ''/'' # e"
  proof (cases "es = []")
    case True
    with \<open>r \<or> es \<noteq> []\<close> show ?thesis by (intro exI [of _ "[]"]) (simp add: render_path_def)
  next
    case False
    then show ?thesis
      by (intro exI [of _ "(if r then ''/'' else []) @ join_with (CHR ''/'') es"]) (simp add: render_path_def join_with_snoc)
  qed
  with b show ?thesis by auto
qed (simp add: render_path_def Base_plain [OF assms])

lemma Base_Clean_last:
  assumes "plain_elem e" and "e \<noteq> ''..''"
  shows "filepath_Base (path_Clean (p @ CHR ''/'' # e)) = e" and "filepath_Base (path_Clean e) = e"
proof -
  have step: "clean_elems r (xs @ [e]) = clean_elems r xs @ [e]" for r xs
    using assms by (simp add: clean_elems_def plain_elem_def)
  have s: "split_on (CHR ''/'') e = [e]" using assms(1) by (simp add: plain_elem_def split_on_single)
  show "filepath_Base (path_Clean (p @ CHR ''/'' # e)) = e"
    unfolding path_Clean_def by (simp add: split_on_sep s step Base_render_any [OF assms(1)])
  show "filepath_Base (path_Clean e) = e"
    using step [of _ "[]"] unfolding path_Clean_def
    by (simp add: s clean_elems_def Base_render_any [OF assms(1), of _ "[]", simplified])
qed

lemma Base_Join:
  assumes "plain_elem e" and "e \<noteq> ''..''"
  shows "filepath_Base (path_Join [a, e]) = e"
proof -
  have e: "e \<noteq> []" using assms(1) by (simp add: plain_elem_def)
  show ?thesis
    using Base_Clean_last(1) [OF assms, of a] Base_Clean_last(2) [OF assms] e
    by (cases "a = []") (simp_all add: path_Join_def)
qed

lemma Base_Join_last:
  assumes "plain_elem e" and "e \<noteq> ''..''"
  shows "filepath_Base (path_Join [a, b, e]) = e"
proof -
  have e: "e \<noteq> []" using assms(1) by (simp add: plain_elem_def)
  show ?thesis
    using Base_Clean_last(1) [OF assms, of "a @ CHR ''/'' # b"] Base_Clean_last(1) [OF assms, of b]
      Base_Clean_last(2) [OF assms] e
    by (cases "a = []"; cases "b = []") (simp_all add: path_Join_def)
qed

end
