(* ===== verification/Validator.thy ===== *)
theory Validator
  imports Config_Types File_Mode Go_Path
begin

text \<open>
  \<open>internal/config/validator.go\<close> and \<open>internal/config/loader.go\<close>: validation, the expansion of
  environment references and loading.  What the code asks the outside world for is the record
  \<open>os_env\<close>: the environment, the working directory, \<open>os.Stat\<close>, \<open>os.ReadFile\<close>, and the two
  library calls that are not modelled, \<open>url.Parse\<close> (scheme and host) and \<open>yaml.Unmarshal\<close>.
\<close>

section \<open>The environment and the errors\<close>

datatype stat_result = StatNotExist | StatError | StatInfo bool

record os_env =
  os_Getenv :: "string \<Rightarrow> string"
  os_Wd :: workdir
  os_Stat :: "string \<Rightarrow> stat_result"
  os_ReadFile :: "string \<Rightarrow> string option"
  url_Parse :: "string \<Rightarrow> (string \<times> string) option"
  yaml_Unmarshal :: "string \<Rightarrow> Config option"

text \<open>
  Errors, grouped by what they are about: a required field that is empty, a setting of the
  secret store, a setting of a secret or of one of its files; \<open>Within\<close> is \<open>fmt.Errorf\<close> with
  \<open>%w\<close>, its context saying where the wrapped error was found.
\<close>

datatype store_error =
    InvalidAddressURL | AddressNoScheme | AddressBadScheme string | AddressNoHost
  | UnsupportedAuthMethod string
  | TLSFileMissing string string | TLSCAPathNotDir string | TLSPairIncomplete string

datatype secret_error =
    CredentialsNotFound string | KVVersionInvalid string
  | RefreshNotPositive | RefreshTooShort int | NoEntries string | CountMismatch
  | ResolveFailed | PathNotAbsolute
  | BadMode string mode_error | BadOwner string string num_error

datatype list_error =
    NoSecrets | TooManySecrets nat
  | DuplicatePathTwoSecrets string string string | DuplicatePathSameSecret string string

datatype err_ctx =
  InSecretStore | InCredentials string | InSecret nat | InFile nat | InPath | InConfig

datatype config_error =
    Required string
  | StoreError store_error
  | SecretError secret_error
  | ListError list_error
  | ReadFailed | YamlFailed
  | Within err_ctx config_error

section \<open>The secret store\<close>

definition validateVaultAddress :: "os_env \<Rightarrow> string \<Rightarrow> (config_error, unit) outcome" where
  "validateVaultAddress os address =
     (case url_Parse os address of
        None \<Rightarrow> Err (StoreError InvalidAddressURL)
      | Some (scheme, host) \<Rightarrow>
          checks
            [require (scheme \<noteq> []) (StoreError AddressNoScheme),
             require (scheme = ''http'' \<or> scheme = ''https'') (StoreError (AddressBadScheme scheme)),
             require (host \<noteq> []) (StoreError AddressNoHost)])"

text \<open>The switch on the authentication method, the same in both functions that have it.\<close>

definition auth_switch :: "string \<Rightarrow> string \<Rightarrow> string \<Rightarrow> string \<Rightarrow> (config_error, unit) outcome" where
  "auth_switch method token roleId secretId =
     (if method = ''token'' then require (token \<noteq> []) (Required ''token'')
      else if method = ''approle'' then
        checks [require (roleId \<noteq> []) (Required ''roleId''), require (secretId \<noteq> []) (Required ''secretId'')]
      else Err (StoreError (UnsupportedAuthMethod method)))"

definition validateCredentialSet :: "string \<Rightarrow> CredentialSet \<Rightarrow> (config_error, unit) outcome" where
  "validateCredentialSet nm creds =
     checks
       [require (nm \<noteq> []) (Required ''credential set name''),
        require (cs_AuthMethod creds \<noteq> []) (Required ''authMethod''),
        auth_switch (cs_AuthMethod creds) (cs_Token creds) (cs_RoleID creds) (cs_SecretID creds)]"

text \<open>
  \<open>os.Stat\<close> on \<open>tlsCAPath\<close>: only a missing path is treated as an error, so any other failure
  leaves \<open>info\<close> nil and \<open>info.IsDir()\<close> panics.
\<close>

definition check_CAPath :: "os_env \<Rightarrow> string \<Rightarrow> (config_error, unit) outcome" where
  "check_CAPath os p =
     (case os_Stat os p of
        StatNotExist \<Rightarrow> Err (StoreError (TLSFileMissing ''tlsCAPath'' p))
      | StatError \<Rightarrow> Panic NilDereference
      | StatInfo isdir \<Rightarrow> require isdir (StoreError (TLSCAPathNotDir p)))"

definition file_exists_check ::
  "os_env \<Rightarrow> string \<Rightarrow> string \<Rightarrow> (config_error, unit) outcome" where
  "file_exists_check os field p =
     require (p = [] \<or> os_Stat os p \<noteq> StatNotExist) (StoreError (TLSFileMissing field p))"

definition validateSecretStore :: "os_env \<Rightarrow> SecretStore \<Rightarrow> (config_error, unit) outcome" where
  "validateSecretStore os store =
     checks
       [require (ss_Address store \<noteq> []) (Required ''address''),
        validateVaultAddress os (ss_Address store),
        require (ss_AuthMethod store \<noteq> []) (Required ''authMethod''),
        auth_switch (ss_AuthMethod store) (ss_Token store) (ss_RoleID store) (ss_SecretID store),
        range_check (\<lambda>(nm, creds). wrap_err (Within (InCredentials nm)) (validateCredentialSet nm creds))
          (ss_Credentials store),
        file_exists_check os ''tlsCACert'' (ss_TLSCACert store),
        (if ss_TLSCAPath store \<noteq> [] then check_CAPath os (ss_TLSCAPath store) else Ok ()),
        require (ss_TLSClientCert store = [] \<or> ss_TLSClientKey store \<noteq> []) (StoreError (TLSPairIncomplete ''tlsClientKey'')),
        require (ss_TLSClientKey store = [] \<or> ss_TLSClientCert store \<noteq> []) (StoreError (TLSPairIncomplete ''tlsClientCert'')),
        file_exists_check os ''tlsClientCert'' (ss_TLSClientCert store),
        file_exists_check os ''tlsClientKey'' (ss_TLSClientKey store)]"

section \<open>Files and secrets\<close>

definition validateFilePath :: "os_env \<Rightarrow> string \<Rightarrow> (config_error, unit) outcome" where
  "validateFilePath os p =
     (if p = [] then Err (Required ''path'')
      else (case filepath_Abs (os_Wd os) p of
          None \<Rightarrow> Err (SecretError ResolveFailed)
        | Some absPath \<Rightarrow>
            (let cleanPath = path_Clean absPath in
             require (filepath_IsAbs cleanPath) (SecretError PathNotAbsolute))))"

definition validateFile :: "os_env \<Rightarrow> File \<Rightarrow> (config_error, File) outcome" where
  "validateFile os f =
     (if file_Path f = [] then Err (Required ''path'')
      else (case filepath_Abs (os_Wd os) (file_Path f) of
          None \<Rightarrow> Err (SecretError ResolveFailed)
        | Some absPath \<Rightarrow>
            (let f1 = f\<lparr>file_Path := path_Clean absPath\<rparr> in
             and_then (wrap_err (Within InPath) (validateFilePath os (file_Path f1))) (\<lambda>_.
               let f2 = (if file_Mode f1 = [] then f1\<lparr>file_Mode := ''0600''\<rparr> else f1) in
               and_then (wrap_err (SecretError \<circ> BadMode (file_Mode f2)) (ParseMode (file_Mode f2))) (\<lambda>_.
               and_then (if file_Owner f2 \<noteq> [] then wrap_err (SecretError \<circ> BadOwner ''owner'' (file_Owner f2)) (ParseOwner (file_Owner f2)) else Ok 0) (\<lambda>_.
               and_then (if file_Group f2 \<noteq> [] then wrap_err (SecretError \<circ> BadOwner ''group'' (file_Group f2)) (ParseOwner (file_Group f2)) else Ok 0) (\<lambda>_.
                 Ok f2)))))))"

definition validateSecretFields :: "SecretStore \<Rightarrow> Secret \<Rightarrow> (config_error, unit) outcome" where
  "validateSecretFields store s =
     checks
       [require (sec_Name s \<noteq> []) (Required ''name''),
        require (sec_Key s \<noteq> []) (Required ''key''),
        require (sec_MountPath s \<noteq> []) (Required ''mountPath''),
        require (sec_Credentials s = [] \<or> map_of (ss_Credentials store) (sec_Credentials s) \<noteq> None)
          (SecretError (CredentialsNotFound (sec_Credentials s))),
        require (sec_KVVersion s \<noteq> []) (Required ''kvVersion''),
        require (sec_KVVersion s = ''v1'' \<or> sec_KVVersion s = ''v2'') (SecretError (KVVersionInvalid (sec_KVVersion s))),
        require (0 < sec_RefreshInterval s) (SecretError RefreshNotPositive),
        require (30 * Second \<le> sec_RefreshInterval s) (SecretError (RefreshTooShort (sec_RefreshInterval s))),
        require (sec_TemplateData s \<noteq> []) (SecretError (NoEntries ''template.data'')),
        require (sec_Files s \<noteq> []) (SecretError (NoEntries ''files'')),
        require (length (sec_TemplateData s) = length (sec_Files s)) (SecretError CountMismatch)]"

definition validateSecret :: "os_env \<Rightarrow> SecretStore \<Rightarrow> Secret \<Rightarrow> (config_error, Secret) outcome" where
  "validateSecret os store s =
     and_then (validateSecretFields store s) (\<lambda>_.
     and_then (range_update (\<lambda>i f. wrap_err (Within (InFile i)) (validateFile os f)) 0 (sec_Files s)) (\<lambda>fs.
       Ok (s\<lparr>sec_Files := fs\<rparr>)))"

text \<open>
  The loop over all files carries the map \<open>pathToSecret\<close> from a path, as written in the
  configuration, to the name of the secret that uses it.
\<close>

fun dup_files ::
  "string \<Rightarrow> (string \<rightharpoonup> string) \<Rightarrow> File list \<Rightarrow> (config_error, string \<rightharpoonup> string) outcome" where
  "dup_files nm pathToSecret [] = Ok pathToSecret"
| "dup_files nm pathToSecret (f # fs) =
     (case pathToSecret (file_Path f) of
        Some existing \<Rightarrow>
          (if existing \<noteq> nm then Err (ListError (DuplicatePathTwoSecrets (file_Path f) existing nm))
           else Err (ListError (DuplicatePathSameSecret (file_Path f) nm)))
      | None \<Rightarrow> dup_files nm (pathToSecret(file_Path f \<mapsto> nm)) fs)"

fun dup_secrets :: "(string \<rightharpoonup> string) \<Rightarrow> Secret list \<Rightarrow> (config_error, unit) outcome" where
  "dup_secrets pathToSecret [] = Ok ()"
| "dup_secrets pathToSecret (s # ss) =
     and_then (dup_files (sec_Name s) pathToSecret (sec_Files s)) (\<lambda>m. dup_secrets m ss)"

definition validateNoDuplicatePaths :: "Secret list \<Rightarrow> (config_error, unit) outcome" where
  "validateNoDuplicatePaths secrets = dup_secrets Map.empty secrets"

definition Validate :: "os_env \<Rightarrow> Config \<Rightarrow> (config_error, Config) outcome" where
  "Validate os cfg =
     and_then (wrap_err (Within InSecretStore) (validateSecretStore os (cfg_SecretStore cfg))) (\<lambda>_.
     and_then
       (checks
         [require (cfg_Secrets cfg \<noteq> []) (ListError NoSecrets),
          require (length (cfg_Secrets cfg) \<le> 100) (ListError (TooManySecrets (length (cfg_Secrets cfg)))),
          validateNoDuplicatePaths (cfg_Secrets cfg)]) (\<lambda>_.
     and_then
       (range_update (\<lambda>i s. wrap_err (Within (InSecret i)) (validateSecret os (cfg_SecretStore cfg) s)) 0
          (cfg_Secrets cfg)) (\<lambda>ss.
       Ok (cfg\<lparr>cfg_Secrets := ss\<rparr>))))"

section \<open>Expansion and loading\<close>

definition expandEnv :: "os_env \<Rightarrow> string \<Rightarrow> string" where
  "expandEnv os s =
     (if has_prefix s ''${'' \<and> has_suffix s ''}''
      then os_Getenv os (take (length s - 1 - 2) (drop 2 s))
      else s)"

definition ExpandEnvVars :: "os_env \<Rightarrow> Config \<Rightarrow> Config" where
  "ExpandEnvVars os cfg =
     (let st = cfg_SecretStore cfg;
          st' = st\<lparr>ss_Address := expandEnv os (ss_Address st),
                   ss_Namespace := expandEnv os (ss_Namespace st),
                   ss_Token := expandEnv os (ss_Token st),
                   ss_RoleID := expandEnv os (ss_RoleID st),
                   ss_SecretID := expandEnv os (ss_SecretID st),
                   ss_TLSCACert := expandEnv os (ss_TLSCACert st),
                   ss_TLSCAPath := expandEnv os (ss_TLSCAPath st),
                   ss_TLSClientCert := expandEnv os (ss_TLSClientCert st),
                   ss_TLSClientKey := expandEnv os (ss_TLSClientKey st)\<rparr>
      in cfg\<lparr>cfg_SecretStore := st',
             cfg_Secrets := map (\<lambda>s. s\<lparr>sec_Namespace := expandEnv os (sec_Namespace s)\<rparr>)
               (cfg_Secrets cfg)\<rparr>)"

definition Load :: "os_env \<Rightarrow> string \<Rightarrow> (config_error, Config) outcome" where
  "Load os p =
     (case os_ReadFile os p of
        None \<Rightarrow> Err ReadFailed
      | Some data \<Rightarrow>
          (case yaml_Unmarshal os data of
             None \<Rightarrow> Err YamlFailed
           | Some cfg \<Rightarrow> wrap_err (Within InConfig) (Validate os (ExpandEnvVars os cfg))))"

section \<open>Which files, secrets and stores pass\<close>

text \<open>
  Acceptance, stated without the order of the checks, and the normalised value that an accepted
  file, secret or configuration becomes.
\<close>

definition file_ok :: "os_env \<Rightarrow> File \<Rightarrow> bool" where
  "file_ok os f \<longleftrightarrow>
     file_Path f \<noteq> [] \<and> filepath_Abs (os_Wd os) (file_Path f) \<noteq> None \<and>
     is_ok (ParseMode (file_Mode f)) \<and> is_ok (ParseOwner (file_Owner f)) \<and>
     is_ok (ParseOwner (file_Group f))"

definition norm_path :: "os_env \<Rightarrow> string \<Rightarrow> string" where
  "norm_path os p = path_Clean (the (filepath_Abs (os_Wd os) p))"

definition norm_file :: "os_env \<Rightarrow> File \<Rightarrow> File" where
  "norm_file os f =
     f\<lparr>file_Path := norm_path os (file_Path f),
       file_Mode := (if file_Mode f = [] then ''0600'' else file_Mode f)\<rparr>"

definition secret_ok :: "os_env \<Rightarrow> SecretStore \<Rightarrow> Secret \<Rightarrow> bool" where
  "secret_ok os store s \<longleftrightarrow>
     sec_Name s \<noteq> [] \<and> sec_Key s \<noteq> [] \<and> sec_MountPath s \<noteq> [] \<and>
     (\<exists>c. sec_Credentials s = [] \<or> map_of (ss_Credentials store) (sec_Credentials s) = Some c) \<and>
     (sec_KVVersion s = ''v1'' \<or> sec_KVVersion s = ''v2'') \<and>
     30 * Second \<le> sec_RefreshInterval s \<and>
     sec_Files s \<noteq> [] \<and> length (sec_TemplateData s) = length (sec_Files s) \<and>
     (\<forall>f \<in> set (sec_Files s). file_ok os f)"

definition norm_secret :: "os_env \<Rightarrow> Secret \<Rightarrow> Secret" where
  "norm_secret os s = s\<lparr>sec_Files := map (norm_file os) (sec_Files s)\<rparr>"

definition credential_ok :: "string \<Rightarrow> string \<Rightarrow> string \<Rightarrow> string \<Rightarrow> bool" where
  "credential_ok method token roleId secretId \<longleftrightarrow>
     method = ''token'' \<and> token \<noteq> [] \<or> method = ''approle'' \<and> roleId \<noteq> [] \<and> secretId \<noteq> []"

definition store_ok :: "os_env \<Rightarrow> SecretStore \<Rightarrow> bool" where
  "store_ok os st \<longleftrightarrow>
     ss_Address st \<noteq> [] \<and>
     (\<exists>scheme host. url_Parse os (ss_Address st) = Some (scheme, host) \<and>
        (scheme = ''http'' \<or> scheme = ''https'') \<and> host \<noteq> []) \<and>
     credential_ok (ss_AuthMethod st) (ss_Token st) (ss_RoleID st) (ss_SecretID st) \<and>
     (\<forall>(nm, c) \<in> set (ss_Credentials st). nm \<noteq> [] \<and>
        credential_ok (cs_AuthMethod c) (cs_Token c) (cs_RoleID c) (cs_SecretID c)) \<and>
     (ss_TLSCACert st = [] \<or> os_Stat os (ss_TLSCACert st) \<noteq> StatNotExist) \<and>
     (ss_TLSCAPath st = [] \<or> os_Stat os (ss_TLSCAPath st) = StatInfo True) \<and>
     (ss_TLSClientCert st = []) = (ss_TLSClientKey st = []) \<and>
     (ss_TLSClientCert st = [] \<or> os_Stat os (ss_TLSClientCert st) \<noteq> StatNotExist) \<and>
     (ss_TLSClientKey st = [] \<or> os_Stat os (ss_TLSClientKey st) \<noteq> StatNotExist)"

definition output_paths :: "Secret list \<Rightarrow> string list" where
  "output_paths ss = concat (map (\<lambda>s. map file_Path (sec_Files s)) ss)"

definition config_ok :: "os_env \<Rightarrow> Config \<Rightarrow> bool" where
  "config_ok os cfg \<longleftrightarrow>
     store_ok os (cfg_SecretStore cfg) \<and>
     cfg_Secrets cfg \<noteq> [] \<and> length (cfg_Secrets cfg) \<le> 100 \<and>
     distinct (output_paths (cfg_Secrets cfg)) \<and>
     (\<forall>s \<in> set (cfg_Secrets cfg). secret_ok os (cfg_SecretStore cfg) s)"

definition norm_config :: "os_env \<Rightarrow> Config \<Rightarrow> Config" where
  "norm_config os cfg = cfg\<lparr>cfg_Secrets := map (norm_secret os) (cfg_Secrets cfg)\<rparr>"

subsection \<open>The functions decide these predicates\<close>

lemma validateFilePath_resolved:
  assumes "filepath_Abs (os_Wd os) p = Some q"
  shows "validateFilePath os (path_Clean q) = Ok ()"
  using go_path.resolve_twice [OF assms] go_path.resolve_clean_abs [OF assms]
  by (auto simp: validateFilePath_def Clean_nonempty Clean_idem split: option.splits)

lemma ParseMode_default [simp]: "ParseMode ''0600'' = Ok 0x180"
  by (simp add: ParseMode_def strconv_ParseUint_def is_digit_def char_code_def digit_val_def
      validateMode_def ModePerm_def)

lemma ParseMode_empty [simp]: "ParseMode [] = Ok 0x180"
  by (simp add: ParseMode_def)

lemma ParseOwner_empty [simp]: "ParseOwner [] = Ok (- 1)"
  by (simp add: ParseOwner_def)

lemma validateFile_Ok: "validateFile os f = Ok g \<longleftrightarrow> file_ok os f \<and> g = norm_file os f"
proof (cases "filepath_Abs (os_Wd os) (file_Path f)")
  case None
  then show ?thesis by (auto simp: validateFile_def file_ok_def)
next
  case (Some q)
  note vp = validateFilePath_resolved [OF Some]
  show ?thesis
    by (cases "file_Mode f = []"; cases "file_Owner f = []"; cases "file_Group f = []")
       (auto simp: validateFile_def file_ok_def norm_file_def norm_path_def Some vp Let_def is_ok_iff)
qed

lemma validateSecretFields_Ok:
  "validateSecretFields store s = Ok u \<and> (\<forall>f \<in> set (sec_Files s). file_ok os f) \<longleftrightarrow>
   secret_ok os store s"
  by (auto simp: validateSecretFields_def secret_ok_def Second_def map_of_eq_None_iff
      simp del: length_0_conv) (force dest: map_of_SomeD)+

lemma validateSecret_Ok:
  "validateSecret os store s = Ok s' \<longleftrightarrow> secret_ok os store s \<and> s' = norm_secret os s"
  unfolding validateSecretFields_Ok [symmetric, where u = "()"]
  by (auto simp: validateSecret_def norm_secret_def range_update_wrap_Ok [OF validateFile_Ok])

lemma auth_switch_Ok:
  "method \<noteq> [] \<and> auth_switch method t r i = Ok u \<longleftrightarrow> credential_ok method t r i"
  by (auto simp: auth_switch_def credential_ok_def)

lemma validateCredentialSet_Ok:
  "validateCredentialSet nm c = Ok u \<longleftrightarrow>
   nm \<noteq> [] \<and> credential_ok (cs_AuthMethod c) (cs_Token c) (cs_RoleID c) (cs_SecretID c)"
  unfolding auth_switch_Ok [symmetric, where u = "()"] by (auto simp: validateCredentialSet_def)

lemma validateVaultAddress_Ok:
  "validateVaultAddress os a = Ok u \<longleftrightarrow>
   (\<exists>scheme host. url_Parse os a = Some (scheme, host) \<and>
      (scheme = ''http'' \<or> scheme = ''https'') \<and> host \<noteq> [])"
  by (auto simp: validateVaultAddress_def split: option.splits)

lemma check_CAPath_Ok: "check_CAPath os p = Ok u \<longleftrightarrow> os_Stat os p = StatInfo True"
  by (auto simp: check_CAPath_def split: stat_result.splits)

lemma validateSecretStore_Ok: "validateSecretStore os st = Ok u \<longleftrightarrow> store_ok os st"
  unfolding store_ok_def auth_switch_Ok [symmetric, where u = "()"]
  by (auto simp: validateSecretStore_def validateVaultAddress_Ok range_check_Ok check_CAPath_Ok
      validateCredentialSet_Ok file_exists_check_def auth_switch_Ok [symmetric, where u = "()"])

lemma dup_files_Ok:
  "dup_files nm m fs = Ok m' \<Longrightarrow> dom m' = dom m \<union> file_Path ` set fs"
  by (induction fs arbitrary: m) (auto split: option.splits if_splits)

lemma dup_files_is_ok:
  "is_ok (dup_files nm m fs) \<longleftrightarrow> distinct (map file_Path fs) \<and> dom m \<inter> file_Path ` set fs = {}"
  by (induction fs arbitrary: m) (auto split: option.splits)

lemma dup_secrets_Ok:
  "dup_secrets m ss = Ok () \<longleftrightarrow> distinct (output_paths ss) \<and> dom m \<inter> set (output_paths ss) = {}"
proof (induction ss arbitrary: m)
  case Nil
  then show ?case by (simp add: output_paths_def)
next
  case (Cons s ss)
  have o: "output_paths (s # ss) = map file_Path (sec_Files s) @ output_paths ss"
    by (simp add: output_paths_def)
  show ?case
  proof (cases "is_ok (dup_files (sec_Name s) m (sec_Files s))")
    case True
    then obtain m' where m': "dup_files (sec_Name s) m (sec_Files s) = Ok m'" by (rule is_okE)
    have d: "distinct (map file_Path (sec_Files s))" "dom m \<inter> file_Path ` set (sec_Files s) = {}"
      using True by (simp_all add: dup_files_is_ok)
    have "dup_secrets m (s # ss) = dup_secrets m' ss" by (simp add: m')
    with d Cons.IH [of m'] show ?thesis by (auto simp: o dup_files_Ok [OF m'])
  next
    case False
    then have "\<not> (distinct (map file_Path (sec_Files s)) \<and> dom m \<inter> file_Path ` set (sec_Files s) = {})"
      by (simp add: dup_files_is_ok)
    moreover from False have "dup_secrets m (s # ss) \<noteq> Ok ()" by (auto simp: is_ok_iff)
    ultimately show ?thesis by (auto simp: o)
  qed
qed

lemma validateNoDuplicatePaths_Ok:
  "validateNoDuplicatePaths ss = Ok () \<longleftrightarrow> distinct (output_paths ss)"
  by (simp add: validateNoDuplicatePaths_def dup_secrets_Ok)

lemma Validate_Ok: "Validate os cfg = Ok cfg' \<longleftrightarrow> config_ok os cfg \<and> cfg' = norm_config os cfg"
  by (auto simp: Validate_def config_ok_def norm_config_def validateSecretStore_Ok
      validateNoDuplicatePaths_Ok range_update_wrap_Ok [OF validateSecret_Ok])

end
