(* ===== verification/Validator_Theorems.thy ===== *)
theory Validator_Theorems
  imports Validator
begin

text \<open>
  What validation promises to the rest of the program: the exact set of accepted
  configurations, the guarantees for every output file of an accepted one, when a second validation
  (the reload handler performs one) agrees with the first, and which input makes it panic.
\<close>

section \<open>A concrete environment and configuration\<close>

text \<open>
  The environment and configuration the witnesses are evaluated on: a URL parser that knows one
  address, a file system with one unreadable directory, a YAML parser that knows one file.
\<close>

definition sample_file :: "string \<Rightarrow> File" where
  "sample_file p = \<lparr>file_Path = p, file_Mode = [], file_Owner = [], file_Group = []\<rparr>"

definition sample_store :: SecretStore where
  "sample_store =
     \<lparr>ss_Address = ''https://v'', ss_Namespace = [], ss_AuthMethod = ''token'', ss_Token = ''t'',
      ss_RoleID = [], ss_SecretID = [],
      ss_Credentials =
        [(''team'', \<lparr>cs_AuthMethod = ''token'', cs_Token = ''${TEAM}'', cs_RoleID = [], cs_SecretID = []\<rparr>)],
      ss_TLSSkipVerify = False, ss_TLSCACert = [], ss_TLSCAPath = [], ss_TLSClientCert = [],
      ss_TLSClientKey = []\<rparr>"

definition sample_secret :: "string list \<Rightarrow> Secret" where
  "sample_secret ps =
     \<lparr>sec_Name = ''s'', sec_Key = ''k'', sec_MountPath = ''m'', sec_Namespace = [],
      sec_Credentials = [], sec_KVVersion = ''v2'', sec_RefreshInterval = 60 * Second,
      sec_TemplateData = map (\<lambda>p. (filepath_Base p, ''x'')) ps, sec_Files = map sample_file ps\<rparr>"

definition sample_config :: "string list \<Rightarrow> Config" where
  "sample_config ps = \<lparr>cfg_SecretStore = sample_store, cfg_Secrets = [sample_secret ps]\<rparr>"

definition sample_os :: os_env where
  "sample_os =
     \<lparr>os_Getenv = (\<lambda>v. if v = ''TEAM'' then ''secret'' else []), os_Wd = Some [''w''],
      os_Stat = (\<lambda>p. if p = ''/locked'' then StatError else StatNotExist),
      os_ReadFile = (\<lambda>p. if p = ''c.yaml'' then Some ''c'' else None),
      url_Parse = (\<lambda>u. if u = ''https://v'' then Some (''https'', ''v'') else None),
      yaml_Unmarshal = (\<lambda>d. if d = ''c'' then Some (sample_config [''/o/a'']) else None)\<rparr>"

lemmas sample_defs =
  sample_file_def sample_store_def sample_secret_def sample_config_def sample_os_def

lemmas path_eval =
  filepath_Abs_def filepath_IsAbs_def has_prefix_def path_Clean_def clean_elems_def render_path_def
  path_Join_def os_Getwd_def

lemmas accept_defs =
  config_ok_def store_ok_def secret_ok_def file_ok_def credential_ok_def output_paths_def

lemma sample_config_ok: "config_ok sample_os (sample_config [''/o/a''])"
  by (simp add: accept_defs sample_defs path_eval Second_def)

lemma sample_dup_ok: "config_ok sample_os (sample_config [''/o/a'', ''/o//a''])"
  by (simp add: accept_defs sample_defs path_eval Second_def)

section \<open>Acceptance\<close>

text \<open>
  C12: validation accepts a configuration exactly when it satisfies \<open>config_ok\<close> (a usable store, one to
  a hundred well-formed secrets, output paths that differ as written), and the result is the same
  configuration with every output path resolved and every empty mode replaced by 0600.  The order
  in which a Go map is visited has no influence on this.
\<close>

theorem Validate_accepts_iff:
  "Validate os cfg = Ok cfg' \<longleftrightarrow> config_ok os cfg \<and> cfg' = norm_config os cfg"
  by (rule Validate_Ok)

lemma clean_abs_no_dots:
  assumes "filepath_IsAbs p" and "path_Clean p = p"
  shows "''..'' \<notin> set (split_on (CHR ''/'') p)"
proof -
  obtain es where p: "p = CHR ''/'' # join_with (CHR ''/'') es"
    and es: "\<And>e. e \<in> set es \<Longrightarrow> plain_elem e \<and> e \<noteq> ''..''"
    using Clean_abs_elems [OF assms(1)] assms(2) by metis
  show ?thesis
  proof (cases "es = []")
    case False
    then have "split_on (CHR ''/'') (join_with (CHR ''/'') es) = es"
      using es by (intro split_on_join) (auto simp: plain_elem_def)
    with es p show ?thesis by auto
  qed (simp add: p)
qed

lemma norm_path_resolved:
  assumes "filepath_Abs (os_Wd os) p \<noteq> None"
  shows "filepath_IsAbs (norm_path os p)" and "path_Clean (norm_path os p) = norm_path os p"
    and "filepath_Abs (os_Wd os) (norm_path os p) = Some (norm_path os p)"
    and "norm_path os p \<noteq> []"
proof -
  from assms obtain q where q: "filepath_Abs (os_Wd os) p = Some q" by auto
  then have n: "norm_path os p = path_Clean q" by (simp add: norm_path_def)
  show "filepath_IsAbs (norm_path os p)" using go_path.resolve_clean_abs [OF q] n by simp
  show "path_Clean (norm_path os p) = norm_path os p" using n Clean_idem by simp
  show "filepath_Abs (os_Wd os) (norm_path os p) = Some (norm_path os p)"
    using go_path.resolve_twice [OF q] n by simp
  show "norm_path os p \<noteq> []" using n Clean_nonempty by simp
qed

lemma norm_file_ok: "file_ok os f \<Longrightarrow> file_ok os (norm_file os f)"
  using norm_path_resolved [of os "file_Path f"] by (auto simp: file_ok_def norm_file_def)

lemma norm_file_idem: "file_ok os f \<Longrightarrow> norm_file os (norm_file os f) = norm_file os f"
  using norm_path_resolved [of os "file_Path f"]
  by (auto simp: file_ok_def norm_file_def norm_path_def)

lemma norm_secret_ok: "secret_ok os st s \<Longrightarrow> secret_ok os st (norm_secret os s)"
  by (auto simp: secret_ok_def norm_secret_def norm_file_ok)

lemma norm_secret_idem: "secret_ok os st s \<Longrightarrow> norm_secret os (norm_secret os s) = norm_secret os s"
  by (auto simp: secret_ok_def norm_secret_def norm_file_idem)

lemma config_ok_member:
  assumes "config_ok os cfg" and "s \<in> set (cfg_Secrets (norm_config os cfg))"
  obtains s0 where "secret_ok os (cfg_SecretStore cfg) s0" and "s = norm_secret os s0"
  using assms by (auto simp: config_ok_def norm_config_def)

lemma secret_ok_file:
  assumes "secret_ok os st s0" and "f \<in> set (sec_Files (norm_secret os s0))"
  obtains f0 where "file_ok os f0" and "f = norm_file os f0"
  using assms by (auto simp: secret_ok_def norm_secret_def)

lemma accepted_file_facts:
  assumes v: "Validate os cfg = Ok cfg'"
    and s: "s \<in> set (cfg_Secrets cfg')" and f: "f \<in> set (sec_Files s)"
  shows "filepath_IsAbs (file_Path f)" and "path_Clean (file_Path f) = file_Path f"
    and "''..'' \<notin> set (split_on (CHR ''/'') (file_Path f))"
    and "\<exists>m. ParseMode (file_Mode f) = Ok m \<and> mode_allowed m"
    and "is_ok (ParseOwner (file_Owner f))" and "is_ok (ParseOwner (file_Group f))"
    and "30 * Second \<le> sec_RefreshInterval s"
    and "\<exists>c. GetCredentials (cfg_SecretStore cfg') (ResolveCredentials s) = Some c \<and>
           credential_ok (cs_AuthMethod c) (cs_Token c) (cs_RoleID c) (cs_SecretID c)"
proof -
  from v have ok: "config_ok os cfg" and cfg': "cfg' = norm_config os cfg"
    by (auto simp: Validate_Ok)
  from config_ok_member [OF ok] s cfg' obtain s0 where
    s0: "secret_ok os (cfg_SecretStore cfg) s0" "s = norm_secret os s0" by blast
  from secret_ok_file [OF s0(1)] f s0(2) obtain f0 where
    f0: "file_ok os f0" "f = norm_file os f0" by blast
  then have p: "file_Path f = norm_path os (file_Path f0)" by (simp add: norm_file_def)
  from f0 have r: "filepath_Abs (os_Wd os) (file_Path f0) \<noteq> None" by (simp add: file_ok_def)
  show a: "filepath_IsAbs (file_Path f)" and c: "path_Clean (file_Path f) = file_Path f"
    using norm_path_resolved [OF r] p by simp_all
  show "''..'' \<notin> set (split_on (CHR ''/'') (file_Path f))" by (rule clean_abs_no_dots [OF a c])
  from norm_file_ok [OF f0(1)] f0(2) have "file_ok os f" by simp
  then show "\<exists>m. ParseMode (file_Mode f) = Ok m \<and> mode_allowed m"
    and "is_ok (ParseOwner (file_Owner f))" and "is_ok (ParseOwner (file_Group f))"
    by (auto simp: file_ok_def is_ok_iff dest: ParseMode_Ok)
  from norm_secret_ok [OF s0(1)] s0(2) have sok: "secret_ok os (cfg_SecretStore cfg) s" by simp
  then show "30 * Second \<le> sec_RefreshInterval s" by (simp add: secret_ok_def)
  from ok have st: "store_ok os (cfg_SecretStore cfg)" by (simp add: config_ok_def)
  have st': "cfg_SecretStore cfg' = cfg_SecretStore cfg" by (simp add: cfg' norm_config_def)
  show "\<exists>c. GetCredentials (cfg_SecretStore cfg') (ResolveCredentials s) = Some c \<and>
           credential_ok (cs_AuthMethod c) (cs_Token c) (cs_RoleID c) (cs_SecretID c)"
    using st sok unfolding st'
    by (auto simp: store_ok_def secret_ok_def GetCredentials_def GetDefaultCredentials_def
        ResolveCredentials_def dest: map_of_SomeD)
qed

text \<open>
  C16: after a successful validation every output file has a rooted, lexically clean path without
  a \<open>..\<close> element and a mode that parses to an allowed one (so nothing is writable by others), its
  owner and group parse, its secret is refreshed at most every 30 seconds, and the secret's
  credentials resolve to a complete set.
\<close>

theorem Validate_guarantees:
  assumes "Validate os cfg = Ok cfg'"
    and "s \<in> set (cfg_Secrets cfg')" and "f \<in> set (sec_Files s)"
  shows "filepath_IsAbs (file_Path f) \<and> path_Clean (file_Path f) = file_Path f \<and>
    ''..'' \<notin> set (split_on (CHR ''/'') (file_Path f)) \<and>
    (\<exists>m. ParseMode (file_Mode f) = Ok m \<and> mode_allowed m) \<and>
    is_ok (ParseOwner (file_Owner f)) \<and> is_ok (ParseOwner (file_Group f)) \<and>
    30 * Second \<le> sec_RefreshInterval s \<and>
    (\<exists>c. GetCredentials (cfg_SecretStore cfg') (ResolveCredentials s) = Some c \<and>
       credential_ok (cs_AuthMethod c) (cs_Token c) (cs_RoleID c) (cs_SecretID c))"
  using accepted_file_facts [OF assms] by blast

text \<open>The configured path \<open>/o//a\<close> is made clean.\<close>

theorem Validate_guarantees_witness:
  "\<exists>cfg s f m c. Validate sample_os (sample_config [''/o//a'']) = Ok cfg \<and> s \<in> set (cfg_Secrets cfg) \<and> f \<in> set (sec_Files s) \<and>
     file_Path f = ''/o/a'' \<and> ParseMode (file_Mode f) = Ok m \<and> mode_allowed m \<and> 30 * Second \<le> sec_RefreshInterval s \<and>
     GetCredentials (cfg_SecretStore cfg) (ResolveCredentials s) = Some c \<and>
     credential_ok (cs_AuthMethod c) (cs_Token c) (cs_RoleID c) (cs_SecretID c)"
proof -
  let ?cfg = "norm_config sample_os (sample_config [''/o//a''])"
  have v: "Validate sample_os (sample_config [''/o//a'']) = Ok ?cfg"
    by (simp add: Validate_Ok accept_defs sample_defs path_eval Second_def)
  define s where "s = hd (cfg_Secrets ?cfg)"
  define f where "f = hd (sec_Files s)"
  have s: "s \<in> set (cfg_Secrets ?cfg)" by (simp add: s_def norm_config_def sample_config_def)
  have f: "f \<in> set (sec_Files s)"
    by (simp add: f_def s_def norm_config_def norm_secret_def sample_config_def sample_secret_def)
  have "file_Path f = ''/o/a''"
    by (simp add: f_def s_def norm_config_def norm_secret_def norm_file_def norm_path_def sample_defs path_eval)
  with Validate_guarantees [OF v s f] v s f show ?thesis by blast
qed

section \<open>Validating twice\<close>

lemma norm_config_secrets:
  "config_ok os cfg \<Longrightarrow> \<forall>s \<in> set (cfg_Secrets (norm_config os cfg)). secret_ok os (cfg_SecretStore cfg) s"
  by (auto elim: config_ok_member intro: norm_secret_ok)

lemma norm_config_idem:
  assumes "config_ok os cfg"
  shows "norm_config os (norm_config os cfg) = norm_config os cfg"
proof -
  have "map (norm_secret os) (map (norm_secret os) (cfg_Secrets cfg)) =
        map (norm_secret os) (cfg_Secrets cfg)"
    using assms norm_secret_idem by (auto simp: config_ok_def)
  then show ?thesis by (simp add: norm_config_def)
qed

text \<open>
  C37: a second validation of an accepted configuration, as the reload handler makes it, accepts
  it unchanged exactly when the resolved output paths are still pairwise different.
\<close>

theorem Validate_again_iff:
  assumes "Validate os cfg = Ok cfg'"
  shows "Validate os cfg' = Ok cfg' \<longleftrightarrow> distinct (output_paths (cfg_Secrets cfg'))"
proof -
  from assms have ok: "config_ok os cfg" and cfg': "cfg' = norm_config os cfg"
    by (auto simp: Validate_Ok)
  have "config_ok os cfg' \<longleftrightarrow> distinct (output_paths (cfg_Secrets cfg'))"
    using ok norm_config_secrets [OF ok] unfolding cfg'
    by (auto simp: config_ok_def norm_config_def)
  with norm_config_idem [OF ok] show ?thesis unfolding cfg' by (auto simp: Validate_Ok)
qed

theorem Validate_again_iff_witness:
  "Validate sample_os (norm_config sample_os (sample_config [''/o/a''])) =
     Ok (norm_config sample_os (sample_config [''/o/a'']))"
proof -
  have v: "Validate sample_os (sample_config [''/o/a'']) =
      Ok (norm_config sample_os (sample_config [''/o/a'']))"
    using sample_config_ok by (simp add: Validate_Ok)
  have "distinct (output_paths (cfg_Secrets (norm_config sample_os (sample_config [''/o/a'']))))"
    by (simp add: norm_config_def norm_secret_def output_paths_def sample_config_def
        sample_secret_def)
  with Validate_again_iff [OF v] show ?thesis by blast
qed

text \<open>
  The check for duplicate output paths sees the paths as written: there is a configuration
  that validation accepts although its two files are one file after resolution, and whose accepted
  form a second validation rejects.
\<close>

theorem duplicate_paths_slip_through:
  "\<exists>os cfg cfg'. Validate os cfg = Ok cfg' \<and> \<not> distinct (output_paths (cfg_Secrets cfg')) \<and>
     (\<exists>e. Validate os cfg' = Err e)"
proof -
  let ?cfg = "sample_config [''/o/a'', ''/o//a'']"
  let ?cfg' = "norm_config sample_os ?cfg"
  have v: "Validate sample_os ?cfg = Ok ?cfg'" using sample_dup_ok by (simp add: Validate_Ok)
  have p: "map file_Path (sec_Files (norm_secret sample_os (sample_secret [''/o/a'', ''/o//a'']))) =
      [''/o/a'', ''/o/a'']"
    by (simp add: norm_secret_def norm_file_def norm_path_def sample_defs path_eval)
  have nd: "\<not> distinct (output_paths (cfg_Secrets ?cfg'))"
    by (simp add: output_paths_def norm_config_def sample_config_def p)
  have "validateSecretStore sample_os (cfg_SecretStore ?cfg') = Ok ()"
    using sample_dup_ok by (simp add: validateSecretStore_Ok config_ok_def norm_config_def)
  moreover have "validateNoDuplicatePaths (cfg_Secrets ?cfg') =
      Err (ListError (DuplicatePathSameSecret ''/o/a'' ''s''))"
    by (simp add: validateNoDuplicatePaths_def norm_config_def norm_secret_def norm_file_def
        norm_path_def sample_defs path_eval)
  moreover have "cfg_Secrets ?cfg' \<noteq> [] \<and> length (cfg_Secrets ?cfg') \<le> 100"
    by (simp add: norm_config_def sample_config_def)
  ultimately have "Validate sample_os ?cfg' = Err (ListError (DuplicatePathSameSecret ''/o/a'' ''s''))"
    by (simp add: Validate_def require_def)
  with v nd show ?thesis by blast
qed

section \<open>Panics\<close>

lemma auth_switch_no_panic: "auth_switch m t r i \<noteq> Panic p"
  by (simp add: auth_switch_def and_then_Panic)

lemma validateCredentialSet_no_panic: "validateCredentialSet nm c \<noteq> Panic p"
  by (simp add: validateCredentialSet_def and_then_Panic auth_switch_no_panic)

lemma validateVaultAddress_no_panic: "validateVaultAddress os a \<noteq> Panic p"
  by (simp add: validateVaultAddress_def and_then_Panic split: option.splits)

lemma validateFilePath_no_panic: "validateFilePath os q \<noteq> Panic p"
  by (simp add: validateFilePath_def Let_def split: option.splits)

lemma validateFile_no_panic: "validateFile os f \<noteq> Panic p"
  by (auto simp: validateFile_def and_then_Panic Let_def validateFilePath_no_panic
      ParseMode_no_panic ParseOwner_no_panic split: option.splits if_splits)

lemma validateSecret_no_panic: "validateSecret os st s \<noteq> Panic p"
  using range_update_Panic [of "\<lambda>i f. wrap_err (Within (InFile i)) (validateFile os f)" 0 "sec_Files s" p]
  by (auto simp: validateSecret_def validateSecretFields_def and_then_Panic validateFile_no_panic)

lemma dup_secrets_no_panic: "dup_secrets m ss \<noteq> Panic p"
proof -
  have f: "dup_files nm m fs \<noteq> Panic p" for nm m fs
    by (induction fs arbitrary: m) (auto split: option.splits)
  show ?thesis by (induction ss arbitrary: m) (auto simp: and_then_Panic f)
qed

lemma validateSecretStore_panic:
  assumes "validateSecretStore os st = Panic p"
  shows "p = NilDereference \<and> ss_TLSCAPath st \<noteq> [] \<and> os_Stat os (ss_TLSCAPath st) = StatError"
proof -
  have "range_check (\<lambda>(nm, c). wrap_err (Within (InCredentials nm)) (validateCredentialSet nm c))
          (ss_Credentials st) \<noteq> Panic p"
    by (auto dest!: range_check_Panic simp: validateCredentialSet_no_panic)
  with assms show ?thesis
    by (auto simp: validateSecretStore_def and_then_Panic validateVaultAddress_no_panic
        auth_switch_no_panic file_exists_check_def check_CAPath_def
        split: if_splits stat_result.splits)
qed

lemma Validate_Panic:
  assumes "Validate os cfg = Panic p"
  shows "p = NilDereference \<and> ss_TLSCAPath (cfg_SecretStore cfg) \<noteq> [] \<and>
    os_Stat os (ss_TLSCAPath (cfg_SecretStore cfg)) = StatError"
proof -
  have "range_update (\<lambda>i s. wrap_err (Within (InSecret i)) (validateSecret os (cfg_SecretStore cfg) s)) 0
          (cfg_Secrets cfg) \<noteq> Panic p"
    by (auto dest!: range_update_Panic simp: validateSecret_no_panic)
  with assms have "validateSecretStore os (cfg_SecretStore cfg) = Panic p"
    by (auto simp: Validate_def and_then_Panic validateNoDuplicatePaths_def dup_secrets_no_panic)
  then show ?thesis by (rule validateSecretStore_panic)
qed

text \<open>
  Validation panics only with a nil dereference in the check of \<open>tlsCAPath\<close>, and only when
  that path is set and \<open>os.Stat\<close> on it fails for another reason than that it does not exist.
\<close>

theorem Validate_panic_cause:
  assumes "Validate os cfg = Panic p"
  shows "p = NilDereference \<and> ss_TLSCAPath (cfg_SecretStore cfg) \<noteq> [] \<and>
    os_Stat os (ss_TLSCAPath (cfg_SecretStore cfg)) = StatError"
  by (rule Validate_Panic [OF assms])

definition locked_config :: Config where
  "locked_config =
     (sample_config [''/o/a''])\<lparr>cfg_SecretStore := sample_store\<lparr>ss_TLSCAPath := ''/locked''\<rparr>\<rparr>"

theorem Validate_panic_cause_witness:
  "Validate sample_os locked_config = Panic NilDereference \<and>
   os_Stat sample_os (ss_TLSCAPath (cfg_SecretStore locked_config)) = StatError"
proof -
  have "Validate sample_os locked_config = Panic NilDereference"
    by (simp add: Validate_def validateSecretStore_def validateVaultAddress_def auth_switch_def
        validateCredentialSet_def file_exists_check_def check_CAPath_def locked_config_def
        require_def sample_defs)
  with Validate_panic_cause [OF this] show ?thesis by blast
qed

section \<open>Expansion and loading\<close>

lemma expandEnv_reference: "expandEnv os (''${'' @ v @ ''}'') = os_Getenv os v"
proof -
  have "has_suffix (''${'' @ v @ ''}'') ''}''"
    by (auto simp: has_suffix_iff intro!: exI [of _ "''${'' @ v"])
  moreover have "has_prefix (''${'' @ v @ ''}'') ''${''" by (rule has_prefix_append)
  ultimately show ?thesis by (simp add: expandEnv_def)
qed

lemma expandEnv_plain: "\<not> has_prefix s ''${'' \<or> \<not> has_suffix s ''}'' \<Longrightarrow> expandEnv os s = s"
  by (auto simp: expandEnv_def)

lemma ExpandEnvVars_credentials [simp]:
  "ss_Credentials (cfg_SecretStore (ExpandEnvVars os cfg)) = ss_Credentials (cfg_SecretStore cfg)"
  by (simp add: ExpandEnvVars_def Let_def)

lemma Load_Ok:
  "Load os p = Ok cfg \<longleftrightarrow>
     (\<exists>data raw. os_ReadFile os p = Some data \<and> yaml_Unmarshal os data = Some raw \<and>
        config_ok os (ExpandEnvVars os raw) \<and> cfg = norm_config os (ExpandEnvVars os raw))"
  by (auto simp: Load_def Validate_Ok split: option.splits)

text \<open>
  Loading expands \<open>${VAR}\<close> references in the settings of the store but not in the named
  credential sets: a token written as a reference there is what a secret that names the set
  authenticates with, literally.
\<close>

theorem Load_expands_default_not_named:
  assumes "os_ReadFile os p = Some data" and "yaml_Unmarshal os data = Some raw"
    and "ss_Token (cfg_SecretStore raw) = ''${'' @ v @ ''}''"
    and "nm \<noteq> []" and "map_of (ss_Credentials (cfg_SecretStore raw)) nm = Some c"
    and "Load os p = Ok cfg"
  shows "cs_Token (GetDefaultCredentials (cfg_SecretStore cfg)) = os_Getenv os v \<and>
    GetCredentials (cfg_SecretStore cfg) nm = Some c"
proof -
  from assms have cfg: "cfg = norm_config os (ExpandEnvVars os raw)" by (auto simp: Load_Ok)
  have "ss_Token (cfg_SecretStore cfg) = expandEnv os (ss_Token (cfg_SecretStore raw))"
    by (simp add: cfg norm_config_def ExpandEnvVars_def Let_def)
  then have "ss_Token (cfg_SecretStore cfg) = os_Getenv os v"
    unfolding assms(3) by (simp only: expandEnv_reference)
  moreover have "ss_Credentials (cfg_SecretStore cfg) = ss_Credentials (cfg_SecretStore raw)"
    by (simp add: cfg norm_config_def)
  ultimately show ?thesis using assms(4,5)
    by (simp add: GetDefaultCredentials_def GetCredentials_def)
qed

definition ref_config :: Config where
  "ref_config =
     (sample_config [''/o/a''])\<lparr>cfg_SecretStore := sample_store\<lparr>ss_Token := ''${TEAM}''\<rparr>\<rparr>"

definition ref_os :: os_env where
  "ref_os = sample_os\<lparr>yaml_Unmarshal := (\<lambda>d. if d = ''c'' then Some ref_config else None)\<rparr>"

theorem Load_expands_default_not_named_witness:
  "\<exists>cfg c. Load ref_os ''c.yaml'' = Ok cfg \<and>
     cs_Token (GetDefaultCredentials (cfg_SecretStore cfg)) = ''secret'' \<and>
     GetCredentials (cfg_SecretStore cfg) ''team'' = Some c \<and> cs_Token c = ''${TEAM}''"
proof -
  let ?raw = "ref_config"
  let ?c = "\<lparr>cs_AuthMethod = ''token'', cs_Token = ''${TEAM}'', cs_RoleID = [], cs_SecretID = []\<rparr>"
  have r: "os_ReadFile ref_os ''c.yaml'' = Some ''c''" "yaml_Unmarshal ref_os ''c'' = Some ?raw"
    by (simp_all add: ref_os_def sample_os_def)
  have t: "ss_Token (cfg_SecretStore ?raw) = ''${'' @ ''TEAM'' @ ''}''" by (simp add: ref_config_def)
  have m: "map_of (ss_Credentials (cfg_SecretStore ?raw)) ''team'' = Some ?c"
    by (simp add: ref_config_def sample_store_def)
  have "config_ok ref_os (ExpandEnvVars ref_os ?raw)"
    by (simp add: accept_defs sample_defs path_eval Second_def ExpandEnvVars_def Let_def
        ref_config_def ref_os_def expandEnv_def has_suffix_def)
  with r have l: "Load ref_os ''c.yaml'' = Ok (norm_config ref_os (ExpandEnvVars ref_os ?raw))"
    by (auto simp: Load_Ok)
  have "os_Getenv ref_os ''TEAM'' = ''secret''" by (simp add: ref_os_def sample_os_def)
  with Load_expands_default_not_named [OF r t _ m l] l show ?thesis by auto
qed

end
