(* ===== verification/Env_Config.thy ===== *)
theory Env_Config
  imports Go_Numbers
begin

text \<open>
  \<open>internal/config/env.go\<close>: the configuration read from environment variables.  The
  environment is the function \<open>os.Getenv\<close>, which gives the empty string for a variable that is
  not set.  \<open>strconv.ParseFloat\<close> is the argument \<open>parseFloat\<close> of the two definitions that need
  it; everything else is computed.
\<close>

record EnvConfig =
  VaultAddr :: string
  VaultToken :: string
  VaultRoleID :: string
  VaultSecretID :: string
  VaultCACert :: string
  VaultCAPath :: string
  VaultSkipVerify :: bool
  VaultClientCert :: string
  VaultClientKey :: string
  ConfigFile :: string
  WatchConfig :: bool
  CircuitBreakerMaxReqs :: int
  CircuitBreakerInterval :: int
  CircuitBreakerTimeout :: int
  LogLevel :: string
  MetricsAddr :: string
  MetricsPort :: int
  EnableMetrics :: bool
  StatusFile :: string
  EnableTracing :: bool
  OTELExporterEndpoint :: string
  InitialBackoff :: int
  MaxBackoff :: int
  BackoffMultiplier :: f64

definition getEnv :: "(string \<Rightarrow> string) \<Rightarrow> string \<Rightarrow> string \<Rightarrow> string" where
  "getEnv env key defaultValue = (if env key \<noteq> [] then env key else defaultValue)"

definition getEnvBool :: "(string \<Rightarrow> string) \<Rightarrow> string \<Rightarrow> bool \<Rightarrow> bool" where
  "getEnvBool env key defaultValue =
     (if env key \<noteq> [] then
        (case strconv_ParseBool (env key) of Some b \<Rightarrow> b | None \<Rightarrow> defaultValue)
      else defaultValue)"

definition getEnvInt :: "(string \<Rightarrow> string) \<Rightarrow> string \<Rightarrow> int \<Rightarrow> int" where
  "getEnvInt env key defaultValue =
     (if env key \<noteq> [] then
        (case strconv_Atoi (env key) of Ok i \<Rightarrow> i | _ \<Rightarrow> defaultValue)
      else defaultValue)"

definition getEnvIntRange :: "(string \<Rightarrow> string) \<Rightarrow> string \<Rightarrow> int \<Rightarrow> int \<Rightarrow> int \<Rightarrow> int" where
  "getEnvIntRange env key defaultValue minValue maxValue =
     (if env key \<noteq> [] then
        (case strconv_Atoi (env key) of
           Ok i \<Rightarrow> (if minValue \<le> i \<and> i \<le> maxValue then i else - 1)
         | _ \<Rightarrow> - 1)
      else defaultValue)"

definition getEnvDuration :: "(string \<Rightarrow> string) \<Rightarrow> string \<Rightarrow> int \<Rightarrow> int" where
  "getEnvDuration env key defaultValue =
     (if env key \<noteq> [] then
        (case time_ParseDuration (env key) of Some d \<Rightarrow> d | None \<Rightarrow> defaultValue)
      else defaultValue)"

definition getEnvFloat ::
  "(string \<Rightarrow> f64 option) \<Rightarrow> (string \<Rightarrow> string) \<Rightarrow> string \<Rightarrow> f64 \<Rightarrow> f64" where
  "getEnvFloat parseFloat env key defaultValue =
     (if env key \<noteq> [] then
        (case parseFloat (env key) of Some f \<Rightarrow> f | None \<Rightarrow> defaultValue)
      else defaultValue)"

definition LoadEnvConfig :: "(string \<Rightarrow> f64 option) \<Rightarrow> (string \<Rightarrow> string) \<Rightarrow> EnvConfig" where
  "LoadEnvConfig parseFloat env =
     \<lparr>VaultAddr = getEnv env ''VAULT_ADDR'' [],
      VaultToken = getEnv env ''VAULT_TOKEN'' [],
      VaultRoleID = getEnv env ''VAULT_ROLE_ID'' [],
      VaultSecretID = getEnv env ''VAULT_SECRET_ID'' [],
      VaultCACert = getEnv env ''VAULT_CACERT'' [],
      VaultCAPath = getEnv env ''VAULT_CAPATH'' [],
      VaultSkipVerify = getEnvBool env ''VAULT_SKIP_VERIFY'' False,
      VaultClientCert = getEnv env ''VAULT_CLIENT_CERT'' [],
      VaultClientKey = getEnv env ''VAULT_CLIENT_KEY'' [],
      ConfigFile = getEnv env ''CONFIG_FILE'' ''/config.yaml'',
      WatchConfig = getEnvBool env ''WATCH_CONFIG'' False,
      CircuitBreakerMaxReqs = getEnvInt env ''CIRCUIT_BREAKER_MAX_REQUESTS'' 3,
      CircuitBreakerInterval = getEnvDuration env ''CIRCUIT_BREAKER_INTERVAL'' (60 * Second),
      CircuitBreakerTimeout = getEnvDuration env ''CIRCUIT_BREAKER_TIMEOUT'' (30 * Second),
      LogLevel = getEnv env ''LOG_LEVEL'' ''info'',
      MetricsAddr = getEnv env ''METRICS_ADDR'' ''127.0.0.1'',
      MetricsPort = getEnvIntRange env ''METRICS_PORT'' 8080 1025 65535,
      EnableMetrics = getEnvBool env ''ENABLE_METRICS'' True,
      StatusFile = getEnv env ''STATUS_FILE'' ''/tmp/.ready-state'',
      EnableTracing = getEnvBool env ''ENABLE_TRACING'' False,
      OTELExporterEndpoint = getEnv env ''OTEL_EXPORTER_ENDPOINT'' [],
      InitialBackoff = getEnvDuration env ''INITIAL_BACKOFF'' (1 * Second),
      MaxBackoff = getEnvDuration env ''MAX_BACKOFF'' (5 * Minute),
      BackoffMultiplier = getEnvFloat parseFloat env ''BACKOFF_MULTIPLIER'' (Fin 2)\<rparr>"

section \<open>What a setting does\<close>

text \<open>
  An empty variable is no number, no duration and no truth value, so the test for it makes no difference where the
  default is also the answer to a malformed one.
\<close>

lemma getEnvBool_parse:
  "getEnvBool env key d = (case strconv_ParseBool (env key) of Some b \<Rightarrow> b | None \<Rightarrow> d)"
  by (simp add: getEnvBool_def strconv_ParseBool_def)

lemma getEnvInt_parse: "getEnvInt env key d = (case strconv_Atoi (env key) of Ok i \<Rightarrow> i | _ \<Rightarrow> d)"
  by (simp add: getEnvInt_def strconv_Atoi_def strip_sign_def strconv_ParseUint_def)

lemma getEnvDuration_parse: "getEnvDuration env key d = (case time_ParseDuration (env key) of Some t \<Rightarrow> t | None \<Rightarrow> d)"
  by (simp add: getEnvDuration_def time_ParseDuration_def strip_sign_def)

lemma getEnvIntRange_inside:
  assumes "lo \<le> d" and "d \<le> hi" and "0 \<le> lo"
  shows "lo \<le> getEnvIntRange env key d lo hi \<and> getEnvIntRange env key d lo hi \<le> hi \<longleftrightarrow>
    env key = [] \<or> (\<exists>i. strconv_Atoi (env key) = Ok i \<and> lo \<le> i \<and> i \<le> hi)"
  using assms by (auto simp: getEnvIntRange_def split: outcome.split)

end
