(* ===== verification/File_System.thy ===== *)
theory File_System
  imports Go_Path File_Mode "HOL-Library.AList"
begin

text \<open>
  The part of the operating system that the file writer works on: a set of named nodes and the
  system calls \<open>lstat\<close>, \<open>stat\<close>, \<open>mkdir\<close>, \<open>open\<close>/\<open>write\<close>/\<open>close\<close>, \<open>chown\<close>, \<open>rename\<close> and \<open>unlink\<close> as Go's \<open>os\<close> package
  wraps them.  A node is named by its clean rooted path.  Whatever else can make a call fail (permissions, a full
  disk, an I/O error) is the list of faults in the state: each call takes one entry, and an
  entry that is not \<^const>\<open>None\<close> makes it fail with that error; a failing write has stored the
  given number of bytes.

  \<open>w_hist\<close> collects every set of nodes the disk has passed through, newest first.  It is what a
  concurrent reader, or the machine after a power cut, can observe.
\<close>

section \<open>Nodes and the state\<close>

datatype errno = ENOENT | EEXIST | ENOTDIR | EISDIR | ENOTEMPTY | ELOOP | EOTHER nat

datatype node =
    Reg string FileMode int int
  | Dir
  | Symlink string
  | Special

type_synonym nodes = "(string \<times> node) list"

record world =
  w_nodes :: nodes
  w_umask :: FileMode
  w_uid :: int
  w_gid :: int
  w_pid :: nat
  w_rand :: "8 word list"
  w_faults :: "(errno \<times> nat) option list"
  w_hist :: "nodes list"

type_synonym 'a sys = "world \<Rightarrow> (errno + 'a) \<times> world"

definition lookup :: "world \<Rightarrow> string \<Rightarrow> node option" where
  "lookup w p = (if p = ''/'' then Some Dir else map_of (w_nodes w) p)"

definition next_fault :: "world \<Rightarrow> (errno \<times> nat) option \<times> world" where
  "next_fault w =
     (case w_faults w of [] \<Rightarrow> (None, w) | f # fs \<Rightarrow> (f, w\<lparr>w_faults := fs\<rparr>))"

definition set_nodes :: "nodes \<Rightarrow> world \<Rightarrow> world" where
  "set_nodes ns w = w\<lparr>w_nodes := ns, w_hist := ns # w_hist w\<rparr>"

definition put_node :: "string \<Rightarrow> node \<Rightarrow> world \<Rightarrow> world" where
  "put_node p n w = set_nodes (AList.update p n (w_nodes w)) w"

definition del_node :: "string \<Rightarrow> world \<Rightarrow> world" where
  "del_node p w = set_nodes (AList.delete p (w_nodes w)) w"

text \<open>A call that may fail for an outside reason before it does anything.\<close>

definition with_fault :: "'a sys \<Rightarrow> 'a sys" where
  "with_fault f w =
     (case next_fault w of (Some (e, _), w') \<Rightarrow> (Inl e, w') | (None, w') \<Rightarrow> f w')"

lemma next_fault_none: "w_faults w = [] \<Longrightarrow> next_fault w = (None, w)"
  by (simp add: next_fault_def)

lemma with_fault_none: "w_faults w = [] \<Longrightarrow> with_fault f w = f w"
  by (simp add: with_fault_def next_fault_none)

lemma put_node_faults [simp]: "w_faults (put_node p n w) = w_faults w"
  by (simp add: put_node_def set_nodes_def)

text \<open>Symbolic links are followed at most forty times, as the kernel does.\<close>

fun follow :: "nat \<Rightarrow> world \<Rightarrow> string \<Rightarrow> string option" where
  "follow 0 w p = None"
| "follow (Suc n) w p =
     (case lookup w p of Some (Symlink t) \<Rightarrow> follow n w t | _ \<Rightarrow> Some p)"

definition max_links :: nat where "max_links = 40"

definition is_dir :: "world \<Rightarrow> string \<Rightarrow> bool" where
  "is_dir w p =
     (case follow max_links w p of None \<Rightarrow> False | Some q \<Rightarrow> lookup w q = Some Dir)"

section \<open>The calls\<close>

definition os_Lstat :: "string \<Rightarrow> node sys" where
  "os_Lstat p = with_fault (\<lambda>w.
     (case lookup w p of None \<Rightarrow> (Inl ENOENT, w) | Some n \<Rightarrow> (Inr n, w)))"

definition os_Stat_call :: "string \<Rightarrow> node sys" where
  "os_Stat_call p = with_fault (\<lambda>w.
     (case follow max_links w p of
        None \<Rightarrow> (Inl ELOOP, w)
      | Some q \<Rightarrow> (case lookup w q of None \<Rightarrow> (Inl ENOENT, w) | Some n \<Rightarrow> (Inr n, w))))"

text \<open>
  \<open>os.MkdirAll\<close>: every missing directory on the way is created, the outermost first; a node that
  is no directory stops it.
\<close>

definition dir_chain :: "string \<Rightarrow> string list" where
  "dir_chain d =
     (let es = clean_elems True (split_on (CHR ''/'') d)
      in map (\<lambda>n. render_path True (take n es)) [1..<Suc (length es)])"

fun mkdir_chain :: "string list \<Rightarrow> unit sys" where
  "mkdir_chain [] w = (Inr (), w)"
| "mkdir_chain (d # ds) w =
     (if is_dir w d then mkdir_chain ds w
      else (case lookup w d of
          Some (Symlink _) \<Rightarrow> (Inl EEXIST, w)
        | Some _ \<Rightarrow> (Inl ENOTDIR, w)
        | None \<Rightarrow>
            (case next_fault w of
               (Some (e, _), w') \<Rightarrow> (Inl e, w')
             | (None, w') \<Rightarrow> mkdir_chain ds (put_node d Dir w'))))"

definition os_MkdirAll :: "string \<Rightarrow> unit sys" where
  "os_MkdirAll d = mkdir_chain (dir_chain d)"

text \<open>
  \<open>os.WriteFile\<close>: open with \<open>O_WRONLY|O_CREATE|O_TRUNC\<close>, write, close.  A new file gets the permission, setuid, setgid
  and sticky bits of \<open>perm\<close> less the umask; an existing one keeps its mode.
\<close>

definition mode_mask :: FileMode where
  "mode_mask = ModePerm OR 0x800000 OR 0x400000 OR 0x100000"

definition created_mode :: "FileMode \<Rightarrow> world \<Rightarrow> FileMode" where
  "created_mode perm w = perm AND mode_mask AND NOT (w_umask w)"

definition open_trunc :: "string \<Rightarrow> FileMode \<Rightarrow> string sys" where
  "open_trunc p perm = with_fault (\<lambda>w.
     (case follow max_links w p of
        None \<Rightarrow> (Inl ELOOP, w)
      | Some q \<Rightarrow>
          (if \<not> is_dir w (filepath_Dir q) then (Inl ENOENT, w)
           else (case lookup w q of
               None \<Rightarrow> (Inr q, put_node q (Reg [] (created_mode perm w) (w_uid w) (w_gid w)) w)
             | Some (Reg _ m u g) \<Rightarrow> (Inr q, put_node q (Reg [] m u g) w)
             | Some Special \<Rightarrow> (Inr q, w)
             | Some _ \<Rightarrow> (Inl EISDIR, w)))))"

definition store_bytes :: "string \<Rightarrow> string \<Rightarrow> world \<Rightarrow> world" where
  "store_bytes q data w =
     (case lookup w q of Some (Reg _ m u g) \<Rightarrow> put_node q (Reg data m u g) w | _ \<Rightarrow> w)"

definition write_close :: "string \<Rightarrow> string \<Rightarrow> unit sys" where
  "write_close q data w =
     (case next_fault w of
        (Some (e, n), w1) \<Rightarrow> (Inl e, store_bytes q (take n data) w1)
      | (None, w1) \<Rightarrow> with_fault (\<lambda>w2. (Inr (), w2)) (store_bytes q data w1))"

definition os_WriteFile :: "string \<Rightarrow> string \<Rightarrow> FileMode \<Rightarrow> unit sys" where
  "os_WriteFile p data perm w =
     (case open_trunc p perm w of
        (Inl e, w') \<Rightarrow> (Inl e, w') | (Inr q, w') \<Rightarrow> write_close q data w')"

text \<open>
  The kernel's user and group ids have 32 bits, and the all-ones id means "leave unchanged"; that is
  what -1 becomes.
\<close>

definition new_id :: "int \<Rightarrow> int \<Rightarrow> int" where
  "new_id requested current =
     (if requested mod 2 ^ 32 = 2 ^ 32 - 1 then current else requested mod 2 ^ 32)"

definition os_Chown :: "string \<Rightarrow> int \<Rightarrow> int \<Rightarrow> unit sys" where
  "os_Chown p uid gid = with_fault (\<lambda>w.
     (case follow max_links w p of
        None \<Rightarrow> (Inl ELOOP, w)
      | Some q \<Rightarrow>
          (case lookup w q of
             None \<Rightarrow> (Inl ENOENT, w)
           | Some (Reg d m u g) \<Rightarrow>
               (Inr (), put_node q (Reg d m (new_id uid u) (new_id gid g)) w)
           | Some _ \<Rightarrow> (Inr (), w))))"

text \<open>
  \<open>os.Rename\<close> refuses to replace a directory; otherwise the new name refers to the old node, and
  the old name is gone, in one step.
\<close>

definition os_Rename :: "string \<Rightarrow> string \<Rightarrow> unit sys" where
  "os_Rename a b = with_fault (\<lambda>w.
     (if lookup w b = Some Dir then (Inl EEXIST, w)
      else (case lookup w a of
          None \<Rightarrow> (Inl ENOENT, w)
        | Some n \<Rightarrow>
            (if \<not> is_dir w (filepath_Dir b) then (Inl ENOENT, w)
             else if a = b then (Inr (), w)
             else (Inr (), set_nodes (AList.delete a (AList.update b n (w_nodes w))) w)))))"

definition dir_entries :: "world \<Rightarrow> string \<Rightarrow> string list" where
  "dir_entries w d = filter (\<lambda>p. filepath_Dir p = d \<and> p \<noteq> d) (keys (w_nodes w))"

definition os_Remove :: "string \<Rightarrow> unit sys" where
  "os_Remove p = with_fault (\<lambda>w.
     (case lookup w p of
        None \<Rightarrow> (Inl ENOENT, w)
      | Some n \<Rightarrow>
          (if n = Dir \<and> (p = ''/'' \<or> dir_entries w p \<noteq> []) then (Inl ENOTEMPTY, w)
           else (Inr (), del_node p w))))"

section \<open>What a call can touch\<close>

text \<open>
  \<open>only_touches P w w'\<close>: on the way from \<open>w\<close> to \<open>w'\<close> no node outside \<open>P\<close> was ever different.
\<close>

definition only_touches :: "string set \<Rightarrow> world \<Rightarrow> world \<Rightarrow> bool" where
  "only_touches P w w' \<longleftrightarrow>
     (\<exists>hs. w_hist w' = hs @ w_hist w \<and>
       (\<forall>ns \<in> set hs. \<forall>p. p \<notin> P \<longrightarrow> map_of ns p = map_of (w_nodes w) p)) \<and>
     (\<forall>p. p \<notin> P \<longrightarrow> map_of (w_nodes w') p = map_of (w_nodes w) p) \<and>
     w_umask w' = w_umask w \<and> w_uid w' = w_uid w \<and> w_gid w' = w_gid w"

lemma only_touches_refl [simp, intro]: "only_touches P w w"
  by (auto simp: only_touches_def)

lemma only_touches_trans [trans]:
  assumes "only_touches P w w'" and "only_touches P w' w''"
  shows "only_touches P w w''"
proof -
  from assms obtain h1 h2 where
    "w_hist w' = h1 @ w_hist w" "w_hist w'' = h2 @ w_hist w'"
    "\<forall>ns \<in> set h1. \<forall>p. p \<notin> P \<longrightarrow> map_of ns p = map_of (w_nodes w) p"
    "\<forall>ns \<in> set h2. \<forall>p. p \<notin> P \<longrightarrow> map_of ns p = map_of (w_nodes w') p"
    by (auto simp: only_touches_def)
  with assms show ?thesis
    unfolding only_touches_def by (intro conjI exI [of _ "h2 @ h1"]) auto
qed

lemma only_touches_mono: "only_touches P w w' \<Longrightarrow> P \<subseteq> Q \<Longrightarrow> only_touches Q w w'"
  unfolding only_touches_def by blast

lemma only_touches_fault:
  "next_fault w = (f, w') \<Longrightarrow> only_touches P w w'"
  by (auto simp: next_fault_def only_touches_def split: list.splits)

lemma next_fault_nodes: "next_fault w = (f, w') \<Longrightarrow> w_nodes w' = w_nodes w"
  by (auto simp: next_fault_def split: list.splits)

lemma next_fault_hist: "next_fault w = (f, w') \<Longrightarrow> w_hist w' = w_hist w"
  by (auto simp: next_fault_def split: list.splits)

lemma lookup_nodes: "w_nodes w1 = w_nodes w \<Longrightarrow> lookup w1 p = lookup w p"
  by (simp add: lookup_def)

lemma next_fault_lookup: "next_fault w = (f, w') \<Longrightarrow> lookup w' p = lookup w p"
  by (rule lookup_nodes [OF next_fault_nodes])

lemma only_touches_put: "only_touches {p} w (put_node p n w)"
  by (auto simp: only_touches_def put_node_def set_nodes_def update_conv')

lemma only_touches_del: "only_touches {p} w (del_node p w)"
  by (auto simp: only_touches_def del_node_def set_nodes_def delete_conv')

lemma lookup_put [simp]: "p \<noteq> ''/'' \<Longrightarrow> lookup (put_node p n w) q = (if q = p then Some n else lookup w q)"
  by (auto simp: lookup_def put_node_def set_nodes_def update_conv')

lemma lookup_del [simp]: "p \<noteq> ''/'' \<Longrightarrow> lookup (del_node p w) q = (if q = p then None else lookup w q)"
  by (auto simp: lookup_def del_node_def set_nodes_def delete_conv')

lemma with_fault_cases:
  assumes "with_fault f w = (r, w')"
  obtains (failed) e where "r = Inl e" and "only_touches {} w w'" and "w_nodes w' = w_nodes w"
      and "w_hist w' = w_hist w"
  | (run) w1 where "f w1 = (r, w')" and "only_touches {} w w1" and "w_nodes w1 = w_nodes w"
      and "w_hist w1 = w_hist w"
proof -
  obtain g w1 where n: "next_fault w = (g, w1)" by (cases "next_fault w")
  note facts = only_touches_fault [OF n, of "{}"] next_fault_nodes [OF n] next_fault_hist [OF n]
  show thesis
  proof (cases g)
    case None
    with assms n have "f w1 = (r, w')" by (simp add: with_fault_def)
    then show thesis using facts by (rule run)
  next
    case (Some p)
    obtain e k where "p = (e, k)" by (cases p)
    with Some assms n have "r = Inl e" "w' = w1" by (simp_all add: with_fault_def)
    with facts show thesis by (intro failed) simp_all
  qed
qed

lemma only_touches_lookup:
  "only_touches P w w' \<Longrightarrow> p \<notin> P \<Longrightarrow> lookup w' p = lookup w p"
  by (simp add: only_touches_def lookup_def)

lemma follow_plain:
  "(\<And>t. lookup w p \<noteq> Some (Symlink t)) \<Longrightarrow> follow max_links w p = Some p"
  by (auto simp: max_links_def numeral_eq_Suc split: option.splits node.splits)

lemma mkdir_chain_touches:
  "mkdir_chain ds w = (r, w') \<Longrightarrow> ''/'' \<notin> set ds \<Longrightarrow> only_touches (set ds) w w'"
proof (induction ds arbitrary: w)
  case Nil
  then show ?case by simp
next
  case (Cons d ds)
  have step: "only_touches (set (d # ds)) w w'"
    if "mkdir_chain ds v = (r, w')" "only_touches {d} w v" for v
    using only_touches_trans [OF only_touches_mono [OF that(2)] only_touches_mono [OF Cons.IH [OF that(1)]]]
      Cons.prems(2) by auto
  show ?case
  proof (cases "is_dir w d")
    case True
    with Cons.prems step [of w] show ?thesis by simp
  next
    case nd: False
    show ?thesis
    proof (cases "lookup w d")
      case (Some n)
      with nd Cons.prems show ?thesis by (cases n) auto
    next
      case None
      obtain g w1 where g: "next_fault w = (g, w1)" by (cases "next_fault w")
      show ?thesis
      proof (cases g)
        case (Some e)
        with g nd None Cons.prems only_touches_fault [OF g] show ?thesis by (cases e) auto
      next
        case gn: None
        with g nd None Cons.prems have "mkdir_chain ds (put_node d Dir w1) = (r, w')" by simp
        moreover have "only_touches {d} w (put_node d Dir w1)"
          using only_touches_trans [OF only_touches_fault [OF g] only_touches_put] .
        ultimately show ?thesis by (rule step)
      qed
    qed
  qed
qed

end
