(* ===== verification/Writer.thy ===== *)
theory Writer
  imports File_System
begin

text \<open>
  \<open>internal/filewriter/writer.go\<close>: the atomic file writer.  A file is written under a temporary name in
  the directory of its target, gets its owner there, and is renamed over the target.  The state is the
  \<open>world\<close> of the file system model; the random bytes come from \<open>w_rand\<close>.
\<close>

section \<open>The checks before writing\<close>

definition MaxSecretSize :: nat where "MaxSecretSize = 1 * 1024 * 1024"

definition MaxPathLen :: nat where "MaxPathLen = 4096"

record FileConfig =
  fc_Path :: string
  fc_Mode :: FileMode
  fc_Owner :: int
  fc_Group :: int

datatype path_error =
  EmptyPath | PathTooLong nat | ExtendedPath | UNCPath | RelativePath | DotDotInPath

datatype type_error = StatFailed errno | IsSymlink | NotRegular

datatype write_error =
    ContentTooLarge nat
  | InvalidWritePath path_error
  | InvalidFileType type_error
  | MkdirFailed errno
  | TempWriteFailed errno
  | ChownFailed errno
  | RenameFailed errno

definition backslash :: char where "backslash = CHR 0x5C"

definition validatePath :: "string \<Rightarrow> (path_error, unit) outcome" where
  "validatePath p =
     checks
       [require (p \<noteq> []) EmptyPath,
        require (length p \<le> MaxPathLen) (PathTooLong (length p)),
        require (\<not> has_prefix p [backslash, backslash, CHR ''?'', backslash] \<and>
                 \<not> has_prefix p [backslash, backslash, CHR ''.'', backslash]) ExtendedPath,
        require (\<not> has_prefix p [backslash, backslash]) UNCPath,
        require (filepath_IsAbs p) RelativePath,
        require (\<not> contains_str p ''..'') DotDotInPath]"

definition validateFileType :: "string \<Rightarrow> world \<Rightarrow> (type_error, unit) outcome \<times> world" where
  "validateFileType p w =
     (case os_Lstat p w of
        (Inl ENOENT, w') \<Rightarrow> (Ok (), w')
      | (Inl e, w') \<Rightarrow> (Err (StatFailed e), w')
      | (Inr (Symlink _), w') \<Rightarrow> (Err IsSymlink, w')
      | (Inr Special, w') \<Rightarrow> (Err NotRegular, w')
      | (Inr _, w') \<Rightarrow> (Ok (), w'))"

definition ensureDir :: "string \<Rightarrow> unit sys" where
  "ensureDir dir w = (if dir = [] \<or> dir = ''.'' then (Inr (), w) else os_MkdirAll dir w)"

definition letters :: string where
  "letters = ''abcdefghijklmnopqrstuvwxyz0123456789''"

text \<open>When the random source fails the process id is used.\<close>

definition randomString :: "nat \<Rightarrow> world \<Rightarrow> string \<times> world" where
  "randomString n w =
     (if length (w_rand w) < n then (decimal (w_pid w), w)
      else (map (\<lambda>b. letters ! (unat b mod length letters)) (take n (w_rand w)),
            w\<lparr>w_rand := drop n (w_rand w)\<rparr>))"

section \<open>WriteFile\<close>

text \<open>
  The two halves of \<open>WriteFile\<close> after its checks: filling the temporary file, and renaming it
  over the target.  A failing change of owner or rename removes the temporary file (and ignores
  an error of that removal); a failing write leaves it behind.
\<close>

definition discard :: "string \<Rightarrow> world \<Rightarrow> world" where
  "discard tmpFile w = snd (os_Remove tmpFile w)"

definition fill_temp ::
  "FileConfig \<Rightarrow> string \<Rightarrow> string \<Rightarrow> world \<Rightarrow> (write_error, unit) outcome \<times> world" where
  "fill_temp config content tmpFile w =
     (case os_WriteFile tmpFile content (fc_Mode config) w of
        (Inl e, w1) \<Rightarrow> (Err (TempWriteFailed e), w1)
      | (Inr _, w1) \<Rightarrow>
          (if 0 \<le> fc_Owner config \<or> 0 \<le> fc_Group config then
             (let uid = (if fc_Owner config < 0 then - 1 else fc_Owner config);
                  gid = (if fc_Group config < 0 then - 1 else fc_Group config)
              in (case os_Chown tmpFile uid gid w1 of
                    (Inl e, w2) \<Rightarrow> (Err (ChownFailed e), discard tmpFile w2)
                  | (Inr _, w2) \<Rightarrow> (Ok (), w2)))
           else (Ok (), w1)))"

definition commit_temp ::
  "string \<Rightarrow> string \<Rightarrow> world \<Rightarrow> (write_error, unit) outcome \<times> world" where
  "commit_temp tmpFile target w =
     (case os_Rename tmpFile target w of
        (Inl e, w1) \<Rightarrow> (Err (RenameFailed e), discard tmpFile w1)
      | (Inr _, w1) \<Rightarrow> (Ok (), w1))"

definition temp_name :: "string \<Rightarrow> string \<Rightarrow> string" where
  "temp_name p r = p @ ''.tmp.'' @ r"

definition WriteFile ::
  "FileConfig \<Rightarrow> string \<Rightarrow> world \<Rightarrow> (write_error, unit) outcome \<times> world" where
  "WriteFile config content w =
     (if MaxSecretSize < length content then (Err (ContentTooLarge (length content)), w)
      else (case validatePath (fc_Path config) of
          Err e \<Rightarrow> (Err (InvalidWritePath e), w)
        | Panic p \<Rightarrow> (Panic p, w)
        | Ok _ \<Rightarrow>
            (case validateFileType (fc_Path config) w of
               (Err e, w1) \<Rightarrow> (Err (InvalidFileType e), w1)
             | (Panic p, w1) \<Rightarrow> (Panic p, w1)
             | (Ok _, w1) \<Rightarrow>
                 (case ensureDir (filepath_Dir (fc_Path config)) w1 of
                    (Inl e, w2) \<Rightarrow> (Err (MkdirFailed e), w2)
                  | (Inr _, w2) \<Rightarrow>
                      (case randomString 8 w2 of (r, w3) \<Rightarrow>
                        let tmpFile = temp_name (fc_Path config) r in
                        (case fill_temp config content tmpFile w3 of
                           (Ok _, w4) \<Rightarrow> commit_temp tmpFile (fc_Path config) w4
                         | (Err e, w4) \<Rightarrow> (Err e, w4)
                         | (Panic p, w4) \<Rightarrow> (Panic p, w4)))))))"

section \<open>Names: the target, its directory and the temporary file\<close>

text \<open>A proper path is rooted, clean and not the root itself, so it names an entry of a directory.\<close>

definition proper_path :: "string \<Rightarrow> bool" where
  "proper_path p \<longleftrightarrow> filepath_IsAbs p \<and> path_Clean p = p \<and> p \<noteq> ''/''"

lemma proper_path_elems:
  assumes "proper_path p"
  obtains es e where "p = render_path True (es @ [e])" and "clean_list True (es @ [e])"
proof -
  from assms obtain fs where fs: "clean_list True fs" "p = render_path True fs"
    using path_Clean_cases [of p] by (auto simp: proper_path_def)
  with assms have "fs \<noteq> []" by (auto simp: proper_path_def render_path_def)
  with fs that show thesis by (cases fs rule: rev_cases) auto
qed

lemma split_on_snoc_sep: "split_on c (s @ [c]) = split_on c s @ [[]]"
  by (induction s) (auto split: list.splits)

lemma render_snoc:
  "render_path True (es @ [e]) = (if es = [] then [] else render_path True es) @ CHR ''/'' # e"
  by (simp add: render_path_def join_with_snoc)

lemma render_inj:
  "clean_list r xs \<Longrightarrow> clean_list r ys \<Longrightarrow> render_path r xs = render_path r ys \<longleftrightarrow> xs = ys"
  using split_render by metis

lemma clean_elems_trailing: "clean_elems r (es @ [[]]) = clean_elems r es"
  by (simp add: clean_elems_def)

lemma Clean_trailing_slash:
  assumes "clean_list True es"
  shows "path_Clean (render_path True es @ ''/'') = render_path True es"
proof -
  have "filepath_IsAbs (render_path True es @ ''/'')" by (simp add: render_path_def)
  then show ?thesis
    using split_on_snoc_sep [of "CHR ''/''" "render_path True es"]
    by (simp add: path_Clean_def clean_elems_trailing split_render [OF assms])
qed

lemma Dir_render:
  assumes "clean_list True (es @ [e])"
  shows "filepath_Dir (render_path True (es @ [e])) = render_path True es"
proof -
  from assms have e: "CHR ''/'' \<notin> set e" and es: "clean_list True es"
    by (auto simp: clean_list_append plain_elem_def)
  have "upto_last_slash (render_path True (es @ [e])) = (if es = [] then [] else render_path True es) @ ''/''"
    by (simp only: render_snoc upto_last_slash_app [OF e])
  also have "path_Clean \<dots> = render_path True es"
  proof (cases "es = []")
    case True
    have "path_Clean ''/'' = ''/''"
      using path_Clean_render [of True "[]"] by (simp add: render_path_def)
    with True show ?thesis by (simp add: render_path_def)
  next
    case False
    with Clean_trailing_slash [OF es] show ?thesis by simp
  qed
  finally show ?thesis by (simp add: filepath_Dir_def)
qed

lemma Base_render:
  "clean_list True (es @ [e]) \<Longrightarrow> filepath_Base (render_path True (es @ [e])) = e"
  unfolding render_snoc by (rule Base_app) (auto simp: clean_list_append plain_elem_def)

lemma temp_name_render:
  "temp_name (render_path True (es @ [e])) r = render_path True (es @ [e @ ''.tmp.'' @ r])"
  by (simp add: temp_name_def render_snoc)

lemma temp_elem_clean:
  assumes "clean_list True (es @ [e])" and "CHR ''/'' \<notin> set r"
  shows "clean_list True (es @ [e @ ''.tmp.'' @ r])"
proof -
  have "length (e @ ''.tmp.'' @ r) > 2" by simp
  then have "e @ ''.tmp.'' @ r \<noteq> ''..''" "e @ ''.tmp.'' @ r \<noteq> ''.''" by fastforce+
  with assms show ?thesis by (auto simp: clean_list_append plain_elem_def)
qed

lemma dir_chain_render:
  assumes "clean_list True es"
  shows "set (dir_chain (render_path True es)) =
           {render_path True (take n es) | n. 1 \<le> n \<and> n \<le> length es}"
  by (auto simp: dir_chain_def split_render [OF assms] Let_def)

lemma clean_list_take: "clean_list r es \<Longrightarrow> clean_list r (take n es)"
  using clean_list_prefix [of r "take n es" "drop n es"] by simp

lemma dir_chain_avoids:
  assumes "clean_list True es" and "clean_list True fs" and "length fs = 0 \<or> length es < length fs"
  shows "render_path True fs \<notin> set (dir_chain (render_path True es))"
proof
  assume "render_path True fs \<in> set (dir_chain (render_path True es))"
  then obtain n where n: "1 \<le> n" "n \<le> length es" "render_path True fs = render_path True (take n es)"
    by (auto simp: dir_chain_render [OF assms(1)])
  with assms have "fs = take n es" by (simp add: render_inj clean_list_take)
  with n assms(3) show False by auto
qed

lemma root_render: "render_path True [] = ''/''"
  by (simp add: render_path_def)

lemma proper_path_dir_chain:
  assumes "proper_path p" and "CHR ''/'' \<notin> set r"
  shows "p \<notin> set (dir_chain (filepath_Dir p))"
    and "temp_name p r \<notin> set (dir_chain (filepath_Dir p))"
    and "''/'' \<notin> set (dir_chain (filepath_Dir p))"
    and "filepath_Dir (temp_name p r) = filepath_Dir p"
    and "temp_name p r \<noteq> p" and "temp_name p r \<noteq> ''/''"
    and "filepath_Base (temp_name p r) = filepath_Base p @ ''.tmp.'' @ r"
    and "proper_path (temp_name p r)"
proof -
  obtain es e where p: "p = render_path True (es @ [e])" and c: "clean_list True (es @ [e])"
    using assms(1) by (rule proper_path_elems)
  have ces: "clean_list True es" using c by (simp add: clean_list_append)
  have t: "temp_name p r = render_path True (es @ [e @ ''.tmp.'' @ r])"
    by (simp add: p temp_name_render)
  note ct = temp_elem_clean [OF c assms(2)]
  show "p \<notin> set (dir_chain (filepath_Dir p))" "temp_name p r \<notin> set (dir_chain (filepath_Dir p))"
    using dir_chain_avoids [OF ces c] dir_chain_avoids [OF ces ct] t
    by (simp_all add: p Dir_render [OF c])
  show "''/'' \<notin> set (dir_chain (filepath_Dir p))"
    using dir_chain_avoids [OF ces, of "[]"] by (simp add: p Dir_render [OF c] root_render)
  show "filepath_Dir (temp_name p r) = filepath_Dir p"
    using Dir_render [OF ct] Dir_render [OF c] t p by simp
  show "temp_name p r \<noteq> p" by (simp add: temp_name_def)
  show r: "temp_name p r \<noteq> ''/''"
    using render_inj [OF ct, of "[]"] t root_render by auto
  show "filepath_Base (temp_name p r) = filepath_Base p @ ''.tmp.'' @ r"
    using Base_render [OF ct] Base_render [OF c] t p by simp
  show "proper_path (temp_name p r)"
    using path_Clean_render [OF ct] render_path_abs [OF ct] t r by (simp add: proper_path_def)
qed

end
