(* ===== verification/Writer_Facts.thy ===== *)
theory Writer_Facts
  imports Writer
begin

text \<open>
  Facts about the steps of \<open>WriteFile\<close>: which nodes each step can touch, and what the temporary
  file and the target hold after it.  The theorems about the writer are put together from them.
\<close>

section \<open>The random suffix\<close>

lemma decimal_digits: "c \<in> set (decimal n) \<Longrightarrow> is_digit c"
proof (induction n rule: decimal.induct)
  case (1 n)
  have d: "is_digit (char_of (48 + k))" if "k < 10" for k :: nat
    using that by (simp add: is_digit_def char_code_def)
  show ?case
  proof (cases "n < 10")
    case True
    with "1.prems" d show ?thesis by (subst (asm) decimal.simps) auto
  next
    case False
    with "1.prems" have "c \<in> set (decimal (n div 10)) \<or> c = char_of (48 + n mod 10)"
      by (subst (asm) decimal.simps) auto
    with "1.IH" False d [of "n mod 10"] show ?thesis by auto
  qed
qed

lemma letters_no_slash: "i < 36 \<Longrightarrow> letters ! i \<noteq> CHR ''/''"
proof -
  assume "i < 36"
  then have "letters ! i \<in> set letters" by (intro nth_mem) (simp add: letters_def)
  moreover have "CHR ''/'' \<notin> set letters" by (simp add: letters_def)
  ultimately show ?thesis by metis
qed

lemma randomString_facts:
  assumes "randomString n w = (r, w')"
  shows "CHR ''/'' \<notin> set r" and "only_touches {} w w'" and "w_nodes w' = w_nodes w"
proof -
  have len: "length letters = 36" by (simp add: letters_def)
  show "CHR ''/'' \<notin> set r"
  proof (cases "length (w_rand w) < n")
    case True
    with assms have "r = decimal (w_pid w)" by (auto simp: randomString_def)
    then show ?thesis
      using decimal_digits [of "CHR ''/''" "w_pid w"] by (auto simp: is_digit_def char_code_def)
  next
    case False
    with assms have "r = map (\<lambda>b. letters ! (unat b mod 36)) (take n (w_rand w))"
      by (simp add: randomString_def len)
    then show ?thesis using letters_no_slash by (auto simp: image_iff) (metis mod_less_divisor zero_less_numeral)
  qed
  show "only_touches {} w w'" "w_nodes w' = w_nodes w"
    using assms by (auto simp: randomString_def only_touches_def split: if_splits)
qed

section \<open>The steps\<close>

lemma validateFileType_touches:
  "validateFileType p w = (r, w') \<Longrightarrow> only_touches {} w w' \<and> w_nodes w' = w_nodes w"
proof -
  assume v: "validateFileType p w = (r, w')"
  obtain x w1 where l: "os_Lstat p w = (x, w1)" by (cases "os_Lstat p w")
  have "only_touches {} w w1 \<and> w_nodes w1 = w_nodes w"
    using l unfolding os_Lstat_def
    by (rule with_fault_cases) (auto split: option.splits)
  moreover from v l have "w' = w1"
    by (auto simp: validateFileType_def split: sum.splits errno.splits node.splits)
  ultimately show ?thesis by simp
qed

lemma validateFileType_no_panic: "validateFileType p w \<noteq> (Panic q, w')"
  by (auto simp: validateFileType_def split: prod.splits sum.splits errno.splits node.splits)

lemma validatePath_no_panic: "validatePath p \<noteq> Panic q"
  by (simp add: validatePath_def and_then_Panic)

lemma ensureDir_touches:
  "ensureDir d w = (r, w') \<Longrightarrow> ''/'' \<notin> set (dir_chain d) \<Longrightarrow> only_touches (set (dir_chain d)) w w'"
  by (auto simp: ensureDir_def os_MkdirAll_def split: if_splits intro: mkdir_chain_touches)

lemma open_trunc_fresh:
  assumes "open_trunc p perm w = (r, w')" and "lookup w p = None" and "p \<noteq> ''/''"
  shows "only_touches {p} w w'"
    and "r = Inr q \<Longrightarrow> q = p \<and>
           lookup w' p = Some (Reg [] (created_mode perm w) (w_uid w) (w_gid w))"
proof -
  have "only_touches {p} w w' \<and> (r = Inr q \<longrightarrow> q = p \<and>
           lookup w' p = Some (Reg [] (created_mode perm w) (w_uid w) (w_gid w)))"
    using assms(1) unfolding open_trunc_def
  proof (cases rule: with_fault_cases)
    case (failed e)
    then show ?thesis by (auto intro: only_touches_mono)
  next
    case (run w1)
    have l: "lookup w1 p = None" using lookup_nodes [OF run(3)] assms(2) by simp
    have f: "follow max_links w1 p = Some p" by (rule follow_plain) (simp add: l)
    have c: "created_mode perm w1 = created_mode perm w" "w_uid w1 = w_uid w" "w_gid w1 = w_gid w"
      using run(2) by (auto simp: only_touches_def created_mode_def)
    have t: "only_touches {p} w (put_node p n w1)" for n
      by (rule only_touches_trans [OF only_touches_mono [OF run(2)] only_touches_put]) simp
    from run(1) show ?thesis
      using t c only_touches_mono [OF run(2)] assms(3) by (auto simp: f l split: if_splits)
  qed
  then show "only_touches {p} w w'" and "r = Inr q \<Longrightarrow> q = p \<and>
           lookup w' p = Some (Reg [] (created_mode perm w) (w_uid w) (w_gid w))" by auto
qed

lemma store_bytes_facts:
  assumes "q \<noteq> ''/''"
  shows "only_touches {q} w (store_bytes q data w)"
    and "lookup w q = Some (Reg d m u g) \<Longrightarrow> lookup (store_bytes q data w) q = Some (Reg data m u g)"
  using assms by (auto simp: store_bytes_def only_touches_put split: option.splits node.splits)

lemma write_close_facts:
  assumes "write_close q data w = (r, w')" and "q \<noteq> ''/''" and "lookup w q = Some (Reg d m u g)"
  shows "only_touches {q} w w'" and "r = Inr x \<Longrightarrow> lookup w' q = Some (Reg data m u g)"
proof -
  obtain f w1 where f: "next_fault w = (f, w1)" by (cases "next_fault w")
  have t1: "only_touches {q} w w1" by (rule only_touches_fault [OF f])
  have l1: "lookup w1 q = Some (Reg d m u g)" using f assms(3) by (simp add: next_fault_lookup)
  note sb = store_bytes_facts [OF assms(2), of w1]
  have "only_touches {q} w w' \<and> (r = Inr x \<longrightarrow> lookup w' q = Some (Reg data m u g))"
  proof (cases f)
    case (Some en)
    with assms(1) f show ?thesis
      using only_touches_trans [OF t1 sb(1)] by (cases en) (auto simp: write_close_def)
  next
    case None
    with assms(1) f have "with_fault (\<lambda>w2. (Inr (), w2)) (store_bytes q data w1) = (r, w')"
      by (simp add: write_close_def)
    then show ?thesis
    proof (cases rule: with_fault_cases)
      case (failed e)
      then show ?thesis
        using only_touches_trans [OF t1 only_touches_trans [OF sb(1) only_touches_mono [OF failed(2)]]]
        by auto
    next
      case (run w2)
      then show ?thesis
        using only_touches_trans [OF t1 only_touches_trans [OF sb(1) only_touches_mono [OF run(2)]]]
          sb(2) [OF l1] by (auto simp: lookup_def)
    qed
  qed
  then show "only_touches {q} w w'" and "r = Inr x \<Longrightarrow> lookup w' q = Some (Reg data m u g)" by auto
qed

lemma os_WriteFile_fresh:
  assumes "os_WriteFile p data perm w = (r, w')" and "lookup w p = None" and "p \<noteq> ''/''"
  shows "only_touches {p} w w'"
    and "r = Inr x \<Longrightarrow> lookup w' p = Some (Reg data (created_mode perm w) (w_uid w) (w_gid w))"
proof -
  obtain r1 w1 where o: "open_trunc p perm w = (r1, w1)" by (cases "open_trunc p perm w")
  note o1 = open_trunc_fresh [OF o assms(2,3)]
  have "only_touches {p} w w' \<and>
      (r = Inr x \<longrightarrow> lookup w' p = Some (Reg data (created_mode perm w) (w_uid w) (w_gid w)))"
  proof (cases r1)
    case (Inl e)
    with assms(1) o o1(1) show ?thesis by (auto simp: os_WriteFile_def)
  next
    case (Inr q)
    from o1(2) [OF Inr] have q: "q = p"
      and l: "lookup w1 p = Some (Reg [] (created_mode perm w) (w_uid w) (w_gid w))" by auto
    from assms(1) o Inr q have wc: "write_close p data w1 = (r, w')" by (simp add: os_WriteFile_def)
    show ?thesis
      using write_close_facts [OF wc assms(3) l] only_touches_trans [OF o1(1)] by blast
  qed
  then show "only_touches {p} w w'"
    and "r = Inr x \<Longrightarrow> lookup w' p = Some (Reg data (created_mode perm w) (w_uid w) (w_gid w))" by auto
qed

lemma os_Chown_facts:
  assumes "os_Chown p uid gid w = (r, w')" and "p \<noteq> ''/''" and "lookup w p = Some (Reg d m u g)"
  shows "only_touches {p} w w'"
    and "r = Inr x \<Longrightarrow> lookup w' p = Some (Reg d m (new_id uid u) (new_id gid g))"
proof -
  have "only_touches {p} w w' \<and> (r = Inr x \<longrightarrow> lookup w' p = Some (Reg d m (new_id uid u) (new_id gid g)))"
    using assms(1) unfolding os_Chown_def
  proof (cases rule: with_fault_cases)
    case (failed e)
    then show ?thesis by (auto intro: only_touches_mono)
  next
    case (run w1)
    have l: "lookup w1 p = Some (Reg d m u g)" using lookup_nodes [OF run(3)] assms(3) by simp
    have f: "follow max_links w1 p = Some p" by (rule follow_plain) (simp add: l)
    have t: "only_touches {p} w (put_node p n w1)" for n
      by (rule only_touches_trans [OF only_touches_mono [OF run(2)] only_touches_put]) simp
    from run(1) show ?thesis using t assms(2) by (auto simp: f l)
  qed
  then show "only_touches {p} w w'"
    and "r = Inr x \<Longrightarrow> lookup w' p = Some (Reg d m (new_id uid u) (new_id gid g))" by auto
qed

lemma discard_touches: "only_touches {p} w (discard p w)"
proof -
  obtain r w' where r: "os_Remove p w = (r, w')" by (cases "os_Remove p w")
  have "only_touches {p} w w'"
    using r unfolding os_Remove_def
  proof (cases rule: with_fault_cases)
    case (failed e)
    then show ?thesis by (auto intro: only_touches_mono)
  next
    case (run w1)
    have t: "only_touches {p} w (del_node p w1)"
      by (rule only_touches_trans [OF only_touches_mono [OF run(2)] only_touches_del]) simp
    from run(1) show ?thesis
      using t only_touches_mono [OF run(2)] by (auto split: option.splits if_splits)
  qed
  with r show ?thesis by (simp add: discard_def)
qed

text \<open>The owner and group a written file ends up with.\<close>

definition final_owner :: "FileConfig \<Rightarrow> world \<Rightarrow> int" where
  "final_owner config w =
     (if 0 \<le> fc_Owner config then new_id (fc_Owner config) (w_uid w) else w_uid w)"

definition final_group :: "FileConfig \<Rightarrow> world \<Rightarrow> int" where
  "final_group config w =
     (if 0 \<le> fc_Group config then new_id (fc_Group config) (w_gid w) else w_gid w)"

lemma new_id_minus_one [simp]: "new_id (- 1) g = g"
  by (simp add: new_id_def)

lemma fill_temp_facts:
  assumes "fill_temp config content p w = (r, w')" and "lookup w p = None" and "p \<noteq> ''/''"
  shows "only_touches {p} w w'"
    and "r = Ok x \<Longrightarrow> lookup w' p =
           Some (Reg content (created_mode (fc_Mode config) w) (final_owner config w) (final_group config w))"
    and "r \<noteq> Panic pk"
proof -
  let ?m = "created_mode (fc_Mode config) w"
  obtain r1 w1 where o: "os_WriteFile p content (fc_Mode config) w = (r1, w1)"
    by (cases "os_WriteFile p content (fc_Mode config) w")
  note o1 = os_WriteFile_fresh [OF o assms(2,3)]
  have "only_touches {p} w w' \<and> (r = Ok x \<longrightarrow> lookup w' p =
          Some (Reg content ?m (final_owner config w) (final_group config w))) \<and> r \<noteq> Panic pk"
  proof (cases r1)
    case (Inl e)
    with assms(1) o o1(1) show ?thesis by (auto simp: fill_temp_def)
  next
    case (Inr y)
    note l = o1(2) [OF Inr]
    show ?thesis
    proof (cases "0 \<le> fc_Owner config \<or> 0 \<le> fc_Group config")
      case False
      with assms(1) o Inr l o1(1) show ?thesis
        by (auto simp: fill_temp_def final_owner_def final_group_def)
    next
      case True
      let ?uid = "if fc_Owner config < 0 then - 1 else fc_Owner config"
      let ?gid = "if fc_Group config < 0 then - 1 else fc_Group config"
      obtain r2 w2 where c: "os_Chown p ?uid ?gid w1 = (r2, w2)" by (cases "os_Chown p ?uid ?gid w1")
      note cf = os_Chown_facts [OF c assms(3) l]
      have t: "only_touches {p} w w2" by (rule only_touches_trans [OF o1(1) cf(1)])
      show ?thesis
      proof (cases r2)
        case (Inl e)
        with assms(1) o Inr True c have "r = Err (ChownFailed e)" "w' = discard p w2"
          by (auto simp: fill_temp_def Let_def)
        with only_touches_trans [OF t discard_touches] show ?thesis by simp
      next
        case (Inr z)
        with assms(1) o \<open>r1 = Inr y\<close> True c have "r = Ok ()" "w' = w2"
          by (auto simp: fill_temp_def Let_def)
        with t cf(2) [OF Inr] show ?thesis by (auto simp: final_owner_def final_group_def)
      qed
    qed
  qed
  then show "only_touches {p} w w'"
    and "r = Ok x \<Longrightarrow> lookup w' p = Some (Reg content ?m (final_owner config w) (final_group config w))"
    and "r \<noteq> Panic pk" by auto
qed

text \<open>
  The commit.  If it succeeds, exactly one further set of nodes is seen, the one in which the
  target is the temporary file's node and the temporary name is gone; otherwise only the temporary file is touched.
\<close>

definition same_ids :: "world \<Rightarrow> world \<Rightarrow> bool" where
  "same_ids w w' \<longleftrightarrow> w_umask w' = w_umask w \<and> w_uid w' = w_uid w \<and> w_gid w' = w_gid w"

lemma same_ids_touches: "only_touches P w w' \<Longrightarrow> same_ids w w'"
  by (simp add: same_ids_def only_touches_def)

lemma same_ids_trans [trans]: "same_ids w v \<Longrightarrow> same_ids v u \<Longrightarrow> same_ids w u"
  by (simp add: same_ids_def)

lemma commit_temp_ok:
  assumes "commit_temp t p w = (Ok x, w')" and "lookup w t = Some n" and "t \<noteq> p"
    and "t \<noteq> ''/''" and "p \<noteq> ''/''"
  shows "\<exists>ns. w_hist w' = ns # w_hist w \<and> w_nodes w' = ns \<and>
           map_of ns = (map_of (w_nodes w))(p \<mapsto> n, t := None) \<and> same_ids w w'"
proof -
  obtain r w1 where c: "os_Rename t p w = (r, w1)" by (cases "os_Rename t p w")
  with assms(1) have r: "r = Inr ()" and w': "w' = w1"
    by (auto simp: commit_temp_def split: sum.splits)
  from c [unfolded r] show ?thesis unfolding os_Rename_def
  proof (cases rule: with_fault_cases)
    case (run w2)
    have l: "lookup w2 t = Some n" using lookup_nodes [OF run(3)] assms(2) by simp
    from run(1) l assms(3) have "w1 = set_nodes (AList.delete t (AList.update p n (w_nodes w2))) w2"
      by (auto split: if_splits)
    with run(3,4) w' same_ids_touches [OF run(2)] show ?thesis
      by (simp add: set_nodes_def delete_conv' update_conv' same_ids_def)
  qed simp
qed

lemma commit_temp_err:
  assumes "commit_temp t p w = (r, w')" and "r \<noteq> Ok ()"
  shows "only_touches {t} w w'" and "r \<noteq> Panic pk"
proof -
  obtain r1 w1 where c: "os_Rename t p w = (r1, w1)" by (cases "os_Rename t p w")
  with assms obtain e where e: "r1 = Inl e" "r = Err (RenameFailed e)" "w' = discard t w1"
    by (auto simp: commit_temp_def split: sum.splits)
  have "only_touches {t} w w1"
    using c [unfolded e(1)] unfolding os_Rename_def
    by (rule with_fault_cases) (auto split: if_splits option.splits intro: only_touches_mono)
  then show "only_touches {t} w w'" using only_touches_trans [OF _ discard_touches] e(3) by simp
  show "r \<noteq> Panic pk" using e(2) by simp
qed

end
