(* ===== verification/Writer_Theorems.thy ===== *)
theory Writer_Theorems
  imports Writer_Facts
begin

text \<open>
  What \<open>WriteFile\<close> promises: the target is replaced in one step or not at all, nothing else on the
  disk changes except that missing directories appear, and a write that can succeed does.
\<close>

section \<open>The stages of a write\<close>

text \<open>No leftover of an earlier write stands in the way: every name the writer may pick is free.\<close>

definition temp_free :: "string \<Rightarrow> world \<Rightarrow> bool" where
  "temp_free p w \<longleftrightarrow> (\<forall>r. CHR ''/'' \<notin> set r \<longrightarrow> lookup w (temp_name p r) = None)"

text \<open>The file a successful write leaves at the target.\<close>

definition written :: "FileConfig \<Rightarrow> string \<Rightarrow> world \<Rightarrow> node" where
  "written config content w =
     Reg content (created_mode (fc_Mode config) w) (final_owner config w) (final_group config w)"

lemma written_touch: "only_touches P w w' \<Longrightarrow> written config content w' = written config content w"
  by (simp add: written_def only_touches_def created_mode_def final_owner_def final_group_def)

text \<open>The names the writer may touch apart from the target: missing directories and one temporary file.\<close>

definition side_names :: "string \<Rightarrow> string \<Rightarrow> string set" where
  "side_names p r = insert (temp_name p r) (set (dir_chain (filepath_Dir p)))"

text \<open>
  Directories are only ever created where there was nothing: every node that exists survives
  \<open>ensureDir\<close>, and what is new is a directory.
\<close>

definition only_new_dirs :: "world \<Rightarrow> world \<Rightarrow> bool" where
  "only_new_dirs w w' \<longleftrightarrow> (\<forall>q. lookup w' q = lookup w q \<or> lookup w q = None \<and> lookup w' q = Some Dir)"

lemma only_new_dirs_nodes: "w_nodes w' = w_nodes w \<Longrightarrow> only_new_dirs w w'"
  by (simp add: only_new_dirs_def lookup_def)

lemma only_new_dirs_trans [trans]:
  "only_new_dirs w v \<Longrightarrow> only_new_dirs v u \<Longrightarrow> only_new_dirs w u"
  unfolding only_new_dirs_def by (metis option.distinct(1))

lemma mkdir_chain_new: "mkdir_chain ds w = (r, w') \<Longrightarrow> ''/'' \<notin> set ds \<Longrightarrow> only_new_dirs w w'"
proof (induction ds arbitrary: w)
  case Nil
  then show ?case by (simp add: only_new_dirs_nodes)
next
  case (Cons d ds)
  show ?case
  proof (cases "is_dir w d \<or> lookup w d \<noteq> None")
    case True
    with Cons show ?thesis
      by (cases "is_dir w d") (auto simp: only_new_dirs_nodes split: option.splits node.splits)
  next
    case False
    then have nd: "\<not> is_dir w d" and l: "lookup w d = None" by auto
    obtain g w1 where g: "next_fault w = (g, w1)" by (cases "next_fault w")
    note nodes = next_fault_nodes [OF g]
    show ?thesis
    proof (cases g)
      case (Some e)
      with g nd l Cons.prems nodes show ?thesis by (cases e) (auto simp: only_new_dirs_nodes)
    next
      case None
      with g nd l Cons.prems have m: "mkdir_chain ds (put_node d Dir w1) = (r, w')" by simp
      have "d \<noteq> ''/''" using Cons.prems(2) by auto
      then have "only_new_dirs w (put_node d Dir w1)"
        using l next_fault_lookup [OF g] by (simp add: only_new_dirs_def)
      also have "only_new_dirs (put_node d Dir w1) w'" using Cons.IH [OF m] Cons.prems(2) by simp
      finally show ?thesis .
    qed
  qed
qed

lemma ensureDir_new: "ensureDir d w = (r, w') \<Longrightarrow> ''/'' \<notin> set (dir_chain d) \<Longrightarrow> only_new_dirs w w'"
  by (auto simp: ensureDir_def os_MkdirAll_def only_new_dirs_nodes split: if_splits intro: mkdir_chain_new)

text \<open>
  The first part of every run: the checks and the directories.  It ends there with an error, or the
  rest of the run works on one temporary name in a disk that has all directories.
\<close>

lemma WriteFile_prepare:
  assumes run: "WriteFile config content w = (r, w')" and path: "proper_path (fc_Path config)"
  obtains
    (stop) e where "r = Err e" and "only_new_dirs w w'"
      and "only_touches (set (dir_chain (filepath_Dir (fc_Path config)))) w w'"
  | (go) s v where "CHR ''/'' \<notin> set s" and "only_new_dirs w v"
      and "only_touches (set (dir_chain (filepath_Dir (fc_Path config)))) w v"
      and "(case fill_temp config content (temp_name (fc_Path config) s) v of
              (Ok _, u) \<Rightarrow> commit_temp (temp_name (fc_Path config) s) (fc_Path config) u
            | (Err e, u) \<Rightarrow> (Err e, u) | (Panic q, u) \<Rightarrow> (Panic q, u)) = (r, w')"
proof -
  let ?p = "fc_Path config" and ?chain = "set (dir_chain (filepath_Dir (fc_Path config)))"
  have root: "''/'' \<notin> ?chain" using proper_path_dir_chain(3) [OF path, of "[]"] by simp
  obtain r1 w1 where ft: "validateFileType ?p w = (r1, w1)" by (cases "validateFileType ?p w")
  obtain r2 w2 where ed: "ensureDir (filepath_Dir ?p) w1 = (r2, w2)"
    by (cases "ensureDir (filepath_Dir ?p) w1")
  obtain s w3 where rs: "randomString 8 w2 = (s, w3)" by (cases "randomString 8 w2")
  note ft1 = validateFileType_touches [OF ft] and rs1 = randomString_facts [OF rs]
  have nd1: "only_new_dirs w w1" and t1: "only_touches ?chain w w1"
    using ft1 by (auto intro: only_new_dirs_nodes only_touches_mono)
  have nd2: "only_new_dirs w w2" and t2: "only_touches ?chain w w2"
    using only_new_dirs_trans [OF nd1 ensureDir_new [OF ed root]]
      only_touches_trans [OF t1 ensureDir_touches [OF ed root]] by auto
  have nd3: "only_new_dirs w w3" and t3: "only_touches ?chain w w3"
    using only_new_dirs_trans [OF nd2 only_new_dirs_nodes [OF rs1(3)]]
      only_touches_trans [OF t2 only_touches_mono [OF rs1(2)]] by auto
  note no_panic = validatePath_no_panic [of ?p] validateFileType_no_panic [of ?p w]
  consider e where "(r, w') = (Err e, w)" | e where "(r, w') = (Err e, w1)" | e where "(r, w') = (Err e, w2)"
    | "(case fill_temp config content (temp_name ?p s) w3 of
          (Ok _, u) \<Rightarrow> commit_temp (temp_name ?p s) ?p u
        | (Err e, u) \<Rightarrow> (Err e, u) | (Panic q, u) \<Rightarrow> (Panic q, u)) = (r, w')"
  proof (cases "MaxSecretSize < length content \<or> \<not> is_ok (validatePath ?p)")
    case True
    with run no_panic(1) that(1) show thesis
      by (cases "validatePath ?p") (auto simp: WriteFile_def split: if_splits)
  next
    case False
    with run ft ed rs no_panic(2) that show thesis
      by (cases "validatePath ?p"; cases r1; cases r2) (auto simp: WriteFile_def Let_def)
  qed
  then show thesis
  proof cases
    case (1 e)
    then show thesis by (intro stop [of e]) (simp_all add: only_new_dirs_nodes)
  next
    case (2 e)
    with nd1 t1 show thesis by (intro stop [of e]) simp_all
  next
    case (3 e)
    with nd2 t2 show thesis by (intro stop [of e]) simp_all
  next
    case 4
    then show thesis by (rule go [OF rs1(1) nd3 t3])
  qed
qed

text \<open>
  The shape of every run.  It ends before the commit, having touched only side names, or it commits
  a complete temporary file.
\<close>

lemma WriteFile_run:
  assumes run: "WriteFile config content w = (r, w')"
    and path: "proper_path (fc_Path config)" and free: "temp_free (fc_Path config) w"
  obtains
    (before) e s v where "r = Err e" and "CHR ''/'' \<notin> set s" and "only_new_dirs w v"
      and "only_touches (set (dir_chain (filepath_Dir (fc_Path config)))) w v"
      and "only_touches {temp_name (fc_Path config) s} v w'"
  | (commit) s v u where "r = Ok ()" and "CHR ''/'' \<notin> set s" and "only_new_dirs w v"
      and "only_touches (set (dir_chain (filepath_Dir (fc_Path config)))) w v"
      and "only_touches {temp_name (fc_Path config) s} v u"
      and "w_hist w' = w_nodes w' # w_hist u"
      and "map_of (w_nodes w') =
             (map_of (w_nodes u))(fc_Path config \<mapsto> written config content w, temp_name (fc_Path config) s := None)"
      and "same_ids w w'"
  using run path
proof (cases rule: WriteFile_prepare)
  case (stop e)
  then show thesis using before [of e "[]" w'] by simp
next
  case (go s v)
  let ?p = "fc_Path config" and ?t = "temp_name (fc_Path config) s"
  note chain = proper_path_dir_chain [OF path go(1)]
  have free': "lookup v ?t = None"
    using only_touches_lookup [OF go(3) chain(2)] free go(1) by (simp add: temp_free_def)
  obtain r4 u where fl: "fill_temp config content ?t v = (r4, u)"
    by (cases "fill_temp config content ?t v")
  note fl1 = fill_temp_facts [OF fl free' chain(6)]
  show thesis
  proof (cases r4)
    case (Panic q)
    with fl1(3) show thesis by blast
  next
    case (Err e)
    with go(4) fl have "r = Err e" "w' = u" by simp_all
    then show thesis using before [OF _ go(1-3)] fl1(1) by blast
  next
    case filled: (Ok y)
    with go(4) fl have ct: "commit_temp ?t ?p u = (r, w')" by simp
    have l: "lookup u ?t = Some (written config content w)"
      using fl1(2) [OF filled] written_touch [OF go(3), of config content] by (simp add: written_def)
    show thesis
    proof (cases "r = Ok ()")
      case True
      have p: "?p \<noteq> ''/''" using path by (simp add: proper_path_def)
      note c = commit_temp_ok [OF ct [unfolded True] l chain(5) chain(6) p]
      have "same_ids w w'"
        using same_ids_trans [OF same_ids_touches [OF go(3)] same_ids_trans [OF same_ids_touches [OF fl1(1)]]] c by blast
      with c show thesis by (intro commit [OF True go(1-3) fl1(1)]) auto
    next
      case False
      note ce = commit_temp_err [OF ct False]
      from False ce(2) obtain e where "r = Err e" by (cases r) auto
      then show thesis
        using before [OF _ go(1-3) only_touches_trans [OF fl1(1) ce(1)]] by blast
    qed
  qed
qed

section \<open>A concrete disk\<close>

text \<open>An empty disk on which root writes; the next random bytes spell the name \<open>bcdefghi\<close>.\<close>

definition sample_world :: world where
  "sample_world =
     \<lparr>w_nodes = [(''/out'', Dir), (''/out/pw'', Reg ''old'' 0x180 0 0)], w_umask = 0x12,
      w_uid = 0, w_gid = 0, w_pid = 42, w_rand = [1, 2, 3, 4, 5, 6, 7, 8], w_faults = [], w_hist = []\<rparr>"

definition sample_fc :: FileConfig where
  "sample_fc = \<lparr>fc_Path = ''/out/pw'', fc_Mode = 0x180, fc_Owner = 1000, fc_Group = - 1\<rparr>"

lemma sample_proper: "proper_path (fc_Path sample_fc)"
  by code_simp

lemma sample_free: "temp_free (fc_Path sample_fc) sample_world"
  by (simp add: temp_free_def temp_name_def lookup_def sample_world_def sample_fc_def)

text \<open>Any content of admissible size is written there, whatever the mode and the umask.\<close>

lemma sample_run_any:
  assumes "length c \<le> MaxSecretSize"
  shows "fst (WriteFile (sample_fc\<lparr>fc_Mode := m\<rparr>) c (sample_world\<lparr>w_umask := u\<rparr>)) = Ok ()"
proof -
  let ?fc = "sample_fc\<lparr>fc_Mode := m\<rparr>" and ?w = "sample_world\<lparr>w_umask := u\<rparr>"
  have v: "validatePath (fc_Path ?fc) = Ok ()"
    by (simp add: validatePath_def sample_fc_def MaxPathLen_def filepath_IsAbs_def has_prefix_def backslash_def)
  have "fst (case validateFileType (fc_Path ?fc) ?w of
               (Err e, w1) \<Rightarrow> (Err (InvalidFileType e), w1)
             | (Panic p, w1) \<Rightarrow> (Panic p, w1)
             | (Ok _, w1) \<Rightarrow>
                 (case ensureDir (filepath_Dir (fc_Path ?fc)) w1 of
                    (Inl e, w2) \<Rightarrow> (Err (MkdirFailed e), w2)
                  | (Inr _, w2) \<Rightarrow>
                      (case randomString 8 w2 of (r, w3) \<Rightarrow>
                        let tmpFile = temp_name (fc_Path ?fc) r in
                        (case fill_temp ?fc c tmpFile w3 of
                           (Ok _, w4) \<Rightarrow> commit_temp tmpFile (fc_Path ?fc) w4
                         | (Err e, w4) \<Rightarrow> (Err e, w4)
                         | (Panic p, w4) \<Rightarrow> (Panic p, w4))))) = Ok ()"
    by code_simp
  then show ?thesis using assms unfolding WriteFile_def v by (simp add: not_less)
qed
lemma sample_size: "length ''new'' \<le> MaxSecretSize"
  by (simp add: MaxSecretSize_def)

lemma sample_run: "fst (WriteFile sample_fc ''new'' sample_world) = Ok ()"
  using sample_run_any [of "''new''" "fc_Mode sample_fc" "w_umask sample_world"] by (simp add: MaxSecretSize_def)

section \<open>The promises\<close>

text \<open>C1: a write is atomic.  Whatever fails, and at whatever moment an observer looks (or the machine
stops), the target holds either what it held before or the complete new content with its final mode and owner; the
outcome tells which.\<close>

theorem WriteFile_atomic:
  assumes "WriteFile config content w = (r, w')"
    and "proper_path (fc_Path config)" and "temp_free (fc_Path config) w"
  shows "\<exists>hs. w_hist w' = hs @ w_hist w \<and>
           (\<forall>ns \<in> set hs. map_of ns (fc_Path config) = map_of (w_nodes w) (fc_Path config) \<or>
                        map_of ns (fc_Path config) = Some (written config content w)) \<and>
           map_of (w_nodes w') (fc_Path config) =
             (if r = Ok () then Some (written config content w) else map_of (w_nodes w) (fc_Path config))"
  using assms
proof (cases rule: WriteFile_run)
  case (before e s v)
  note chain = proper_path_dir_chain [OF assms(2) before(2)]
  let ?P = "insert (temp_name (fc_Path config) s) (set (dir_chain (filepath_Dir (fc_Path config))))"
  have "only_touches ?P w w'"
    using only_touches_trans [OF only_touches_mono [OF before(4)] only_touches_mono [OF before(5)]] by blast
  moreover have "fc_Path config \<notin> ?P" using chain(1,5) by auto
  ultimately show ?thesis using before(1) by (auto simp: only_touches_def)
next
  case (commit s v u)
  note chain = proper_path_dir_chain [OF assms(2) commit(2)]
  let ?P = "insert (temp_name (fc_Path config) s) (set (dir_chain (filepath_Dir (fc_Path config))))"
  have "only_touches ?P w u"
    using only_touches_trans [OF only_touches_mono [OF commit(4)] only_touches_mono [OF commit(5)]] by blast
  moreover have "fc_Path config \<notin> ?P" using chain(1,5) by auto
  ultimately obtain hs where "w_hist u = hs @ w_hist w"
    and "\<forall>ns \<in> set hs. map_of ns (fc_Path config) = map_of (w_nodes w) (fc_Path config)"
    unfolding only_touches_def by blast
  moreover have "map_of (w_nodes w') (fc_Path config) = Some (written config content w)"
    using commit(7) chain(5) by auto
  ultimately show ?thesis using commit(1,6) by (intro exI [of _ "w_nodes w' # hs"]) auto
qed

theorem WriteFile_atomic_witness:
  "\<exists>hs. w_hist (snd (WriteFile sample_fc ''new'' sample_world)) = hs @ w_hist sample_world \<and>
     (\<forall>ns \<in> set hs. map_of ns ''/out/pw'' = Some (Reg ''old'' 0x180 0 0) \<or>
                  map_of ns ''/out/pw'' = Some (Reg ''new'' 0x180 1000 0)) \<and>
     map_of (w_nodes (snd (WriteFile sample_fc ''new'' sample_world))) ''/out/pw'' =
       (if fst (WriteFile sample_fc ''new'' sample_world) = Ok () then Some (Reg ''new'' 0x180 1000 0)
        else Some (Reg ''old'' 0x180 0 0))"
proof -
  have p: "fc_Path sample_fc = ''/out/pw''" by (simp add: sample_fc_def)
  have o: "map_of (w_nodes sample_world) ''/out/pw'' = Some (Reg ''old'' 0x180 0 0)"
    by (simp add: sample_world_def)
  have n: "written sample_fc ''new'' sample_world = Reg ''new'' 0x180 1000 0" by code_simp
  show ?thesis
    using WriteFile_atomic [OF prod.collapse [symmetric] sample_proper sample_free, of "''new''"]
    unfolding p o n .
qed

lemma WriteFile_Ok_facts:
  assumes "WriteFile config content w = (Ok (), w')"
    and "proper_path (fc_Path config)" and "temp_free (fc_Path config) w"
  shows "lookup w' (fc_Path config) = Some (written config content w) \<and>
         temp_free (fc_Path config) w' \<and>
         (\<forall>q. q \<noteq> fc_Path config \<longrightarrow>
            lookup w' q = lookup w q \<or> lookup w q = None \<and> lookup w' q = Some Dir \<and>
            q \<in> set (dir_chain (filepath_Dir (fc_Path config))))"
  using assms
proof (cases rule: WriteFile_run)
  case (commit s v u)
  let ?p = "fc_Path config" and ?t = "temp_name (fc_Path config) s"
  note chain = proper_path_dir_chain [OF assms(2)]
  have l: "lookup w' q = (if q = ?t then None else if q = ?p then Some (written config content w) else lookup u q)" for q
    using commit(7) chain(6) [OF commit(2)] assms(2) by (auto simp: lookup_def proper_path_def)
  have u: "lookup u q = lookup v q" if "q \<noteq> ?t" for q
    using only_touches_lookup [OF commit(5)] that by simp
  have v: "lookup v q = lookup w q \<or> lookup w q = None \<and> lookup v q = Some Dir \<and>
      q \<in> set (dir_chain (filepath_Dir ?p))" for q
    using commit(3) only_touches_lookup [OF commit(4), of q] by (auto simp: only_new_dirs_def)
  have t: "lookup w ?t = None" using assms(3) commit(2) by (simp add: temp_free_def)
  have "lookup w' (temp_name ?p r) = None" if r: "CHR ''/'' \<notin> set r" for r
  proof -
    have "lookup v (temp_name ?p r) = None"
      using only_touches_lookup [OF commit(4) chain(2) [OF r]] assms(3) r by (simp add: temp_free_def)
    then show ?thesis using l u chain(5) [OF r] by auto
  qed
  moreover have "lookup w' q = lookup w q \<or> lookup w q = None \<and> lookup w' q = Some Dir \<and>
      q \<in> set (dir_chain (filepath_Dir ?p))" if "q \<noteq> ?p" for q
    using l [of q] u [of q] v [of q] t that by (cases "q = ?t") auto
  ultimately show ?thesis using l [of ?p] chain(5) [OF commit(2)] by (auto simp: temp_free_def)
qed simp

text \<open>
  C14: a successful write leaves exactly the new file.  Afterwards the target is a regular file with the given content,
  the requested owner and group, and the requested mode less the bits of the process's umask: the mode is given
  to the call that creates the temporary file, and no \<open>chmod\<close> follows.  No temporary file is left, and every other name is
  as before except that missing directories on the way to the target now exist.
\<close>

theorem WriteFile_ok:
  assumes "WriteFile config content w = (Ok (), w')"
    and "proper_path (fc_Path config)" and "temp_free (fc_Path config) w"
  shows "lookup w' (fc_Path config) =
           Some (Reg content (fc_Mode config AND mode_mask AND NOT (w_umask w)) (final_owner config w) (final_group config w)) \<and>
         temp_free (fc_Path config) w' \<and>
         (\<forall>q. q \<noteq> fc_Path config \<longrightarrow>
            lookup w' q = lookup w q \<or> lookup w q = None \<and> lookup w' q = Some Dir \<and>
            q \<in> set (dir_chain (filepath_Dir (fc_Path config))))"
  using WriteFile_Ok_facts [OF assms] unfolding written_def created_mode_def .

text \<open>With the umask 077 the mode 0644 becomes 0600.\<close>

theorem WriteFile_ok_witness:
  "\<exists>w'. WriteFile (sample_fc\<lparr>fc_Mode := 0x1A4\<rparr>) ''new'' (sample_world\<lparr>w_umask := 0x3F\<rparr>) = (Ok (), w') \<and>
     lookup w' ''/out/pw'' = Some (Reg ''new'' 0x180 1000 0)"
proof -
  let ?fc = "sample_fc\<lparr>fc_Mode := 0x1A4\<rparr>" and ?w = "sample_world\<lparr>w_umask := 0x3F\<rparr>"
  obtain w' where r: "WriteFile ?fc ''new'' ?w = (Ok (), w')"
    using sample_run_any [of "''new''" "0x1A4" "0x3F"] by (metis prod.collapse sample_size)
  have p: "proper_path (fc_Path ?fc)" "temp_free (fc_Path ?fc) ?w"
    using sample_proper sample_free by (auto simp: temp_free_def lookup_def split: if_splits)
  have m: "(0x1A4 :: FileMode) AND mode_mask AND NOT (w_umask ?w) = 0x180" by code_simp
  have o: "final_owner ?fc ?w = 1000" "final_group ?fc ?w = 0" by code_simp+
  have "fc_Path ?fc = ''/out/pw''" "fc_Mode ?fc = 0x1A4" by (simp_all add: sample_fc_def)
  with WriteFile_ok [OF r p] r m o show ?thesis by auto
qed

lemma WriteFile_Err_facts:
  assumes "WriteFile config content w = (r, w')" and "r \<noteq> Ok ()"
    and "proper_path (fc_Path config)" and "temp_free (fc_Path config) w"
  shows "(\<exists>e. r = Err e) \<and>
         (\<exists>s. CHR ''/'' \<notin> set s \<and>
            (\<forall>q. q \<noteq> temp_name (fc_Path config) s \<longrightarrow>
               lookup w' q = lookup w q \<or> lookup w q = None \<and> lookup w' q = Some Dir \<and>
               q \<in> set (dir_chain (filepath_Dir (fc_Path config)))))"
  using assms(1,3,4)
proof (cases rule: WriteFile_run)
  case (before e s v)
  have "lookup w' q = lookup v q" if "q \<noteq> temp_name (fc_Path config) s" for q
    using only_touches_lookup [OF before(5)] that by simp
  moreover have "lookup v q = lookup w q \<or> lookup w q = None \<and> lookup v q = Some Dir \<and>
      q \<in> set (dir_chain (filepath_Dir (fc_Path config)))" for q
    using before(3) only_touches_lookup [OF before(4), of q] by (auto simp: only_new_dirs_def)
  ultimately show ?thesis using before(1,2) by metis
qed (use assms(2) in simp)

text \<open>C15: a failed write changes no file.  Whatever goes wrong, the call returns an error (it never
panics) and every name keeps its node, the target included; the only traces it can leave are new
directories and one temporary file beside the target.\<close>

theorem WriteFile_error:
  assumes "WriteFile config content w = (r, w')" and "r \<noteq> Ok ()"
    and "proper_path (fc_Path config)" and "temp_free (fc_Path config) w"
  shows "(\<exists>e. r = Err e) \<and>
         (\<exists>s. CHR ''/'' \<notin> set s \<and>
            (\<forall>q. q \<noteq> temp_name (fc_Path config) s \<longrightarrow>
               lookup w' q = lookup w q \<or> lookup w q = None \<and> lookup w' q = Some Dir \<and>
               q \<in> set (dir_chain (filepath_Dir (fc_Path config)))))"
  by (rule WriteFile_Err_facts [OF assms])

definition full_world :: world where
  "full_world = sample_world\<lparr>w_faults := [None, None, Some (EOTHER 28, 2)]\<rparr>"

lemma full_free: "temp_free (fc_Path sample_fc) full_world"
proof -
  have "w_nodes full_world = w_nodes sample_world" by (simp add: full_world_def)
  from lookup_nodes [OF this] sample_free show ?thesis by (simp add: temp_free_def)
qed

lemma full_run: "fst (WriteFile sample_fc ''new'' full_world) = Err (TempWriteFailed (EOTHER 28))"
proof -
  have v: "validatePath (fc_Path sample_fc) = Ok ()"
    by (simp add: validatePath_def sample_fc_def MaxPathLen_def filepath_IsAbs_def has_prefix_def backslash_def)
  have "fst (case validateFileType (fc_Path sample_fc) full_world of
               (Err e, w1) \<Rightarrow> (Err (InvalidFileType e), w1)
             | (Panic p, w1) \<Rightarrow> (Panic p, w1)
             | (Ok _, w1) \<Rightarrow>
                 (case ensureDir (filepath_Dir (fc_Path sample_fc)) w1 of
                    (Inl e, w2) \<Rightarrow> (Err (MkdirFailed e), w2)
                  | (Inr _, w2) \<Rightarrow>
                      (case randomString 8 w2 of (r, w3) \<Rightarrow>
                        let tmpFile = temp_name (fc_Path sample_fc) r in
                        (case fill_temp sample_fc ''new'' tmpFile w3 of
                           (Ok _, w4) \<Rightarrow> commit_temp tmpFile (fc_Path sample_fc) w4
                         | (Err e, w4) \<Rightarrow> (Err e, w4)
                         | (Panic p, w4) \<Rightarrow> (Panic p, w4))))) = Err (TempWriteFailed (EOTHER 28))"
    by code_simp
  then show ?thesis by (simp add: WriteFile_def v MaxSecretSize_def)
qed

theorem WriteFile_error_witness:
  "lookup (snd (WriteFile sample_fc ''new'' full_world)) ''/out/pw'' = Some (Reg ''old'' 0x180 0 0)"
proof -
  have "fst (WriteFile sample_fc ''new'' full_world) \<noteq> Ok ()" by (simp add: full_run)
  from WriteFile_error [OF prod.collapse [symmetric] this sample_proper full_free]
  obtain s where s: "\<forall>q. q \<noteq> temp_name (fc_Path sample_fc) s \<longrightarrow>
      lookup (snd (WriteFile sample_fc ''new'' full_world)) q = lookup full_world q \<or>
      lookup full_world q = None \<and> lookup (snd (WriteFile sample_fc ''new'' full_world)) q = Some Dir \<and>
      q \<in> set (dir_chain (filepath_Dir (fc_Path sample_fc)))"
    by blast
  have "''/out/pw'' \<noteq> temp_name (fc_Path sample_fc) s" by (simp add: temp_name_def sample_fc_def)
  moreover have "lookup full_world ''/out/pw'' = Some (Reg ''old'' 0x180 0 0)"
    by (simp add: full_world_def sample_world_def lookup_def)
  ultimately show ?thesis using s by fastforce
qed

section \<open>A write that can succeed does\<close>

text \<open>The directories on the way to a file exist or can be made.\<close>

definition way_clear :: "string \<Rightarrow> world \<Rightarrow> bool" where
  "way_clear p w \<longleftrightarrow> (\<forall>d \<in> set (dir_chain (filepath_Dir p)). lookup w d = None \<or> lookup w d = Some Dir)"

definition replaceable :: "string \<Rightarrow> world \<Rightarrow> bool" where
  "replaceable p w \<longleftrightarrow> lookup w p = None \<or> (\<exists>d m u g. lookup w p = Some (Reg d m u g))"

declare next_fault_none [simp] with_fault_none [simp]

lemma is_dirI: "lookup w d = Some Dir \<Longrightarrow> is_dir w d"
  by (simp add: is_dir_def follow_plain)

lemma mkdir_chain_succeeds:
  assumes "w_faults w = []" and "''/'' \<notin> set ds"
    and "\<forall>d \<in> set ds. lookup w d = None \<or> lookup w d = Some Dir"
  shows "\<exists>v. mkdir_chain ds w = (Inr (), v) \<and> w_faults v = [] \<and> (\<forall>d \<in> set ds. lookup v d = Some Dir)"
  using assms
proof (induction ds arbitrary: w)
  case Nil
  then show ?case by simp
next
  case (Cons d ds)
  have root: "d \<noteq> ''/''" "''/'' \<notin> set ds" using Cons.prems(2) by auto
  obtain v0 where v0: "mkdir_chain (d # ds) w = mkdir_chain ds v0" "w_faults v0 = []"
    "lookup v0 d = Some Dir" "\<forall>e \<in> set ds. lookup v0 e = None \<or> lookup v0 e = Some Dir"
  proof (cases "lookup w d = Some Dir")
    case True
    with Cons.prems that [of w] show thesis by (simp add: is_dirI)
  next
    case False
    with Cons.prems(3) have n: "lookup w d = None" by simp
    then have "\<not> is_dir w d" by (simp add: is_dir_def follow_plain)
    with n root Cons.prems that [of "put_node d Dir w"] show thesis by simp
  qed
  from Cons.IH [OF v0(2) root(2) v0(4)] obtain v
    where v: "mkdir_chain ds v0 = (Inr (), v)" "w_faults v = []" "\<forall>e \<in> set ds. lookup v e = Some Dir"
    by blast
  have "lookup v d = Some Dir"
    using mkdir_chain_new [OF v(1) root(2)] v0(3) unfolding only_new_dirs_def by metis
  with v v0(1) show ?case by simp
qed

lemma Dir_in_chain:
  assumes "proper_path p"
  shows "filepath_Dir p = ''/'' \<or> filepath_Dir p \<in> set (dir_chain (filepath_Dir p))"
proof -
  obtain es e where p: "p = render_path True (es @ [e])" and c: "clean_list True (es @ [e])"
    using assms by (rule proper_path_elems)
  have "es = [] \<or> render_path True es \<in> set (dir_chain (render_path True es))"
  proof (cases "es = []")
    case False
    then have "1 \<le> length es" by (cases es) auto
    then have "render_path True es \<in> {render_path True (take n es) | n. 1 \<le> n \<and> n \<le> length es}"
      by (intro CollectI exI [of _ "length es"]) simp
    moreover have "clean_list True es" using c by (simp add: clean_list_append)
    ultimately show ?thesis by (simp only: dir_chain_render simp_thms)
  qed simp
  then show ?thesis by (auto simp: p Dir_render [OF c] root_render)
qed

lemma Dir_proper_nonempty: "proper_path p \<Longrightarrow> filepath_Dir p \<noteq> [] \<and> filepath_Dir p \<noteq> ''.''"
proof -
  assume "proper_path p"
  then obtain es e where "p = render_path True (es @ [e])" and c: "clean_list True (es @ [e])"
    by (rule proper_path_elems)
  then have "filepath_Dir p = CHR ''/'' # join_with (CHR ''/'') es"
    using Dir_render [OF c] by (simp only: render_path_def if_True)
  then show ?thesis by simp
qed

lemma ensureDir_succeeds:
  assumes "w_faults w = []" and "proper_path p" and "way_clear p w"
  shows "\<exists>v. ensureDir (filepath_Dir p) w = (Inr (), v) \<and> w_faults v = [] \<and> is_dir v (filepath_Dir p) \<and>
             lookup v (filepath_Dir p) = Some Dir"
proof -
  have "''/'' \<notin> set (dir_chain (filepath_Dir p))" using proper_path_dir_chain(3) [OF assms(2), of "[]"] by simp
  from mkdir_chain_succeeds [OF assms(1) this] assms(3) obtain v
    where v: "mkdir_chain (dir_chain (filepath_Dir p)) w = (Inr (), v)" "w_faults v = []"
      "\<forall>d \<in> set (dir_chain (filepath_Dir p)). lookup v d = Some Dir"
    unfolding way_clear_def by blast
  have "lookup v (filepath_Dir p) = Some Dir"
    using Dir_in_chain [OF assms(2)] v(3) by (auto simp: lookup_def)
  with v Dir_proper_nonempty [OF assms(2)] show ?thesis
    by (auto simp: ensureDir_def os_MkdirAll_def is_dirI)
qed

lemma fill_temp_succeeds:
  assumes "w_faults w = []" and "lookup w t = None" and "t \<noteq> ''/''" and "lookup w (filepath_Dir t) = Some Dir"
  shows "\<exists>v. fill_temp config content t w = (Ok (), v) \<and> w_faults v = []"
proof -
  let ?n = "Reg [] (created_mode (fc_Mode config) w) (w_uid w) (w_gid w)"
  have f: "follow max_links w t = Some t" by (rule follow_plain) (simp add: assms(2))
  have o: "os_WriteFile t content (fc_Mode config) w = (Inr (), store_bytes t content (put_node t ?n w))"
    using assms by (simp add: os_WriteFile_def open_trunc_def write_close_def f is_dirI store_bytes_def)
  have fl: "follow max_links (store_bytes t content (put_node t ?n w)) t = Some t"
    by (rule follow_plain) (simp add: store_bytes_def assms(3))
  show ?thesis
    using assms(1,3) fl by (simp add: fill_temp_def o os_Chown_def store_bytes_def Let_def)
qed

lemma WriteFile_returns:
  assumes "w_faults w = []" and "length content \<le> 1048576" and "validatePath (fc_Path config) = Ok ()"
    and "proper_path (fc_Path config)" and "temp_free (fc_Path config) w"
    and "way_clear (fc_Path config) w" and "replaceable (fc_Path config) w"
  shows "\<exists>w'. WriteFile config content w = (Ok (), w')"
proof -
  let ?p = "fc_Path config"
  have ft: "validateFileType ?p w = (Ok (), w)"
    using assms(1,7) by (auto simp: validateFileType_def os_Lstat_def replaceable_def)
  obtain v where v: "ensureDir (filepath_Dir ?p) w = (Inr (), v)" "w_faults v = []"
    "lookup v (filepath_Dir ?p) = Some Dir"
    using ensureDir_succeeds [OF assms(1,4,6)] by blast
  obtain s u where rs: "randomString 8 v = (s, u)" by (cases "randomString 8 v")
  note rs1 = randomString_facts [OF rs]
  let ?t = "temp_name ?p s"
  note chain = proper_path_dir_chain [OF assms(4) rs1(1)]
  have uv: "lookup u q = lookup v q" for q by (rule lookup_nodes [OF rs1(3)])
  have fu: "w_faults u = []" using rs v(2) by (auto simp: randomString_def split: if_splits)
  note touched = only_touches_lookup [OF ensureDir_touches [OF v(1) chain(3)]]
  have t: "lookup u ?t = None" using uv touched [OF chain(2)] assms(5) rs1(1) by (simp add: temp_free_def)
  have p: "lookup u ?p \<noteq> Some Dir" using uv touched [OF chain(1)] assms(7) by (auto simp: replaceable_def)
  obtain x where x: "fill_temp config content ?t u = (Ok (), x)" "w_faults x = []"
    using fill_temp_succeeds [OF fu t chain(6), of config content] uv v(3) chain(4) by auto
  note xf = fill_temp_facts [OF x(1) t chain(6)]
  have "filepath_Dir ?p \<noteq> ?t" using t uv v(3) by auto
  then have "lookup x (filepath_Dir ?p) = Some Dir"
    using only_touches_lookup [OF xf(1)] uv v(3) by simp
  moreover have "lookup x ?p \<noteq> Some Dir" using only_touches_lookup [OF xf(1)] p chain(5) by simp
  ultimately have "\<exists>w'. commit_temp ?t ?p x = (Ok (), w')"
    using xf(2) x(2) chain(5) by (simp add: commit_temp_def os_Rename_def is_dirI)
  then show ?thesis
    using assms(2,3) ft v(1) rs x(1) by (simp add: WriteFile_def MaxSecretSize_def Let_def)
qed

text \<open>C26: a write that can succeed does.  If the operating system reports no failure, the content is
at most one MiB, the path passes its checks, its directories exist or can be made and the target
is absent or a regular file, then \<open>WriteFile\<close> returns without an error.\<close>

theorem WriteFile_succeeds:
  assumes "w_faults w = []" and "length content \<le> 1048576" and "validatePath (fc_Path config) = Ok ()"
    and "proper_path (fc_Path config)" and "temp_free (fc_Path config) w"
    and "way_clear (fc_Path config) w" and "replaceable (fc_Path config) w"
  shows "\<exists>w'. WriteFile config content w = (Ok (), w')"
  by (rule WriteFile_returns [OF assms])

theorem WriteFile_succeeds_witness:
  "\<exists>w'. WriteFile sample_fc ''new'' sample_world = (Ok (), w')"
proof (rule WriteFile_succeeds)
  show "validatePath (fc_Path sample_fc) = Ok ()"
    by (simp add: validatePath_def sample_fc_def MaxPathLen_def filepath_IsAbs_def has_prefix_def backslash_def)
  have "dir_chain (filepath_Dir (fc_Path sample_fc)) = [''/out'']" by code_simp
  then show "way_clear (fc_Path sample_fc) sample_world"
    by (simp add: way_clear_def sample_world_def lookup_def)
qed (simp_all add: sample_proper sample_free replaceable_def,
     simp_all add: sample_world_def lookup_def sample_fc_def)

end
