(* ===== verification/Cleanup.thy ===== *)
theory Cleanup
  imports Writer_Theorems "HOL-Library.List_Lexorder" "HOL-Library.Char_ord"
begin

text \<open>
  \<open>internal/filewriter/cleanup.go\<close>: the removal of temporary files that an earlier run left in the output
  directories.  \<open>filepath.Glob\<close> on a directory whose name has no pattern character lists the
  directory and keeps the names that match \<open>*.tmp.*\<close>, which are those that contain \<open>.tmp.\<close>; for a
  directory name with pattern characters the result is the argument \<open>glob\<close> (\<open>None\<close> is a bad pattern).
\<close>

section \<open>The sweep\<close>

definition has_meta :: "string \<Rightarrow> bool" where
  "has_meta s \<longleftrightarrow> (\<exists>c \<in> set s. c \<in> {CHR ''*'', CHR ''?'', CHR ''['', CHR 0x5C})"

definition os_Readdirnames :: "string \<Rightarrow> string list sys" where
  "os_Readdirnames d = with_fault (\<lambda>w.
     (case follow max_links w d of
        None \<Rightarrow> (Inl ELOOP, w)
      | Some q \<Rightarrow> (Inr (map filepath_Base (dir_entries w q)), w)))"

definition filepath_Glob_tmp ::
  "(string \<Rightarrow> world \<Rightarrow> string list option) \<Rightarrow> string \<Rightarrow> world \<Rightarrow> string list option \<times> world" where
  "filepath_Glob_tmp glob dir w =
     (if has_meta dir then (glob (path_Join [dir, ''*.tmp.*'']) w, w)
      else (case os_Stat_call dir w of
          (Inl _, w1) \<Rightarrow> (Some [], w1)
        | (Inr n, w1) \<Rightarrow>
            (if n \<noteq> Dir then (Some [], w1)
             else (case os_Readdirnames dir w1 of
                 (Inl _, w2) \<Rightarrow> (Some [], w2)
               | (Inr names, w2) \<Rightarrow>
                   (Some (map (\<lambda>n. path_Join [dir, n])
                      (filter (\<lambda>n. contains_str n ''.tmp.'') (sort names))), w2)))))"

text \<open>A file that cannot be removed is logged and skipped; the count is of the removed ones.\<close>

fun remove_matches :: "string list \<Rightarrow> nat \<Rightarrow> world \<Rightarrow> nat \<times> world" where
  "remove_matches [] cleaned w = (cleaned, w)"
| "remove_matches (f # fs) cleaned w =
     (case os_Remove f w of
        (Inl _, w') \<Rightarrow> remove_matches fs cleaned w'
      | (Inr _, w') \<Rightarrow> remove_matches fs (Suc cleaned) w')"

definition clean_dir ::
  "(string \<Rightarrow> world \<Rightarrow> string list option) \<Rightarrow> string \<Rightarrow> nat \<Rightarrow> world \<Rightarrow> nat \<times> world" where
  "clean_dir glob dir cleaned w =
     (if dir = [] then (cleaned, w)
      else (case os_Stat_call dir w of
          (Inl ENOENT, w1) \<Rightarrow> (cleaned, w1)
        | (_, w1) \<Rightarrow>
            (case filepath_Glob_tmp glob dir w1 of
               (None, w2) \<Rightarrow> (cleaned, w2)
             | (Some matches, w2) \<Rightarrow> remove_matches matches cleaned w2)))"

fun clean_dirs ::
  "(string \<Rightarrow> world \<Rightarrow> string list option) \<Rightarrow> string list \<Rightarrow> nat \<Rightarrow> world \<Rightarrow> nat \<times> world" where
  "clean_dirs glob [] cleaned w = (cleaned, w)"
| "clean_dirs glob (d # ds) cleaned w =
     (case clean_dir glob d cleaned w of (k, w') \<Rightarrow> clean_dirs glob ds k w')"

text \<open>The function itself always returns a nil error; its result here is the number it logs.\<close>

definition CleanupOrphanedTempFiles ::
  "(string \<Rightarrow> world \<Rightarrow> string list option) \<Rightarrow> string list \<Rightarrow> world \<Rightarrow> nat \<times> world" where
  "CleanupOrphanedTempFiles glob outputDirs w = clean_dirs glob outputDirs 0 w"

text \<open>
  \<open>GetOutputDirectories\<close> returns the keys of a map, in no particular order; here they come in the
  order of their first occurrence, and what follows is proved for every order.
\<close>

definition GetOutputDirectories :: "string list \<Rightarrow> string list" where
  "GetOutputDirectories filePaths = remdups (map filepath_Dir (filter (\<lambda>p. p \<noteq> []) filePaths))"

lemma GetOutputDirectories_set:
  "set (GetOutputDirectories ps) = {filepath_Dir p | p. p \<in> set ps \<and> p \<noteq> []}"
  by (auto simp: GetOutputDirectories_def)

section \<open>What a sweep removes\<close>

lemma Join_Dir_Base:
  assumes "proper_path p"
  shows "path_Join [filepath_Dir p, filepath_Base p] = p"
proof -
  obtain es e where p: "p = render_path True (es @ [e])" and c: "clean_list True (es @ [e])"
    using assms by (rule proper_path_elems)
  have e: "CHR ''/'' \<notin> set e" using c by (simp add: clean_list_append plain_elem_def)
  have "split_on (CHR ''/'') (render_path True es @ CHR ''/'' # e) = split_on (CHR ''/'') (render_path True es) @ [e]"
  proof -
    have "split_on (CHR ''/'') (s @ CHR ''/'' # e) = split_on (CHR ''/'') s @ [e]" for s
      using e by (induction s) (auto simp: split_on_single split: list.splits)
    then show ?thesis .
  qed
  then have "clean_elems True (split_on (CHR ''/'') (render_path True es @ CHR ''/'' # e)) = es @ [e]"
    using split_render [of True es] c clean_elems_id [OF c]
    by (simp add: clean_list_append clean_elems_def plain_elem_def)
  moreover have "filepath_IsAbs (render_path True es @ CHR ''/'' # e)" by (simp add: render_path_def)
  ultimately have "path_Clean (render_path True es @ CHR ''/'' # e) = p" by (simp add: path_Clean_def p)
  then show ?thesis
    by (simp add: path_Join_def p Dir_render [OF c] Base_render [OF c]) (simp add: render_path_def)
qed

text \<open>A disk whose names are proper paths.\<close>

definition proper_disk :: "world \<Rightarrow> bool" where
  "proper_disk w \<longleftrightarrow> (\<forall>p \<in> set (keys (w_nodes w)). proper_path p)"

text \<open>A sweep only removes nodes.\<close>

definition only_removes :: "string set \<Rightarrow> world \<Rightarrow> world \<Rightarrow> bool" where
  "only_removes P w w' \<longleftrightarrow>
     (\<forall>q. lookup w' q = lookup w q \<or> q \<in> P \<and> lookup w' q = None) \<and>
     set (keys (w_nodes w')) \<subseteq> set (keys (w_nodes w)) \<and> (w_faults w = [] \<longrightarrow> w_faults w' = [])"

lemma only_removes_refl [simp]: "only_removes P w w"
  by (simp add: only_removes_def)

lemma only_removes_mono: "only_removes P w v \<Longrightarrow> P \<subseteq> Q \<Longrightarrow> only_removes Q w v"
  unfolding only_removes_def by blast

lemma only_removes_trans [trans]: "only_removes P w v \<Longrightarrow> only_removes P v u \<Longrightarrow> only_removes P w u"
  unfolding only_removes_def by (metis (no_types, lifting) subset_trans)

lemma only_removes_same:
  "w_nodes v = w_nodes w \<Longrightarrow> (w_faults w = [] \<longrightarrow> w_faults v = []) \<Longrightarrow> only_removes P w v"
  by (simp add: only_removes_def lookup_def)

lemma only_removes_None: "only_removes P w v \<Longrightarrow> lookup w q = None \<Longrightarrow> lookup v q = None"
  unfolding only_removes_def by metis

lemma keys_delete: "keys (AList.delete p m) = filter (\<lambda>k. k \<noteq> p) (keys m)"
  by (induction m) auto

lemma next_fault_faults: "next_fault w = (f, v) \<Longrightarrow> w_faults w = [] \<Longrightarrow> w_faults v = []"
  by (simp add: next_fault_def)

lemma with_fault_only_removes:
  assumes "with_fault f w = (r, v)" and "\<And>u. w_nodes u = w_nodes w \<Longrightarrow> f u = (r, v) \<Longrightarrow> only_removes P u v"
  shows "only_removes P w v"
proof -
  obtain g u where n: "next_fault w = (g, u)" by (cases "next_fault w")
  have s: "only_removes P w u"
    using next_fault_nodes [OF n] next_fault_faults [OF n] by (auto intro: only_removes_same)
  show ?thesis
  proof (cases g)
    case None
    with assms(1) n have "f u = (r, v)" by (simp add: with_fault_def)
    with assms(2) next_fault_nodes [OF n] have "only_removes P u v" by blast
    with s show ?thesis by (rule only_removes_trans)
  next
    case (Some x)
    with assms(1) n s show ?thesis by (cases x) (simp add: with_fault_def)
  qed
qed

lemma os_Remove_removes:
  assumes "os_Remove p w = (r, v)"
  shows "only_removes {p} w v"
  using assms unfolding os_Remove_def
proof (rule with_fault_only_removes)
  fix u assume "(case lookup u p of None \<Rightarrow> (Inl ENOENT, u)
      | Some n \<Rightarrow> if n = Dir \<and> (p = ''/'' \<or> dir_entries u p \<noteq> []) then (Inl ENOTEMPTY, u)
                 else (Inr (), del_node p u)) = (r, v)"
  moreover have "only_removes {p} u (del_node p u)" if "p \<noteq> ''/''"
    using that by (auto simp: only_removes_def keys_delete del_node_def set_nodes_def lookup_def delete_conv')
  moreover have "lookup u ''/'' = Some Dir" by (simp add: lookup_def)
  ultimately show "only_removes {p} u v" by (cases "p = ''/''") (auto split: option.splits if_splits)
qed

lemma os_Remove_works:
  assumes "w_faults w = []" and "lookup w p \<noteq> Some Dir" and "os_Remove p w = (r, v)"
  shows "lookup v p = None"
proof (cases "lookup w p")
  case None
  with only_removes_None [OF os_Remove_removes [OF assms(3)]] show ?thesis by blast
next
  case (Some n)
  with assms have "v = del_node p w" "p \<noteq> ''/''" by (auto simp: os_Remove_def lookup_def)
  then show ?thesis by simp
qed

lemma remove_matches_removes: "only_removes (set fs) w (snd (remove_matches fs k w))"
proof (induction fs arbitrary: k w)
  case Nil
  then show ?case by simp
next
  case (Cons f fs)
  obtain r v where r: "os_Remove f w = (r, v)" by (cases "os_Remove f w")
  have "only_removes (set (f # fs)) w (snd (remove_matches fs j v))" for j
  proof (rule only_removes_trans)
    show "only_removes (set (f # fs)) w v"
      using os_Remove_removes [OF r] by (rule only_removes_mono) simp
    show "only_removes (set (f # fs)) v (snd (remove_matches fs j v))"
      using Cons.IH by (rule only_removes_mono) auto
  qed
  with r show ?case by (simp split: sum.split)
qed

text \<open>The names a sweep of directory \<open>d\<close> is after.\<close>

definition stale :: "string \<Rightarrow> string \<Rightarrow> bool" where
  "stale d p \<longleftrightarrow> filepath_Dir p = d \<and> contains_str (filepath_Base p) ''.tmp.''"

lemma remove_matches_works:
  assumes "w_faults w = []" and "p \<in> set fs" and "lookup w p \<noteq> Some Dir"
  shows "lookup (snd (remove_matches fs k w)) p = None"
  using assms
proof (induction fs arbitrary: k w)
  case Nil
  then show ?case by simp
next
  case (Cons f fs)
  obtain r v where r: "os_Remove f w = (r, v)" by (cases "os_Remove f w")
  note rem = os_Remove_removes [OF r]
  have goal: "lookup (snd (remove_matches fs j v)) p = None" for j
  proof (cases "f = p")
    case True
    with os_Remove_works [OF Cons.prems(1) _ r] Cons.prems(3) have "lookup v p = None" by simp
    then show ?thesis by (rule only_removes_None [OF remove_matches_removes])
  next
    case False
    have "w_faults v = []" "lookup v p \<noteq> Some Dir"
      using rem Cons.prems(1,3) unfolding only_removes_def by (blast, metis option.distinct(1))
    with False Cons show ?thesis by simp
  qed
  with r show ?case by (simp split: sum.split)
qed

text \<open>The names listed in a directory, as the glob returns them, are its stale entries.\<close>

lemma glob_matches:
  assumes "proper_disk w"
  shows "set (map (\<lambda>n. path_Join [d, n])
           (filter (\<lambda>n. contains_str n ''.tmp.'') (sort (map filepath_Base (dir_entries w d))))) =
         {p \<in> set (keys (w_nodes w)). stale d p \<and> p \<noteq> d}"
proof -
  have j: "path_Join [d, filepath_Base p] = p" if "p \<in> set (dir_entries w d)" for p
    using Join_Dir_Base [of p] assms that by (auto simp: dir_entries_def proper_disk_def)
  have "set (map (\<lambda>n. path_Join [d, n])
           (filter (\<lambda>n. contains_str n ''.tmp.'') (sort (map filepath_Base (dir_entries w d))))) =
        (\<lambda>p. path_Join [d, filepath_Base p]) ` {p \<in> set (dir_entries w d). contains_str (filepath_Base p) ''.tmp.''}"
    by auto
  also have "\<dots> = {p \<in> set (dir_entries w d). contains_str (filepath_Base p) ''.tmp.''}"
    using j by (force simp: image_iff)
  finally show ?thesis by (auto simp: dir_entries_def stale_def)
qed

lemma proper_disk_removes: "proper_disk w \<Longrightarrow> only_removes P w v \<Longrightarrow> proper_disk v"
  by (auto simp: proper_disk_def only_removes_def)

lemma os_Stat_call_same:
  "os_Stat_call d w = (r, v) \<Longrightarrow> w_nodes v = w_nodes w \<and> (w_faults w = [] \<longrightarrow> w_faults v = [])"
  by (auto simp: os_Stat_call_def with_fault_def next_fault_def split: list.splits option.splits prod.splits)

lemma os_Readdirnames_same:
  "os_Readdirnames d w = (r, v) \<Longrightarrow> w_nodes v = w_nodes w \<and> (w_faults w = [] \<longrightarrow> w_faults v = [])"
  by (auto simp: os_Readdirnames_def with_fault_def next_fault_def split: list.splits option.splits prod.splits)

lemma follow_dir: "lookup w d = Some Dir \<Longrightarrow> follow max_links w d = Some d"
  by (simp add: follow_plain)

lemma Readdirnames_dir:
  assumes "os_Readdirnames d w = (y, v)" and "lookup w d = Some Dir"
  shows "y = Inr (map filepath_Base (dir_entries w d)) \<or> (\<exists>e. y = Inl e) \<and> w_faults w \<noteq> []"
proof -
  obtain g w1 where n: "next_fault w = (g, w1)" by (cases "next_fault w")
  note nodes = next_fault_nodes [OF n]
  show ?thesis
  proof (cases g)
    case None
    have "lookup w1 d = Some Dir" using lookup_nodes [OF nodes] assms(2) by simp
    with None n assms(1) nodes show ?thesis
      by (simp add: os_Readdirnames_def with_fault_def follow_dir dir_entries_def)
  next
    case (Some x)
    have "w_faults w \<noteq> []" using n Some by (auto simp: next_fault_def)
    with Some n assms(1) show ?thesis
      by (cases x) (auto simp: os_Readdirnames_def with_fault_def)
  qed
qed

text \<open>One directory.  The glob result lists stale names; if nothing fails it lists all of them.\<close>

lemma Glob_tmp_stale:
  assumes "filepath_Glob_tmp glob d w = (Some ms, v)" and "\<not> has_meta d"
    and "proper_disk w" and "lookup w d = Some Dir"
  shows "w_nodes v = w_nodes w \<and> (w_faults w = [] \<longrightarrow> w_faults v = []) \<and>
         set ms \<subseteq> {p \<in> set (keys (w_nodes w)). stale d p \<and> p \<noteq> d} \<and>
         (w_faults w = [] \<longrightarrow> set ms = {p \<in> set (keys (w_nodes w)). stale d p \<and> p \<noteq> d})"
proof -
  obtain x w1 where st: "os_Stat_call d w = (x, w1)" by (cases "os_Stat_call d w")
  note st1 = os_Stat_call_same [OF st]
  have stat_ok: "x = Inr Dir" if "w_faults w = []"
    using st that assms(4) by (simp add: os_Stat_call_def follow_dir)
  show ?thesis
  proof (cases "x = Inr Dir")
    case False
    with assms(1,2) st have "ms = []" "v = w1"
      by (cases x; simp add: filepath_Glob_tmp_def)+
    moreover have "w_faults w \<noteq> []" using False stat_ok by blast
    ultimately show ?thesis using st1 by simp
  next
    case True
    obtain y w2 where rd: "os_Readdirnames d w1 = (y, w2)" by (cases "os_Readdirnames d w1")
    note rd1 = os_Readdirnames_same [OF rd]
    have l1: "lookup w1 d = Some Dir" using lookup_nodes [of w1 w] st1 assms(4) by simp
    have e: "dir_entries w1 d = dir_entries w d" using st1 by (simp add: dir_entries_def)
    have rd_ok: "y = Inr (map filepath_Base (dir_entries w d)) \<or> (\<exists>e. y = Inl e) \<and> w_faults w1 \<noteq> []"
      using Readdirnames_dir [OF rd l1] unfolding e .
    show ?thesis
    proof (cases y)
      case (Inl a)
      with assms(1,2) st True rd have "ms = []" "v = w2" by (simp_all add: filepath_Glob_tmp_def)
      moreover have "w_faults w \<noteq> []" using Inl rd_ok st1 by auto
      ultimately show ?thesis using st1 rd1 by simp
    next
      case (Inr ns)
      with rd_ok have "ns = map filepath_Base (dir_entries w d)" by auto
      with assms(1,2) st True rd Inr have
        "ms = map (\<lambda>n. path_Join [d, n])
           (filter (\<lambda>n. contains_str n ''.tmp.'') (sort (map filepath_Base (dir_entries w d))))" "v = w2"
        by (simp_all add: filepath_Glob_tmp_def)
      with st1 rd1 show ?thesis using glob_matches [OF assms(3), of d] by simp
    qed
  qed
qed

lemma os_Stat_call_missing:
  assumes "lookup w d = None" and "os_Stat_call d w = (r, v)"
  shows "\<exists>e. r = Inl e"
  using assms(2) unfolding os_Stat_call_def
proof (cases rule: with_fault_cases)
  case (run w1)
  have l: "lookup w1 d = None" using lookup_nodes [OF run(3)] assms(1) by simp
  then have "follow max_links w1 d = Some d" by (simp add: follow_plain)
  with run(1) l show ?thesis by auto
qed blast

lemma clean_dir_removes:
  assumes "proper_disk w" and "\<not> has_meta d" and "lookup w d = Some Dir \<or> lookup w d = None"
  shows "only_removes {p. stale d p} w (snd (clean_dir glob d k w))"
proof -
  obtain x w1 where st: "os_Stat_call d w = (x, w1)" by (cases "os_Stat_call d w")
  note st1 = os_Stat_call_same [OF st]
  have r1: "only_removes {p. stale d p} w w1" using st1 by (auto intro: only_removes_same)
  obtain ms w2 where g: "filepath_Glob_tmp glob d w1 = (ms, w2)" by (cases "filepath_Glob_tmp glob d w1")
  have r2: "only_removes {p. stale d p} w1
      (snd (case ms of None \<Rightarrow> (k, w2) | Some matches \<Rightarrow> remove_matches matches k w2))"
  proof (cases "ms = None \<or> ms = Some []")
    case True
    have "w_nodes w2 = w_nodes w1 \<and> (w_faults w1 = [] \<longrightarrow> w_faults w2 = [])"
      using g assms(2) by (auto simp: filepath_Glob_tmp_def split: prod.splits sum.splits if_splits
          dest!: os_Stat_call_same os_Readdirnames_same)
    with True show ?thesis by (auto intro: only_removes_same)
  next
    case False
    then obtain m ms' where ms: "ms = Some (m # ms')" by (cases ms) (auto simp: neq_Nil_conv)
    have l1: "lookup w1 d = Some Dir"
    proof (rule ccontr)
      assume n: "lookup w1 d \<noteq> Some Dir"
      with assms(3) st1 lookup_nodes [of w1 w d] have "lookup w1 d = None" by auto
      then obtain e u where "os_Stat_call d w1 = (Inl e, u)"
        using os_Stat_call_missing by (metis prod.collapse)
      with g assms(2) ms show False by (simp add: filepath_Glob_tmp_def)
    qed
    have "proper_disk w1" using assms(1) st1 by (simp add: proper_disk_def)
    note g1 = Glob_tmp_stale [OF g [unfolded ms] assms(2) this l1]
    have "only_removes {p. stale d p} w1 w2" using g1 by (auto intro: only_removes_same)
    also have "only_removes {p. stale d p} w2 (snd (remove_matches (m # ms') k w2))"
      by (rule only_removes_mono [OF remove_matches_removes]) (use g1 in auto)
    finally show ?thesis using ms by simp
  qed
  show ?thesis
  proof (cases "d = [] \<or> x = Inl ENOENT")
    case True
    with st r1 show ?thesis by (auto simp: clean_dir_def)
  next
    case False
    then have "snd (clean_dir glob d k w) =
        snd (case ms of None \<Rightarrow> (k, w2) | Some matches \<Rightarrow> remove_matches matches k w2)"
      using st g by (auto simp: clean_dir_def split: sum.split errno.split option.split)
    with only_removes_trans [OF r1 r2] show ?thesis by simp
  qed
qed

lemma clean_dir_works:
  assumes "w_faults w = []" and "proper_disk w" and "\<not> has_meta d" and "d \<noteq> []"
    and "lookup w d = Some Dir" and "stale d p" and "p \<noteq> d" and "lookup w p \<noteq> Some Dir"
  shows "lookup (snd (clean_dir glob d k w)) p = None"
proof -
  have st: "os_Stat_call d w = (Inr Dir, w)"
    using assms(1,5) by (simp add: os_Stat_call_def follow_dir)
  have "os_Readdirnames d w = (Inr (map filepath_Base (dir_entries w d)), w)"
    using assms(1,5) by (simp add: os_Readdirnames_def follow_dir)
  with st assms(3) obtain ms where g: "filepath_Glob_tmp glob d w = (Some ms, w)"
    by (simp add: filepath_Glob_tmp_def)
  note g1 = Glob_tmp_stale [OF g assms(3,2,5)]
  have "snd (clean_dir glob d k w) = snd (remove_matches ms k w)"
    using assms(4) st g by (simp add: clean_dir_def)
  moreover have "lookup (snd (remove_matches ms k w)) p = None"
  proof (cases "lookup w p")
    case None
    then show ?thesis by (rule only_removes_None [OF remove_matches_removes])
  next
    case (Some n)
    with assms(8) have "p \<in> set (keys (w_nodes w))"
      by (metis lookup_def map_of_None_keys option.distinct(1))
    with g1 assms(1,6,7) have "p \<in> set ms" by simp
    with assms(1,8) show ?thesis by (intro remove_matches_works)
  qed
  ultimately show ?thesis by simp
qed

text \<open>The directories of the configured files: none has pattern characters or is itself a stale name.\<close>

definition plain_dirs :: "string list \<Rightarrow> world \<Rightarrow> bool" where
  "plain_dirs ds w \<longleftrightarrow>
     (\<forall>d \<in> set ds. d \<noteq> [] \<and> \<not> has_meta d \<and> (\<forall>e \<in> set ds. \<not> stale e d) \<and> lookup w d = Some Dir)"

lemma plain_dirs_Cons: "plain_dirs (d # ds) w \<Longrightarrow> plain_dirs ds w"
  by (simp add: plain_dirs_def)

lemma plain_dirs_step:
  assumes "plain_dirs (d # ds) w" and "only_removes {p. stale d p} w v"
  shows "plain_dirs ds v"
  using assms unfolding plain_dirs_def only_removes_def
  by (metis (no_types, lifting) list.set_intros mem_Collect_eq)

lemma clean_dirs_removes:
  "proper_disk w \<Longrightarrow> plain_dirs ds w \<Longrightarrow>
   only_removes {p. \<exists>d \<in> set ds. stale d p} w (snd (clean_dirs glob ds k w))"
proof (induction ds arbitrary: k w)
  case Nil
  then show ?case by simp
next
  case (Cons d ds)
  obtain j v where c: "clean_dir glob d k w = (j, v)" by (cases "clean_dir glob d k w")
  have r: "only_removes {p. stale d p} w v"
    using clean_dir_removes [OF Cons.prems(1), of d glob k] Cons.prems(2) c by (simp add: plain_dirs_def)
  have "only_removes {p. \<exists>e \<in> set (d # ds). stale e p} w v"
    by (rule only_removes_mono [OF r]) auto
  moreover have "only_removes {p. \<exists>e \<in> set (d # ds). stale e p} v (snd (clean_dirs glob ds j v))"
    by (rule only_removes_mono [OF Cons.IH [OF proper_disk_removes [OF Cons.prems(1) r]
          plain_dirs_step [OF Cons.prems(2) r]]]) auto
  ultimately show ?case using c only_removes_trans by simp
qed

lemma clean_dirs_works:
  assumes "w_faults w = []" and "proper_disk w" and "plain_dirs ds w"
    and "d \<in> set ds" and "stale d p" and "p \<noteq> d" and "lookup w p \<noteq> Some Dir"
  shows "lookup (snd (clean_dirs glob ds k w)) p = None"
  using assms
proof (induction ds arbitrary: k w)
  case Nil
  then show ?case by simp
next
  case (Cons e ds)
  obtain j v where c: "clean_dir glob e k w = (j, v)" by (cases "clean_dir glob e k w")
  have e: "\<not> has_meta e" "e \<noteq> []" "lookup w e = Some Dir" using Cons.prems(3) by (auto simp: plain_dirs_def)
  have r: "only_removes {p. stale e p} w v"
    using clean_dir_removes [OF Cons.prems(2) e(1), of glob k] e c by simp
  note v = proper_disk_removes [OF Cons.prems(2) r] plain_dirs_step [OF Cons.prems(3) r]
  have "lookup (snd (clean_dirs glob ds j v)) p = None"
  proof (cases "e = d")
    case True
    have "lookup v p = None"
      using clean_dir_works [OF Cons.prems(1,2) e Cons.prems(5) [folded True] _ Cons.prems(7), of glob k] Cons.prems(6) c True by simp
    then show ?thesis by (rule only_removes_None [OF clean_dirs_removes [OF v]])
  next
    case False
    have f: "w_faults v = []" using r Cons.prems(1) by (simp add: only_removes_def)
    have p: "lookup v p \<noteq> Some Dir" using r Cons.prems(7) unfolding only_removes_def by (metis option.distinct(1))
    have "d \<in> set ds" using Cons.prems(4) False by simp
    then show ?thesis by (rule Cons.IH [OF f v _ Cons.prems(5,6) p])
  qed
  with c show ?case by simp
qed

section \<open>The sweep and the writer\<close>

lemma temp_name_stale:
  assumes "proper_path p" and "CHR ''/'' \<notin> set r"
  shows "stale (filepath_Dir p) (temp_name p r)" and "temp_name p r \<noteq> filepath_Dir p"
proof -
  note t = proper_path_dir_chain [OF assms]
  show "stale (filepath_Dir p) (temp_name p r)" 
    unfolding stale_def t(4,7) using contains_str_append by blast
  show "temp_name p r \<noteq> filepath_Dir p"
    using t(2,6) Dir_in_chain [OF assms(1)] by metis
qed

text \<open>
  C31: the sweep at start-up makes room for the writer.  Run over the directories of the output files,
  in whatever order, it removes nothing but names that contain \<open>.tmp.\<close> in those directories, and
  afterwards every name the writer may pick for a temporary file of an output path is free.
\<close>

theorem cleanup_frees_temp_names:
  assumes "w_faults w = []" and "proper_disk w" and "set dirs = set (GetOutputDirectories paths)"
    and "plain_dirs dirs w"
  shows "(\<forall>q. lookup (snd (CleanupOrphanedTempFiles glob dirs w)) q = lookup w q \<or>
              (\<exists>p \<in> set paths. stale (filepath_Dir p) q) \<and>
              lookup (snd (CleanupOrphanedTempFiles glob dirs w)) q = None) \<and>
         (\<forall>p \<in> set paths. proper_path p \<longrightarrow> (\<forall>r. lookup w (temp_name p r) \<noteq> Some Dir) \<longrightarrow>
            temp_free p (snd (CleanupOrphanedTempFiles glob dirs w)))"
proof (intro conjI ballI impI)
  have "only_removes {p. \<exists>d \<in> set dirs. stale d p} w (snd (CleanupOrphanedTempFiles glob dirs w))"
    unfolding CleanupOrphanedTempFiles_def by (rule clean_dirs_removes [OF assms(2,4)])
  moreover have "\<exists>p \<in> set paths. stale (filepath_Dir p) q" if "d \<in> set dirs" "stale d q" for d q
    using that assms(3) by (auto simp: GetOutputDirectories_set)
  ultimately show "\<forall>q. lookup (snd (CleanupOrphanedTempFiles glob dirs w)) q = lookup w q \<or>
              (\<exists>p \<in> set paths. stale (filepath_Dir p) q) \<and>
              lookup (snd (CleanupOrphanedTempFiles glob dirs w)) q = None"
    unfolding only_removes_def by blast
next
  fix p assume p: "p \<in> set paths" "proper_path p" "\<forall>r. lookup w (temp_name p r) \<noteq> Some Dir"
  have d: "filepath_Dir p \<in> set dirs"
    using assms(3) p(1,2) by (auto simp: GetOutputDirectories_set proper_path_def filepath_IsAbs_def has_prefix_def)
  show "temp_free p (snd (CleanupOrphanedTempFiles glob dirs w))"
    unfolding temp_free_def CleanupOrphanedTempFiles_def
    using clean_dirs_works [OF assms(1,2,4) d] temp_name_stale [OF p(2)] p(3) by blast
qed

definition stale_world :: world where
  "stale_world = sample_world\<lparr>w_nodes := (''/out/pw.tmp.abcdefgh'', Reg ''le'' 0x180 0 0) # w_nodes sample_world\<rparr>"

lemma stale_world_facts:
  "w_faults stale_world = []" "proper_disk stale_world" "plain_dirs [''/out''] stale_world"
  by code_simp+

theorem cleanup_frees_temp_names_witness:
  "lookup stale_world ''/out/pw.tmp.abcdefgh'' \<noteq> None \<and>
   temp_free ''/out/pw'' (snd (CleanupOrphanedTempFiles (\<lambda>_ _. None) [''/out''] stale_world))"
proof -
  have dirs: "set [''/out''] = set (GetOutputDirectories [''/out/pw''])" by code_simp
  have nd: "\<forall>r. lookup stale_world (temp_name ''/out/pw'' r) \<noteq> Some Dir"
    by (simp add: lookup_def stale_world_def sample_world_def temp_name_def)
  have "proper_path ''/out/pw''" by code_simp
  with cleanup_frees_temp_names [OF stale_world_facts(1,2) dirs stale_world_facts(3), of "\<lambda>_ _. None"] nd
  show ?thesis by (simp add: lookup_def stale_world_def sample_world_def)
qed

text \<open>
  C34: a sweep that runs while a write is in progress destroys it.  If the sweep of the target's
  directory comes between the writing of the temporary file and its renaming, the rename fails because its
  source is gone, and the write reports an error.
\<close>

theorem sweep_breaks_write_in_progress:
  assumes "fill_temp config content (temp_name (fc_Path config) r) w = (Ok (), v)"
    and "proper_path (fc_Path config)" and "CHR ''/'' \<notin> set r" and "lookup w (temp_name (fc_Path config) r) = None"
    and "w_faults v = []" and "proper_disk v" and "plain_dirs dirs v" and "filepath_Dir (fc_Path config) \<in> set dirs"
    and "lookup v (fc_Path config) \<noteq> Some Dir"
  shows "fst (commit_temp (temp_name (fc_Path config) r) (fc_Path config)
                (snd (CleanupOrphanedTempFiles glob dirs v))) = Err (RenameFailed ENOENT)"
proof -
  let ?t = "temp_name (fc_Path config) r" and ?u = "snd (CleanupOrphanedTempFiles glob dirs v)"
  have "lookup v ?t \<noteq> Some Dir"
    using fill_temp_facts(2) [OF assms(1,4) proper_path_dir_chain(6) [OF assms(2,3)]] by auto
  then have gone: "lookup ?u ?t = None"
    unfolding CleanupOrphanedTempFiles_def
    by (rule clean_dirs_works [OF assms(5-8) temp_name_stale [OF assms(2,3)]])
  have r: "only_removes {p. \<exists>d \<in> set dirs. stale d p} v ?u"
    unfolding CleanupOrphanedTempFiles_def by (rule clean_dirs_removes [OF assms(6,7)])
  then have "w_faults ?u = []" using assms(5) by (simp add: only_removes_def)
  moreover have "lookup ?u (fc_Path config) \<noteq> Some Dir"
    using r assms(9) unfolding only_removes_def by (metis option.distinct(1))
  ultimately show ?thesis using gone by (simp add: commit_temp_def os_Rename_def)
qed

theorem sweep_breaks_write_in_progress_witness:
  "\<exists>v. fill_temp sample_fc ''new'' ''/out/pw.tmp.b'' sample_world = (Ok (), v) \<and>
     fst (commit_temp ''/out/pw.tmp.b'' ''/out/pw'' (snd (CleanupOrphanedTempFiles (\<lambda>_ _. None) [''/out''] v))) =
       Err (RenameFailed ENOENT)"
proof -
  define v where "v = snd (fill_temp sample_fc ''new'' ''/out/pw.tmp.b'' sample_world)"
  have p: "fc_Path sample_fc = ''/out/pw''" and t: "temp_name ''/out/pw'' ''b'' = ''/out/pw.tmp.b''"
    by (simp_all add: temp_name_def sample_fc_def)
  have f: "fill_temp sample_fc ''new'' ''/out/pw.tmp.b'' sample_world = (Ok (), v)"
    unfolding v_def by code_simp
  have "w_faults v = []" "proper_disk v" "plain_dirs [''/out''] v" "filepath_Dir ''/out/pw'' \<in> set [''/out'']"
    "lookup v ''/out/pw'' \<noteq> Some Dir" "lookup sample_world ''/out/pw.tmp.b'' = None"
    unfolding v_def by code_simp+
  with f sweep_breaks_write_in_progress [of sample_fc "''new''" "''b''" sample_world v "[''/out'']" "\<lambda>_ _. None"]
    sample_proper show ?thesis unfolding p t by auto
qed

end
