(* ===== verification/Vault_Client.thy ===== *)
theory Vault_Client
  imports Go_Path Go_Numbers
begin

text \<open>
  \<open>internal/vault/client.go\<close> and \<open>internal/vault/breaker.go\<close>: the client of the secret store and
  the circuit breaker around its requests.  The HTTP client (package \<open>api\<close>) and the breaker
  (package \<open>gobreaker\<close>) are third-party code, so they are the record \<open>vault_api\<close> of functions on a state
  \<open>'w\<close>, which stands for the server, the breakers, the clock and whatever else decides an answer.  Of the
  breaker the code uses what \<open>Execute\<close> documents: it refuses a request with an error of its own,
  or runs it once, reports whether it succeeded, and passes its result on.
\<close>

section \<open>Data\<close>

datatype json =
    JNull | JBool bool | JNumber string | JString string
  | JArray "json list" | JObject "(string \<times> json) list"

type_synonym SecretData = "(string \<times> json) list"

record SecretAuth =
  auth_ClientToken :: string
  auth_LeaseDuration :: int
  auth_Renewable :: bool

record ApiSecret =
  as_Data :: "SecretData option"
  as_Auth :: "SecretAuth option"

record HealthResponse =
  hr_ClusterName :: string
  hr_Version :: string
  hr_Standby :: bool

text \<open>A value of type \<open>interface{}\<close>: nil, or one of the pointers the requests return, which may be nil too.\<close>

datatype response = NilInterface | SecretPtr "ApiSecret option" | HealthPtr "HealthResponse option"

datatype plain_error =
    SecretNotFound string | InvalidResponse | NoData | InvalidKV2
  | UnsupportedMethod string | RequiredField string | NoLoginToken

datatype err_place =
  InBreaker | InRead | InTokenAuth | InAppRole | InHealth | InClusterInfo | InTLS | InNewClient

datatype vault_error =
    ApiError string | BreakerOpen string | Plain plain_error | ContextCancelled
  | Wrapped err_place vault_error
  | RetriesExhausted int "vault_error option"

text \<open>The parts of the API client that requests depend on.\<close>

record TLSConfig =
  tls_CACert :: string
  tls_CAPath :: string
  tls_ClientCert :: string
  tls_ClientKey :: string
  tls_SkipVerify :: bool

record session =
  ses_Address :: string
  ses_TLS :: "TLSConfig option"
  ses_Token :: string
  ses_Namespace :: string

section \<open>The third-party code\<close>

record BreakerConfig =
  bc_MaxRequests :: "32 word"
  bc_Interval :: int
  bc_Timeout :: int

record Counts =
  cnt_Requests :: "32 word"
  cnt_TotalFailures :: "32 word"

record BreakerSettings =
  bs_Name :: string
  bs_Config :: BreakerConfig
  bs_ReadyToTrip :: "Counts \<Rightarrow> bool"

record 'w vault_api =
  api_ConfigureTLS :: "string \<Rightarrow> TLSConfig \<Rightarrow> 'w \<Rightarrow> string option"
  api_NewClient :: "string \<Rightarrow> TLSConfig option \<Rightarrow> 'w \<Rightarrow> string + session"
  api_Read :: "session \<Rightarrow> string \<Rightarrow> 'w \<Rightarrow> (string + ApiSecret option) \<times> 'w"
  api_Write :: "session \<Rightarrow> string \<Rightarrow> (string \<times> string) list \<Rightarrow> 'w \<Rightarrow> (string + ApiSecret option) \<times> 'w"
  api_LookupSelf :: "session \<Rightarrow> 'w \<Rightarrow> (string + ApiSecret option) \<times> 'w"
  api_Health :: "session \<Rightarrow> 'w \<Rightarrow> (string + HealthResponse) \<times> 'w"
  api_Leader :: "session \<Rightarrow> 'w \<Rightarrow> (string + string option) \<times> 'w"
  br_New :: "BreakerSettings \<Rightarrow> 'w \<Rightarrow> nat \<times> 'w"
  br_Admit :: "nat \<Rightarrow> 'w \<Rightarrow> string option \<times> 'w"
  br_Report :: "nat \<Rightarrow> bool \<Rightarrow> 'w \<Rightarrow> 'w"

section \<open>The client\<close>

record AuthConfig =
  ac_Method :: string
  ac_Token :: string
  ac_RoleID :: string
  ac_SecretID :: string

record Client =
  cl_session :: session
  cl_breaker :: "nat option"
  cl_authSecret :: "ApiSecret option"
  cl_authConfig :: "AuthConfig option"

type_synonym ('w, 'a) request = "Client \<Rightarrow> 'w \<Rightarrow> (vault_error + 'a) \<times> Client \<times> 'w"

definition SetToken :: "string \<Rightarrow> Client \<Rightarrow> Client" where
  "SetToken t c = c\<lparr>cl_session := (cl_session c)\<lparr>ses_Token := t\<rparr>\<rparr>"

definition SetNamespace :: "string \<Rightarrow> Client \<Rightarrow> Client" where
  "SetNamespace n c = c\<lparr>cl_session := (cl_session c)\<lparr>ses_Namespace := n\<rparr>\<rparr>"

text \<open>
  \<open>configureTLS\<close> copies the settings; an empty string is also the zero value of the field it is
  copied to.
\<close>

definition configureTLS :: "TLSConfig \<Rightarrow> TLSConfig" where
  "configureTLS tlsConfig =
     (let t0 = \<lparr>tls_CACert = [], tls_CAPath = [], tls_ClientCert = [], tls_ClientKey = [],
               tls_SkipVerify = tls_SkipVerify tlsConfig\<rparr>;
          t1 = (if tls_CACert tlsConfig \<noteq> [] then t0\<lparr>tls_CACert := tls_CACert tlsConfig\<rparr> else t0);
          t2 = (if tls_CAPath tlsConfig \<noteq> [] then t1\<lparr>tls_CAPath := tls_CAPath tlsConfig\<rparr> else t1);
          t3 = (if tls_ClientCert tlsConfig \<noteq> [] then t2\<lparr>tls_ClientCert := tls_ClientCert tlsConfig\<rparr> else t2)
      in (if tls_ClientKey tlsConfig \<noteq> [] then t3\<lparr>tls_ClientKey := tls_ClientKey tlsConfig\<rparr> else t3))"

definition NewClientWithTLS ::
  "'w vault_api \<Rightarrow> string \<Rightarrow> TLSConfig option \<Rightarrow> 'w \<Rightarrow> vault_error + Client" where
  "NewClientWithTLS api address tlsConfig w =
     (case (case tlsConfig of None \<Rightarrow> None | Some t \<Rightarrow> api_ConfigureTLS api address (configureTLS t) w) of
        Some e \<Rightarrow> Inl (Wrapped InTLS (ApiError e))
      | None \<Rightarrow>
          (case api_NewClient api address (map_option configureTLS tlsConfig) w of
             Inl e \<Rightarrow> Inl (Wrapped InNewClient (ApiError e))
           | Inr s \<Rightarrow> Inr \<lparr>cl_session = s, cl_breaker = None, cl_authSecret = None, cl_authConfig = None\<rparr>))"

definition NewClient :: "'w vault_api \<Rightarrow> string \<Rightarrow> 'w \<Rightarrow> vault_error + Client" where
  "NewClient api address w = NewClientWithTLS api address None w"

section \<open>The circuit breaker\<close>

text \<open>The ratio is computed in floating point, before the number of requests is looked at.\<close>

definition ReadyToTrip :: "Counts \<Rightarrow> bool" where
  "ReadyToTrip counts =
     (let failureRatio = f64_div (f64_of_int (uint (cnt_TotalFailures counts))) (f64_of_int (uint (cnt_Requests counts)))
      in 3 \<le> cnt_Requests counts \<and> f64_ge failureRatio (f64_round (6 / 10)))"

definition WithCircuitBreaker :: "'w vault_api \<Rightarrow> BreakerConfig \<Rightarrow> Client \<Rightarrow> 'w \<Rightarrow> Client \<times> 'w" where
  "WithCircuitBreaker api config c w =
     (case br_New api \<lparr>bs_Name = ''vault-client'', bs_Config = config, bs_ReadyToTrip = ReadyToTrip\<rparr> w of
        (b, w') \<Rightarrow> (c\<lparr>cl_breaker := Some b\<rparr>, w'))"

definition executeWithBreaker :: "'w vault_api \<Rightarrow> ('w, 'a) request \<Rightarrow> ('w, 'a) request" where
  "executeWithBreaker api fn c w =
     (case cl_breaker c of
        None \<Rightarrow> fn c w
      | Some b \<Rightarrow>
          (case br_Admit api b w of
             (Some e, w1) \<Rightarrow> (Inl (Wrapped InBreaker (BreakerOpen e)), c, w1)
           | (None, w1) \<Rightarrow>
               (case fn c w1 of
                  (Inl e, c2, w2) \<Rightarrow> (Inl (Wrapped InBreaker e), c2, br_Report api b False w2)
                | (Inr x, c2, w2) \<Rightarrow> (Inr x, c2, br_Report api b True w2))))"

text \<open>One request of the API client, as the closures given to \<open>executeWithBreaker\<close> make it.\<close>

definition api_call :: "(session \<Rightarrow> 'w \<Rightarrow> (string + 'b) \<times> 'w) \<Rightarrow> ('b \<Rightarrow> response) \<Rightarrow> ('w, response) request" where
  "api_call f wrap c w =
     (case f (cl_session c) w of
        (Inl e, w') \<Rightarrow> (Inl (ApiError e), c, w')
      | (Inr x, w') \<Rightarrow> (Inr (wrap x), c, w'))"

definition Ping :: "'w vault_api \<Rightarrow> ('w, unit) request" where
  "Ping api c w =
     (case executeWithBreaker api (api_call (api_Health api) (HealthPtr \<circ> Some)) c w of
        (Inl e, c', w') \<Rightarrow> (Inl (Wrapped InHealth e), c', w')
      | (Inr _, c', w') \<Rightarrow> (Inr (), c', w'))"

record ClusterInfo =
  ci_ClusterName :: string
  ci_Version :: string
  ci_Standby :: bool
  ci_LeaderAddress :: string

text \<open>An error or a nil answer of the leader query is ignored.  These queries bypass the breaker.\<close>

definition GetClusterInfo :: "'w vault_api \<Rightarrow> Client \<Rightarrow> 'w \<Rightarrow> (vault_error + ClusterInfo) \<times> 'w" where
  "GetClusterInfo api c w =
     (case api_Health api (cl_session c) w of
        (Inl e, w1) \<Rightarrow> (Inl (Wrapped InClusterInfo (ApiError e)), w1)
      | (Inr resp, w1) \<Rightarrow>
          (let info = \<lparr>ci_ClusterName = hr_ClusterName resp, ci_Version = hr_Version resp,
                       ci_Standby = hr_Standby resp, ci_LeaderAddress = []\<rparr>
           in (case api_Leader api (cl_session c) w1 of
                 (Inr (Some l), w2) \<Rightarrow> (Inr (info\<lparr>ci_LeaderAddress := l\<rparr>), w2)
               | (_, w2) \<Rightarrow> (Inr info, w2))))"

definition TokenTTL :: "Client \<Rightarrow> int" where
  "TokenTTL c =
     (case cl_authSecret c of
        Some s \<Rightarrow> (case as_Auth s of Some a \<Rightarrow> auth_LeaseDuration a | None \<Rightarrow> 0)
      | None \<Rightarrow> 0)"

section \<open>The size limit of a response body\<close>

text \<open>
  \<open>limitedTransport\<close> puts an \<open>io.LimitReader\<close> in front of the body.  A reader takes the size of the
  buffer and returns the bytes read and its next state; an empty result with a non-empty buffer is the end.
\<close>

definition MaxResponseSize :: nat where "MaxResponseSize = 10 * 1024 * 1024"

type_synonym 's reader = "nat \<Rightarrow> 's \<Rightarrow> string \<times> 's"

definition limited_Read :: "'s reader \<Rightarrow> (nat \<times> 's) reader" where
  "limited_Read base p st =
     (case st of (left, s) \<Rightarrow>
        if left = 0 then ([], st)
        else (case base (min p left) s of (bytes, s') \<Rightarrow> (bytes, (left - length bytes, s'))))"

text \<open>Successive reads, as a decoder of the body makes them.\<close>

fun read_body :: "'s reader \<Rightarrow> nat list \<Rightarrow> 's \<Rightarrow> string \<times> 's" where
  "read_body rd [] s = ([], s)"
| "read_body rd (p # ps) s =
     (case rd p s of (bytes, s') \<Rightarrow> (case read_body rd ps s' of (rest, s'') \<Rightarrow> (bytes @ rest, s'')))"

lemma limited_Read_bound:
  assumes "\<And>p s. length (fst (base p s)) \<le> p"
  shows "length (fst (read_body (limited_Read base) ps (left, s))) \<le> left"
proof (induction ps arbitrary: left s)
  case Nil
  then show ?case by simp
next
  case (Cons p ps)
  show ?case
  proof (cases "left = 0")
    case True
    then show ?thesis using Cons [of 0 s] by (simp add: limited_Read_def split: prod.split)
  next
    case False
    obtain bytes s' where b: "base (min p left) s = (bytes, s')" by (cases "base (min p left) s")
    have "length bytes \<le> left" using assms [of "min p left" s] b by simp
    moreover have "limited_Read base p (left, s) = (bytes, (left - length bytes, s'))"
      using False b by (simp add: limited_Read_def)
    moreover obtain rest u where "read_body (limited_Read base) ps (left - length bytes, s') = (rest, u)"
      by (cases "read_body (limited_Read base) ps (left - length bytes, s')")
    ultimately show ?thesis using Cons [of "left - length bytes" s'] by simp
  qed
qed

end
