(* ===== verification/Vault_Breaker.thy ===== *)
theory Vault_Breaker
  imports Vault_Client
begin

text \<open>
  What the client relies on from the circuit breaker, as a locale, and when the breaker is told to
  trip: the floating-point test of \<open>ReadyToTrip\<close> is the exact comparison of the failure ratio with three fifths.
\<close>

section \<open>The trip condition\<close>

lemma ulp_exp_unit: "1 / 2 \<le> x \<Longrightarrow> x < 1 \<Longrightarrow> ulp_exp x = - 53"
proof -
  assume x: "1 / 2 \<le> x" "x < 1"
  have "pow2 (lg x) < pow2 0" using lg_bounds(1) [of x] x by (simp add: pow2_def)
  moreover have "pow2 (- 1) < pow2 (lg x + 1)"
    using lg_bounds(2) [of x] x pow2_neg_nat [of 1] by simp
  ultimately have "lg x = - 1" by (simp add: pow2_less_iff)
  then show ?thesis by (simp add: ulp_exp_def)
qed

lemma pow2_m53: "pow2 (- 53) = 1 / 2 ^ 53"
  using pow2_neg_nat [of 53] by simp

lemma round_pos_unit_mono: "1 / 2 \<le> x \<Longrightarrow> x \<le> y \<Longrightarrow> y < 1 \<Longrightarrow> round_pos x \<le> round_pos y"
proof -
  assume a: "1 / 2 \<le> x" "x \<le> y" "y < 1"
  have e: "ulp_exp x = - 53" "ulp_exp y = - 53" using a by (auto intro!: ulp_exp_unit)
  have "x / pow2 (- 53) \<le> y / pow2 (- 53)" using a by (intro divide_right_mono) (simp_all add: less_imp_le)
  from round_even_mono [OF this] show ?thesis
    unfolding round_pos_def e by (intro mult_right_mono) (simp_all add: less_imp_le)
qed

lemma round_pos_3_5: "3 / 5 - 1 / 2 ^ 54 \<le> round_pos (3 / 5)" "round_pos (3 / 5) \<le> 3 / 5 + 1 / 2 ^ 54"
proof -
  have "\<bar>round_pos (3 / 5) - 3 / 5\<bar> \<le> 1 / 2 ^ 54"
    using round_pos_err [of "3 / 5"] ulp_exp_unit [of "3 / 5"] by (simp add: pow2_m53)
  then show "3 / 5 - 1 / 2 ^ 54 \<le> round_pos (3 / 5)" "round_pos (3 / 5) \<le> 3 / 5 + 1 / 2 ^ 54"
    by (simp_all only: abs_le_iff) linarith+
qed

lemma round_pos_3_5_small: "0 < round_pos (3 / 5)" "round_pos (3 / 5) < pow2 1024"
proof -
  show "0 < round_pos (3 / 5)" using round_pos_3_5(1) by simp
  have "round_pos (3 / 5) < pow2 1" using round_pos_3_5(2) by (simp add: pow2_def)
  also have "\<dots> \<le> pow2 1024" by (rule pow2_mono) simp
  finally show "round_pos (3 / 5) < pow2 1024" .
qed

lemma round_pos_ge_1:
  assumes "1 \<le> x"
  shows "round_pos (3 / 5) \<le> round_pos x"
proof -
  have "lg x \<ge> 0"
  proof -
    have "pow2 0 < pow2 (lg x + 1)" using lg_bounds(2) [of x] assms by (simp add: pow2_def)
    then show ?thesis by (simp add: pow2_less_iff)
  qed
  then have "ulp_exp x = lg x - 52" by (simp add: ulp_exp_def)
  then have "pow2 (ulp_exp x) = pow2 (lg x) * pow2 (- 52)" using pow2_add [of "lg x" "- 52"] by simp
  also have "\<dots> \<le> x * pow2 (- 52)"
    using lg_bounds(1) [of x] assms by (intro mult_right_mono) (simp_all add: less_imp_le)
  also have "pow2 (- 52) = 1 / 2 ^ 52" using pow2_neg_nat [of 52] by simp
  finally have "pow2 (ulp_exp x) / 2 \<le> x * (1 / 2 ^ 53)" by simp
  then have "x - x * (1 / 2 ^ 53) \<le> round_pos x"
    using abs_le_D2 [OF round_pos_err [of x]] by linarith
  moreover have "x * (1 / 2 ^ 53) \<le> x * (1 / 10)" using assms by (intro mult_left_mono) simp_all
  ultimately have "9 / 10 \<le> round_pos x" using assms by simp
  then show ?thesis using round_pos_3_5(2) by simp
qed

lemma f64_of_nat32: "0 \<le> n \<Longrightarrow> n < 2 ^ 32 \<Longrightarrow> f64_of_int n = Fin (of_int n)"
  by (rule f64_of_int_exact) simp

lemma f64_threshold: "f64_round (6 / 10) = Fin (round_pos (3 / 5))"
  using round_pos_3_5_small by (simp add: f64_round_def Let_def)

lemma ratio_below:
  assumes "0 < f" and "5 * f < 3 * r" and "r < 2 ^ 32"
  shows "round_pos (of_int f / of_int r) < round_pos (3 / 5)"
proof -
  let ?x = "of_int f / of_int r :: rat"
  have r: "0 < r" using assms by linarith
  have "of_int (5 * f + 1) \<le> (of_int (3 * r) :: rat)" using assms(2) by (simp only: of_int_le_iff)
  then have "5 * of_int f + 1 \<le> 3 * (of_int r :: rat)" by simp
  then have gap: "?x \<le> 3 / 5 - 1 / (5 * of_int r)" using r by (simp add: field_simps)
  have "(of_int r :: rat) < of_int (2 ^ 32)" using assms(3) by (simp only: of_int_less_iff)
  then have "1 / (5 * 2 ^ 32) < 1 / (5 * (of_int r :: rat))" using r by (intro divide_strict_left_mono) simp_all
  with gap have x: "?x < 3 / 5 - 1 / (5 * 2 ^ 32)" by linarith
  have pos: "0 < ?x" using assms(1) r by simp
  have "pow2 (ulp_exp ?x) \<le> pow2 (- 53)"
  proof -
    have "?x < 1" using x by (rule less_trans) simp
    with lg_bounds(1) [OF pos] have "pow2 (lg ?x) < 1" by (rule le_less_trans)
    then have "pow2 (lg ?x) < pow2 0" by (simp add: pow2_def)
    then have "lg ?x \<le> - 1" by (simp add: pow2_less_iff)
    then show ?thesis by (intro pow2_mono) (simp add: ulp_exp_def)
  qed
  then have "pow2 (ulp_exp ?x) / 2 \<le> 1 / 2 ^ 54" by (simp add: pow2_m53)
  then have "round_pos ?x \<le> ?x + 1 / 2 ^ 54" using abs_le_D1 [OF round_pos_err [of ?x]] by linarith
  also have "\<dots> < 3 / 5 - 1 / (5 * 2 ^ 32) + 1 / 2 ^ 54" using x by linarith
  also have "\<dots> \<le> 3 / 5 - 1 / 2 ^ 54" by simp
  finally show ?thesis using round_pos_3_5(1) by linarith
qed

lemma ratio_test:
  assumes "0 \<le> f" and "f < 2 ^ 32" and "0 < r" and "r < 2 ^ 32"
  shows "f64_ge (f64_div (f64_of_int f) (f64_of_int r)) (f64_round (6 / 10)) \<longleftrightarrow> 3 * r \<le> 5 * f"
proof -
  let ?x = "of_int f / of_int r :: rat"
  note t = round_pos_3_5_small(1) and t2 = round_pos_3_5_small(2)
  have q: "f64_div (f64_of_int f) (f64_of_int r) = f64_round ?x"
    using assms f64_of_nat32 [of f] f64_of_nat32 [of r] by simp
  show ?thesis
  proof (cases "f = 0")
    case True
    with assms(3) t show ?thesis unfolding q f64_threshold by (simp add: f64_round_def)
  next
    case False
    with assms have x: "0 < ?x" by simp
    have big: "f64_ge (f64_round ?x) (Fin y) \<longleftrightarrow> y \<le> round_pos ?x" if "y < pow2 1024" for y
      using x that abs_of_pos [OF x] by (auto simp only: f64_round_def Let_def f64_ge.simps if_True if_False split: if_splits)
    have "round_pos (3 / 5) \<le> round_pos ?x \<longleftrightarrow> 3 * r \<le> 5 * f"
    proof
      assume "round_pos (3 / 5) \<le> round_pos ?x"
      with ratio_below [of f r] assms False show "3 * r \<le> 5 * f" by force
    next
      assume "3 * r \<le> 5 * f"
      then have "of_int (3 * r) \<le> (of_int (5 * f) :: rat)" by (simp only: of_int_le_iff)
      then have "3 / 5 \<le> ?x" using assms(3) by (simp add: field_simps)
      with round_pos_unit_mono [of "3 / 5" ?x] round_pos_ge_1 [of ?x]
      show "round_pos (3 / 5) \<le> round_pos ?x" by (cases "?x < 1") simp_all
    qed
    then show ?thesis unfolding q f64_threshold big [OF t2] .
  qed
qed

text \<open>
  C36: the breaker is told to trip exactly when there were at least three requests and at least three in five of
  them failed; the floating-point division and the constant 0.6 decide this without error for all counts.
\<close>

theorem ReadyToTrip_exact:
  "ReadyToTrip counts \<longleftrightarrow>
     3 \<le> uint (cnt_Requests counts) \<and> 3 * uint (cnt_Requests counts) \<le> 5 * uint (cnt_TotalFailures counts)"
proof -
  have b: "uint (w :: 32 word) < 2 ^ 32" for w using uint_bounded [of w] by simp
  have n: "3 \<le> cnt_Requests counts \<longleftrightarrow> 3 \<le> uint (cnt_Requests counts)" by (simp add: word_le_def)
  show ?thesis
  proof (cases "3 \<le> uint (cnt_Requests counts)")
    case True
    then show ?thesis
      using ratio_test [of "uint (cnt_TotalFailures counts)" "uint (cnt_Requests counts)"] b n
      by (simp add: ReadyToTrip_def Let_def)
  qed (simp add: ReadyToTrip_def n Let_def)
qed

section \<open>A guarded call\<close>

text \<open>
  The contract of \<open>executeWithBreaker\<close> that its callers use: a success is the success of the request, run once in
  the client's own state, in the state that admitting it left; a failure either ran the request or left the client alone.
\<close>

locale guarded_call =
  fixes exec :: "('w, 'a) request \<Rightarrow> ('w, 'a) request"
    and admitted :: "Client \<Rightarrow> 'w \<Rightarrow> 'w"
  assumes success: "exec fn c w = (Inr x, c', w') \<Longrightarrow> \<exists>v. fn c (admitted c w) = (Inr x, c', v)"
    and failure: "exec fn c w = (Inl e, c', w') \<Longrightarrow> c' = c \<or> (\<exists>e' v. fn c (admitted c w) = (Inl e', c', v))"
begin

text \<open>A property of the client that the request keeps is kept, whatever the guard decides.\<close>

lemma keeps:
  assumes "exec fn c w = (r, c', w')" and "P c" and "\<And>v q d v'. fn c v = (q, d, v') \<Longrightarrow> P d"
  shows "P c'"
proof (cases r)
  case (Inl e)
  with failure assms show ?thesis by (metis (no_types, lifting))
next
  case (Inr x)
  with success assms show ?thesis by (metis (no_types, lifting))
qed

lemma result_shape:
  assumes "exec fn c w = (Inr x, c', w')" and "\<And>v q d v'. fn c v = (Inr q, d, v') \<Longrightarrow> Q q"
  shows "Q x"
  using success [OF assms(1)] assms(2) by blast

end

definition admitted_state :: "'w vault_api \<Rightarrow> Client \<Rightarrow> 'w \<Rightarrow> 'w" where
  "admitted_state api c w = (case cl_breaker c of None \<Rightarrow> w | Some b \<Rightarrow> snd (br_Admit api b w))"

interpretation breaker: guarded_call "executeWithBreaker api" "admitted_state api" for api
proof
  show "\<exists>v. fn c (admitted_state api c w) = (Inr x, c', v)"
    if "executeWithBreaker api fn c w = (Inr x, c', w')" for fn c w x c' w'
    using that by (auto simp: executeWithBreaker_def admitted_state_def split: option.splits prod.splits sum.splits)
  show "c' = c \<or> (\<exists>e' v. fn c (admitted_state api c w) = (Inl e', c', v))"
    if "executeWithBreaker api fn c w = (Inl e, c', w')" for fn c w e c' w'
    using that
    by (fastforce simp: executeWithBreaker_def admitted_state_def split: option.splits prod.splits sum.splits)
qed

end
