(* ===== verification/Vault_Fetch.thy ===== *)
theory Vault_Fetch
  imports Vault_Breaker
begin

text \<open>
  \<open>internal/vault/fetcher.go\<close> and \<open>internal/vault/retry.go\<close>: reading one secret, and reading it again with
  an exponentially growing pause while that fails.
\<close>

section \<open>FetchSecret\<close>

definition secret_path :: "string \<Rightarrow> string \<Rightarrow> string \<Rightarrow> string" where
  "secret_path mountPath secretPath kvVersion =
     (if kvVersion = ''v2'' then path_Join [mountPath, ''data'', secretPath]
      else path_Join [mountPath, secretPath])"

text \<open>
  The closure given to the breaker: it sets the namespace, when one is given, on the shared client, and reads.
\<close>

definition read_request :: "'w vault_api \<Rightarrow> string \<Rightarrow> string \<Rightarrow> ('w, response) request" where
  "read_request api namespace fullPath c w =
     (let c1 = (if namespace \<noteq> [] then SetNamespace namespace c else c)
      in api_call (\<lambda>s. api_Read api s fullPath) SecretPtr c1 w)"

text \<open>
  What is made of the answer.  The result of the closure is a \<open>*api.Secret\<close> in an interface, so it is not
  the nil interface even where the pointer is nil.
\<close>

definition unpack_secret :: "string \<Rightarrow> string \<Rightarrow> response \<Rightarrow> vault_error + SecretData" where
  "unpack_secret kvVersion secretPath result =
     (case result of
        NilInterface \<Rightarrow> Inl (Plain (SecretNotFound secretPath))
      | SecretPtr (Some secret) \<Rightarrow>
          (case as_Data secret of
             None \<Rightarrow> Inl (Plain NoData)
           | Some data \<Rightarrow>
               (if kvVersion = ''v2'' then
                  (case map_of data ''data'' of
                     Some (JObject m) \<Rightarrow> Inr m
                   | _ \<Rightarrow> Inl (Plain InvalidKV2))
                else Inr data))
      | _ \<Rightarrow> Inl (Plain InvalidResponse))"

definition FetchSecret ::
  "'w vault_api \<Rightarrow> string \<Rightarrow> string \<Rightarrow> string \<Rightarrow> string \<Rightarrow> ('w, SecretData) request" where
  "FetchSecret api mountPath secretPath kvVersion namespace c w =
     (let fullPath = secret_path mountPath secretPath kvVersion in
      (case executeWithBreaker api (read_request api namespace fullPath) c w of
         (Inl e, c', w') \<Rightarrow> (Inl (Wrapped InRead e), c', w')
       | (Inr result, c', w') \<Rightarrow> (unpack_secret kvVersion secretPath result, c', w')))"

section \<open>Retry with exponential backoff\<close>

record RetryConfig =
  rc_InitialBackoff :: int
  rc_MaxBackoff :: int
  rc_Multiplier :: f64
  rc_MaxRetries :: int

text \<open>
  The next pause, computed in floating point; \<open>oor\<close> is what the conversion makes of a value outside the 64-bit range.
\<close>

definition next_backoff :: "(f64 \<Rightarrow> int) \<Rightarrow> RetryConfig \<Rightarrow> int \<Rightarrow> int" where
  "next_backoff oor config backoff =
     (let b = f64_to_int64 oor (f64_mul (f64_of_int backoff) (rc_Multiplier config))
      in (if rc_MaxBackoff config < b then rc_MaxBackoff config else b))"

text \<open>
  The loop over the attempts.  \<open>left\<close> counts the attempts that remain, so the loop runs while
  \<open>attempt <= MaxRetries\<close>.  Before each attempt but the first it waits, unless the context is
  done (\<open>cancelled attempt\<close> is the branch the \<open>select\<close> takes).  Beside the result it gives the pauses made.
\<close>

fun retry_loop ::
  "(f64 \<Rightarrow> int) \<Rightarrow> RetryConfig \<Rightarrow> (nat \<Rightarrow> bool) \<Rightarrow> ('s \<Rightarrow> (vault_error + 'a) \<times> 's) \<Rightarrow>
   nat \<Rightarrow> nat \<Rightarrow> int \<Rightarrow> vault_error option \<Rightarrow> 's \<Rightarrow> (vault_error + 'a) \<times> int list \<times> 's" where
  "retry_loop oor config cancelled fetch 0 attempt backoff lastErr s =
     (Inl (RetriesExhausted (rc_MaxRetries config) lastErr), [], s)"
| "retry_loop oor config cancelled fetch (Suc left) attempt backoff lastErr s =
     (if 0 < attempt \<and> cancelled attempt then (Inl ContextCancelled, [], s)
      else
        let waits = (if 0 < attempt then [backoff] else []);
            backoff' = (if 0 < attempt then next_backoff oor config backoff else backoff)
        in (case fetch s of
              (Inr data, s') \<Rightarrow> (Inr data, waits, s')
            | (Inl err, s') \<Rightarrow>
                (case retry_loop oor config cancelled fetch left (Suc attempt) backoff' (Some err) s' of
                   (r, ws, s'') \<Rightarrow> (r, waits @ ws, s''))))"

definition with_retry ::
  "(f64 \<Rightarrow> int) \<Rightarrow> RetryConfig \<Rightarrow> (nat \<Rightarrow> bool) \<Rightarrow> ('s \<Rightarrow> (vault_error + 'a) \<times> 's) \<Rightarrow>
   's \<Rightarrow> (vault_error + 'a) \<times> int list \<times> 's" where
  "with_retry oor config cancelled fetch s =
     retry_loop oor config cancelled fetch (nat (rc_MaxRetries config + 1)) 0
       (rc_InitialBackoff config) None s"

definition FetchSecretWithRetry ::
  "'w vault_api \<Rightarrow> (f64 \<Rightarrow> int) \<Rightarrow> (nat \<Rightarrow> bool) \<Rightarrow> string \<Rightarrow> string \<Rightarrow> string \<Rightarrow> string \<Rightarrow> RetryConfig \<Rightarrow>
   Client \<Rightarrow> 'w \<Rightarrow> (vault_error + SecretData) \<times> int list \<times> Client \<times> 'w" where
  "FetchSecretWithRetry api oor cancelled mountPath secretPath kvVersion namespace config c w =
     with_retry oor config cancelled
       (\<lambda>(c, w). FetchSecret api mountPath secretPath kvVersion namespace c w) (c, w)"

section \<open>What a read returns\<close>

lemma read_request_client:
  "read_request api ns p c w = (r, c', w') \<Longrightarrow> c' = (if ns \<noteq> [] then SetNamespace ns c else c)"
  by (auto simp: read_request_def api_call_def Let_def split: sum.splits prod.splits if_splits)

definition request_session :: "string \<Rightarrow> Client \<Rightarrow> session" where
  "request_session ns c = cl_session (if ns \<noteq> [] then SetNamespace ns c else c)"

lemma read_request_success:
  "read_request api ns p c v = (Inr x, c', v') \<longleftrightarrow>
     (\<exists>s. x = SecretPtr s \<and> c' = (if ns \<noteq> [] then SetNamespace ns c else c) \<and>
          api_Read api (request_session ns c) p v = (Inr s, v'))"
  by (auto simp: read_request_def api_call_def request_session_def Let_def split: sum.splits prod.splits)

lemma FetchSecret_reads:
  assumes "FetchSecret api mountPath secretPath kvVersion namespace c w = (Inr d, c', w')"
  shows "\<exists>ses v secret data.
           api_Read api ses (secret_path mountPath secretPath kvVersion) (admitted_state api c w) = (Inr (Some secret), v) \<and>
           ses = (cl_session c)\<lparr>ses_Namespace := (if namespace \<noteq> [] then namespace else ses_Namespace (cl_session c))\<rparr> \<and>
           as_Data secret = Some data \<and>
           (if kvVersion = ''v2'' then map_of data ''data'' = Some (JObject d) else data = d)"
proof -
  let ?p = "secret_path mountPath secretPath kvVersion"
  from assms obtain x where x: "executeWithBreaker api (read_request api namespace ?p) c w = (Inr x, c', w')"
    and d: "unpack_secret kvVersion secretPath x = Inr d"
    by (auto simp: FetchSecret_def Let_def split: sum.splits prod.splits)
  from breaker.success [OF x] obtain v s where s: "x = SecretPtr s"
    "api_Read api (request_session namespace c) ?p (admitted_state api c w) = (Inr s, v)"
    by (auto simp: read_request_success)
  from d s(1) obtain secret data where "s = Some secret" "as_Data secret = Some data"
      "if kvVersion = ''v2'' then map_of data ''data'' = Some (JObject d) else data = d"
    by (auto simp: unpack_secret_def split: option.splits if_splits json.splits)
  with s(2) show ?thesis
    by (intro exI [of _ "request_session namespace c"] exI [of _ v] exI [of _ secret] exI [of _ data])
       (simp add: request_session_def SetNamespace_def)
qed

text \<open>
  C25: a successful read returns the secret's own data.  For version 2 of the key-value store that is the map under
  the key \<open>data\<close> of what the server answered for the mount, \<open>data\<close> and the path joined, for version 1 all of its answer
  for the mount and the path joined; the request was made with the client's token and in the namespace asked for, if one was.
\<close>

theorem FetchSecret_result:
  assumes "FetchSecret api mountPath secretPath kvVersion namespace c w = (Inr d, c', w')"
  shows "\<exists>ses v secret data.
           api_Read api ses
             (if kvVersion = ''v2'' then path_Join [mountPath, ''data'', secretPath] else path_Join [mountPath, secretPath])
             (admitted_state api c w) = (Inr (Some secret), v) \<and>
           ses = (cl_session c)\<lparr>ses_Namespace := (if namespace \<noteq> [] then namespace else ses_Namespace (cl_session c))\<rparr> \<and>
           as_Data secret = Some data \<and>
           (if kvVersion = ''v2'' then map_of data ''data'' = Some (JObject d) else data = d)"
  using FetchSecret_reads [OF assms] unfolding secret_path_def .

text \<open>
  A secret that does not exist is never reported as such.  The test for a nil result compares an
  interface that always holds a pointer, so \<open>FetchSecret\<close> never returns the error \<open>secret not found\<close>; a nil
  answer of the server gives \<open>invalid secret response\<close>.
\<close>

theorem FetchSecret_never_not_found:
  "fst (FetchSecret api mountPath secretPath kvVersion namespace c w) \<noteq> Inl (Plain (SecretNotFound p)) \<and>
   (cl_breaker c = None \<longrightarrow>
    fst (api_Read api (cl_session (if namespace \<noteq> [] then SetNamespace namespace c else c))
           (secret_path mountPath secretPath kvVersion) w) = Inr None \<longrightarrow>
    fst (FetchSecret api mountPath secretPath kvVersion namespace c w) = Inl (Plain InvalidResponse))"
proof (intro conjI impI)
  let ?ex = "executeWithBreaker api (read_request api namespace (secret_path mountPath secretPath kvVersion)) c w"
  show "fst (FetchSecret api mountPath secretPath kvVersion namespace c w) \<noteq> Inl (Plain (SecretNotFound p))"
  proof (cases "?ex")
    case (fields r c' w')
    have "\<exists>s. x = SecretPtr s" if "r = Inr x" for x
      by (rule breaker.result_shape [OF fields [unfolded that]]) (auto simp: read_request_success)
    with fields show ?thesis
      by (cases r) (auto simp: FetchSecret_def unpack_secret_def split: option.splits json.splits if_splits)
  qed
next
  assume "cl_breaker c = None" and "fst (api_Read api (cl_session (if namespace \<noteq> [] then SetNamespace namespace c else c))
           (secret_path mountPath secretPath kvVersion) w) = Inr None"
  then show "fst (FetchSecret api mountPath secretPath kvVersion namespace c w) = Inl (Plain InvalidResponse)"
    by (auto simp: FetchSecret_def executeWithBreaker_def read_request_def api_call_def unpack_secret_def
        SetNamespace_def Let_def split: prod.splits if_splits)
qed

section \<open>The namespace of a request\<close>

text \<open>The namespace is a setting of the shared client: a request without one uses what the last request with one left.\<close>

lemma FetchSecret_client:
  assumes "FetchSecret api m p v ns c w = (r, c', w')"
  shows "c' = c \<or> c' = (if ns \<noteq> [] then SetNamespace ns c else c)"
proof -
  from assms obtain q where x: "executeWithBreaker api (read_request api ns (secret_path m p v)) c w = (q, c', w')"
    by (auto simp: FetchSecret_def Let_def split: sum.splits prod.splits)
  show ?thesis
    by (rule breaker.keeps [OF x, of "\<lambda>d. d = c \<or> d = (if ns \<noteq> [] then SetNamespace ns c else c)"])
       (auto dest: read_request_client)
qed

definition last_namespace :: "string \<Rightarrow> string list \<Rightarrow> string" where
  "last_namespace initial nss = foldl (\<lambda>cur ns. if ns \<noteq> [] then ns else cur) initial nss"

text \<open>A sequence of requests of one client, each given by its mount, path, version and namespace.\<close>

fun fetch_all ::
  "'w vault_api \<Rightarrow> (string \<times> string \<times> string \<times> string) list \<Rightarrow> Client \<Rightarrow> 'w \<Rightarrow>
   (vault_error + SecretData) list \<times> Client \<times> 'w" where
  "fetch_all api [] c w = ([], c, w)"
| "fetch_all api ((m, p, v, ns) # rs) c w =
     (case FetchSecret api m p v ns c w of
        (r, c1, w1) \<Rightarrow> (case fetch_all api rs c1 w1 of (qs, c2, w2) \<Rightarrow> (r # qs, c2, w2)))"

lemma FetchSecret_no_breaker:
  assumes "cl_breaker c = None"
  shows "FetchSecret api m p v ns c w =
     (case api_Read api ((cl_session c)\<lparr>ses_Namespace := last_namespace (ses_Namespace (cl_session c)) [ns]\<rparr>)
             (secret_path m p v) w of
        (Inl e, w') \<Rightarrow> (Inl (Wrapped InRead (ApiError e)), if ns \<noteq> [] then SetNamespace ns c else c, w')
      | (Inr s, w') \<Rightarrow> (unpack_secret v p (SecretPtr s), if ns \<noteq> [] then SetNamespace ns c else c, w'))"
  using assms
  by (auto simp: FetchSecret_def executeWithBreaker_def read_request_def api_call_def SetNamespace_def
      last_namespace_def Let_def split: sum.splits prod.splits)

lemma fetch_all_client:
  assumes "cl_breaker c = None" and "fetch_all api rs c w = (qs, c', w')"
  shows "cl_session c' = (cl_session c)\<lparr>ses_Namespace :=
           last_namespace (ses_Namespace (cl_session c)) (map (\<lambda>(m, p, v, ns). ns) rs)\<rparr>"
    and "cl_breaker c' = None"
proof -
  have "cl_session c' = (cl_session c)\<lparr>ses_Namespace :=
           last_namespace (ses_Namespace (cl_session c)) (map (\<lambda>(m, p, v, ns). ns) rs)\<rparr> \<and> cl_breaker c' = None"
    using assms
  proof (induction rs arbitrary: c w qs)
    case Nil
    then show ?case by (simp add: last_namespace_def)
  next
    case (Cons a rs)
    obtain m p v ns where a: "a = (m, p, v, ns)" by (cases a)
    obtain r c1 w1 where f: "FetchSecret api m p v ns c w = (r, c1, w1)" by (cases "FetchSecret api m p v ns c w")
    obtain qs' where rest: "fetch_all api rs c1 w1 = (qs', c', w')"
      using Cons.prems(2) f a by (auto split: prod.splits)
    have c1: "c1 = (if ns \<noteq> [] then SetNamespace ns c else c)"
      using f unfolding FetchSecret_no_breaker [OF Cons.prems(1)] by (auto split: sum.splits prod.splits)
    then have "cl_breaker c1 = None" using Cons.prems(1) by (simp add: SetNamespace_def)
    from Cons.IH [OF this rest] show ?case
      by (cases "ns = []") (simp_all add: c1 a SetNamespace_def last_namespace_def)
  qed
  then show "cl_session c' = (cl_session c)\<lparr>ses_Namespace :=
           last_namespace (ses_Namespace (cl_session c)) (map (\<lambda>(m, p, v, ns). ns) rs)\<rparr>"
    and "cl_breaker c' = None" by auto
qed

text \<open>
  The namespace of a request leaks into the requests after it.  After any sequence of requests of one
  client (without a breaker), a request that names no namespace reads in the last one that an earlier request
  named; only when none did is it the client's original one.
\<close>

theorem FetchSecret_namespace_leaks:
  assumes "cl_breaker c = None" and "fetch_all api rs c w = (qs, c1, w1)"
  shows "FetchSecret api m p v [] c1 w1 =
           FetchSecret api m p v (last_namespace (ses_Namespace (cl_session c)) (map (\<lambda>(m, p, v, ns). ns) rs)) c1 w1"
proof -
  let ?l = "last_namespace (ses_Namespace (cl_session c)) (map (\<lambda>(m, p, v, ns). ns) rs)"
  note f = fetch_all_client [OF assms]
  have l: "ses_Namespace (cl_session c1) = ?l" using f(1) by simp
  have same: "SetNamespace ?l c1 = c1" unfolding l [symmetric] by (simp add: SetNamespace_def)
  have a: "FetchSecret api m p v ns c1 w1 =
     (case api_Read api ((cl_session c1)\<lparr>ses_Namespace := ?l\<rparr>) (secret_path m p v) w1 of
        (Inl e, w') \<Rightarrow> (Inl (Wrapped InRead (ApiError e)), c1, w')
      | (Inr s, w') \<Rightarrow> (unpack_secret v p (SecretPtr s), c1, w'))" if "ns = ?l \<or> ns = []" for ns
  proof -
    have "(if ns \<noteq> [] then SetNamespace ns c1 else c1) = c1" using that same by auto
    moreover have "last_namespace (ses_Namespace (cl_session c1)) [ns] = ?l"
      using that l by (auto simp: last_namespace_def [of _ "[_]"])
    ultimately show ?thesis using FetchSecret_no_breaker [OF f(2), of api m p v ns w1] by (simp only:)
  qed
  show ?thesis using a [of "[]"] a [of ?l] by simp
qed

section \<open>The retry policy\<close>

text \<open>
  The reference: the state after a number of reads, the pauses of the policy, and the outcome as a
  search for the first attempt that succeeds.
\<close>

fun after :: "('s \<Rightarrow> 'r \<times> 's) \<Rightarrow> nat \<Rightarrow> 's \<Rightarrow> 's" where
  "after fetch 0 s = s"
| "after fetch (Suc i) s = after fetch i (snd (fetch s))"

definition succeeds :: "('s \<Rightarrow> (vault_error + 'a) \<times> 's) \<Rightarrow> 's \<Rightarrow> nat \<Rightarrow> bool" where
  "succeeds fetch s i \<longleftrightarrow> (\<exists>d. fst (fetch (after fetch i s)) = Inr d)"

definition backoff_at :: "(f64 \<Rightarrow> int) \<Rightarrow> RetryConfig \<Rightarrow> nat \<Rightarrow> int" where
  "backoff_at oor config i = (next_backoff oor config ^^ i) (rc_InitialBackoff config)"

definition retry_outcome ::
  "(f64 \<Rightarrow> int) \<Rightarrow> RetryConfig \<Rightarrow> ('s \<Rightarrow> (vault_error + 'a) \<times> 's) \<Rightarrow> nat \<Rightarrow> 's \<Rightarrow> (vault_error + 'a) \<times> int list \<times> 's" where
  "retry_outcome oor config fetch m s =
     (case find (succeeds fetch s) [0..<Suc m] of
        Some k \<Rightarrow> (fst (fetch (after fetch k s)), map (backoff_at oor config) [0..<k], after fetch (Suc k) s)
      | None \<Rightarrow> (Inl (RetriesExhausted (int m) (Some (projl (fst (fetch (after fetch m s)))))),
                 map (backoff_at oor config) [0..<m], after fetch (Suc m) s))"

lemma find_upt_Suc: "find P [0..<Suc n] = (if P 0 then Some 0 else map_option Suc (find (P \<circ> Suc) [0..<n]))"
proof -
  have "find P (map Suc xs) = map_option Suc (find (P \<circ> Suc) xs)" for xs
    by (induction xs) auto
  from this [of "[0..<n]"] show ?thesis by (simp add: upt_conv_Cons map_Suc_upt del: upt_Suc)
qed

lemma succeeds_simps:
  "succeeds fetch s 0 \<longleftrightarrow> (\<exists>d. fst (fetch s) = Inr d)"
  "succeeds fetch s \<circ> Suc = succeeds fetch (snd (fetch s))"
  by (auto simp: succeeds_def fun_eq_iff)

lemma backoff_shift:
  "map (\<lambda>i. (next_backoff oor config ^^ i) b) [0..<Suc n] =
     b # map (\<lambda>i. (next_backoff oor config ^^ i) (next_backoff oor config b)) [0..<n]"
  by (simp add: upt_conv_Cons map_Suc_upt [symmetric] funpow_swap1 comp_def del: upt_Suc)

lemma retry_loop_later:
  "retry_loop oor config (\<lambda>_. False) fetch left (Suc a) b lastErr s =
     (case find (succeeds fetch s) [0..<left] of
        Some k \<Rightarrow> (fst (fetch (after fetch k s)), map (\<lambda>i. (next_backoff oor config ^^ i) b) [0..<Suc k], after fetch (Suc k) s)
      | None \<Rightarrow> (Inl (RetriesExhausted (rc_MaxRetries config)
                   (if left = 0 then lastErr else Some (projl (fst (fetch (after fetch (left - 1) s)))))),
                 map (\<lambda>i. (next_backoff oor config ^^ i) b) [0..<left], after fetch left s))"
proof (induction left arbitrary: a b lastErr s)
  case 0
  then show ?case by simp
next
  case (Suc left)
  obtain r s' where f: "fetch s = (r, s')" by (cases "fetch s")
  show ?case
  proof (cases r)
    case (Inr d)
    with f show ?thesis by (simp add: find_upt_Suc succeeds_simps del: upt_Suc) simp
  next
    case (Inl e)
    have "succeeds fetch s 0 = False" using f Inl by (simp add: succeeds_simps)
    moreover have "retry_loop oor config (\<lambda>_. False) fetch (Suc left) (Suc a) b lastErr s =
        (case retry_loop oor config (\<lambda>_. False) fetch left (Suc (Suc a)) (next_backoff oor config b) (Some e) s' of
           (r, ws, s'') \<Rightarrow> (r, b # ws, s''))"
      using f Inl by simp
    ultimately show ?thesis
      using f Inl unfolding find_upt_Suc succeeds_simps(2) backoff_shift Suc.IH
      by (cases "find (succeeds fetch s') [0..<left]"; cases left) (simp_all add: backoff_shift del: upt_Suc)
  qed
qed

text \<open>
  C17: the retry loop does what its description says.  Unless the context is cancelled, the result is
  that of the first of the \<open>MaxRetries + 1\<close> attempts that succeeds, or the error of the last one; there
  is one attempt more than there are pauses, and the pauses are those of the backoff sequence.
\<close>

theorem with_retry_outcome:
  assumes "rc_MaxRetries config = int m"
  shows "with_retry oor config (\<lambda>_. False) fetch s = retry_outcome oor config fetch m s"
proof -
  obtain r s' where f: "fetch s = (r, s')" by (cases "fetch s")
  have n: "nat (rc_MaxRetries config + 1) = Suc m" using assms by simp
  have b: "(\<lambda>i. (next_backoff oor config ^^ i) (rc_InitialBackoff config)) = backoff_at oor config"
    by (simp add: backoff_at_def fun_eq_iff)
  note later = retry_loop_later [of oor config fetch m 0 "rc_InitialBackoff config", unfolded b]
  show ?thesis
  proof (cases r)
    case (Inr d)
    with f n show ?thesis by (simp add: with_retry_def retry_outcome_def find_upt_Suc succeeds_simps del: upt_Suc)
  next
    case (Inl e)
    then have "succeeds fetch s 0 = False" using f by (simp add: succeeds_simps)
    moreover have "with_retry oor config (\<lambda>_. False) fetch s =
        retry_loop oor config (\<lambda>_. False) fetch m (Suc 0) (rc_InitialBackoff config) (Some e) s'"
      using f Inl unfolding with_retry_def n by simp
    ultimately show ?thesis
      using f Inl assms unfolding retry_outcome_def find_upt_Suc succeeds_simps(2) later
      by (cases "find (succeeds fetch s') [0..<m]"; cases m) (simp_all del: upt_Suc)
  qed
qed

text \<open>Doubling is exact in floating point below \<open>2^52\<close> nanoseconds, which is 52 days.\<close>

lemma double_exact:
  assumes "0 \<le> b" and "b < 2 ^ 52"
  shows "f64_to_int64 oor (f64_mul (f64_of_int b) (Fin 2)) = 2 * b"
proof -
  have "f64_of_int b = Fin (of_int b)" using assms by (intro f64_of_int_exact) simp
  moreover have "f64_round (of_int b * 2) = f64_of_int (2 * b)" by (simp add: f64_of_int_def mult.commute)
  moreover have "f64_of_int (2 * b) = Fin (of_int (2 * b))" using assms by (intro f64_of_int_exact) simp
  moreover have "rat_trunc (of_int (2 * b)) = 2 * b"
    using assms(1) floor_of_int [where ?'a = rat, of "2 * b"] by (simp add: rat_trunc_def)
  ultimately show ?thesis using assms by simp
qed

lemma next_backoff_capped: "next_backoff oor config b \<le> rc_MaxBackoff config"
  by (simp add: next_backoff_def Let_def)

lemma min_double: "0 \<le> (a :: int) \<Longrightarrow> 0 \<le> M \<Longrightarrow> min (2 * min a M) M = min (2 * a) M"
  by (auto simp: min_def)

lemma backoff_doubles:
  assumes "rc_Multiplier config = Fin 2" and "0 \<le> rc_InitialBackoff config" and "rc_InitialBackoff config < 2 ^ 52"
    and "0 \<le> rc_MaxBackoff config" and "rc_MaxBackoff config < 2 ^ 52"
  shows "backoff_at oor config i =
    (if i = 0 then rc_InitialBackoff config else min (2 ^ i * rc_InitialBackoff config) (rc_MaxBackoff config))"
proof (induction i)
  case 0
  then show ?case by (simp add: backoff_at_def)
next
  case (Suc i)
  let ?a = "2 ^ i * rc_InitialBackoff config" and ?M = "rc_MaxBackoff config"
  have a: "0 \<le> ?a" using assms(2) by simp
  have step: "next_backoff oor config b = min (2 * b) ?M" if "0 \<le> b" "b < 2 ^ 52" for b
    using double_exact [OF that, of oor] assms(1) by (simp add: next_backoff_def min_def)
  have "backoff_at oor config (Suc i) = next_backoff oor config (backoff_at oor config i)" by (simp add: backoff_at_def)
  also have "\<dots> = min (2 * ?a) ?M"
  proof (cases "i = 0")
    case True
    then show ?thesis using Suc.IH step assms(2,3) by simp
  next
    case False
    have "next_backoff oor config (min ?a ?M) = min (2 * min ?a ?M) ?M" using a assms(4,5) by (intro step) auto
    with False Suc.IH min_double [OF a assms(4)] show ?thesis by simp
  qed
  finally show ?case by (simp add: mult.assoc)
qed

text \<open>Cancelled or not, the pauses of a run are an initial part of the backoff sequence.\<close>

lemma retry_loop_pauses:
  "retry_loop oor config cancelled fetch left (Suc a) b e s = (q, ws, s') \<Longrightarrow>
   \<exists>n \<le> left. ws = map (\<lambda>i. (next_backoff oor config ^^ i) b) [0..<n]"
proof (induction left arbitrary: a b e s ws)
  case 0
  then show ?case by simp
next
  case (Suc left)
  obtain r s1 where f: "fetch s = (r, s1)" by (cases "fetch s")
  consider "ws = []" | "ws = [b]"
    | x ws' where "retry_loop oor config cancelled fetch left (Suc (Suc a)) (next_backoff oor config b) (Some x) s1 = (q, ws', s')"
        "ws = b # ws'"
    using Suc.prems f by (cases r) (auto simp: Let_def split: if_splits prod.splits)
  then show ?case
  proof cases
    case 1
    then show ?thesis by (intro exI [of _ 0]) simp
  next
    case 2
    then show ?thesis by (intro exI [of _ 1]) simp
  next
    case (3 x ws')
    from Suc.IH [OF 3(1)] obtain n where "n \<le> left"
      "ws' = map (\<lambda>i. (next_backoff oor config ^^ i) (next_backoff oor config b)) [0..<n]" by blast
    with 3(2) show ?thesis by (intro exI [of _ "Suc n"]) (simp only: backoff_shift Suc_le_mono simp_thms)
  qed
qed

lemma with_retry_pauses:
  assumes "with_retry oor config cancelled fetch s = (q, ws, s')"
  shows "\<exists>n \<le> nat (rc_MaxRetries config). ws = map (backoff_at oor config) [0..<n]"
proof (cases "nat (rc_MaxRetries config + 1)")
  case 0
  with assms show ?thesis by (auto simp: with_retry_def)
next
  case (Suc m)
  obtain r s1 where f: "fetch s = (r, s1)" by (cases "fetch s")
  have "ws = [] \<or> (\<exists>x. retry_loop oor config cancelled fetch m (Suc 0) (rc_InitialBackoff config) (Some x) s1 = (q, ws, s'))"
    using assms f unfolding with_retry_def Suc by (cases r) (auto split: prod.splits)
  then consider "ws = []" | n where "n \<le> m" "ws = map (backoff_at oor config) [0..<n]"
    by (auto dest!: retry_loop_pauses simp: backoff_at_def)
  then show ?thesis
  proof cases
    case 1
    then show ?thesis by (intro exI [of _ 0]) simp
  next
    case (2 n)
    moreover have "m = nat (rc_MaxRetries config)" using Suc by linarith
    ultimately show ?thesis by blast
  qed
qed

text \<open>
  C35: with the default multiplier 2 the pauses grow exponentially up to their bound.  A fetch makes at most \<open>MaxRetries\<close>
  pauses; the first is \<open>InitialBackoff\<close>, whatever the bound, and the i-th after it is exactly
  \<open>min (2^i * InitialBackoff) MaxBackoff\<close>, for every initial pause and every bound that are not negative and below \<open>2^52\<close>
  nanoseconds (52 days), where the arithmetic in floating point is exact.
\<close>

theorem backoff_exponential:
  assumes "rc_Multiplier config = Fin 2" and "0 \<le> rc_InitialBackoff config" and "rc_InitialBackoff config < 2 ^ 52"
    and "0 \<le> rc_MaxBackoff config" and "rc_MaxBackoff config < 2 ^ 52"
    and "FetchSecretWithRetry api oor cancelled mount path version ns config c w = (r, pauses, s)"
  shows "length pauses \<le> nat (rc_MaxRetries config) \<and>
         (\<forall>i < length pauses. pauses ! i =
            (if i = 0 then rc_InitialBackoff config else min (2 ^ i * rc_InitialBackoff config) (rc_MaxBackoff config)))"
proof -
  from assms(6) obtain n where "n \<le> nat (rc_MaxRetries config)" "pauses = map (backoff_at oor config) [0..<n]"
    unfolding FetchSecretWithRetry_def by (blast dest: with_retry_pauses)
  then show ?thesis using backoff_doubles [OF assms(1-5), of oor] by simp
qed

section \<open>A concrete server\<close>

text \<open>
  A server that holds one secret and counts the reads, the first \<open>broken\<close> of which fail; it answers in no
  namespace but \<open>ns\<close>.  The breaker admits everything.
\<close>

definition sample_api :: "nat \<Rightarrow> nat vault_api" where
  "sample_api broken =
     \<lparr>api_ConfigureTLS = (\<lambda>_ _ _. None),
      api_NewClient = (\<lambda>a t w. Inr \<lparr>ses_Address = a, ses_TLS = t, ses_Token = [], ses_Namespace = []\<rparr>),
      api_Read = (\<lambda>s p w.
        (if w < broken then Inl ''503''
         else if ses_Namespace s = ''ns'' \<and> p = ''kv/data/app''
         then Inr (Some \<lparr>as_Data = Some [(''data'', JObject [(''k'', JString ''v'')])], as_Auth = None\<rparr>)
         else Inr None, Suc w)),
      api_Write = (\<lambda>s p d w. (Inr (Some \<lparr>as_Data = None,
        as_Auth = Some \<lparr>auth_ClientToken = ''t1'', auth_LeaseDuration = 60, auth_Renewable = True\<rparr>\<rparr>), w)),
      api_LookupSelf = (\<lambda>s w. (if ses_Token s = ''root'' then Inr None else Inl ''403'', w)),
      api_Health = (\<lambda>s w. (Inr \<lparr>hr_ClusterName = ''c'', hr_Version = ''1'', hr_Standby = False\<rparr>, w)),
      api_Leader = (\<lambda>s w. (Inr (Some ''l''), w)),
      br_New = (\<lambda>_ w. (0, w)), br_Admit = (\<lambda>_ w. (None, w)), br_Report = (\<lambda>_ _ w. w)\<rparr>"

definition sample_client :: Client where
  "sample_client =
     \<lparr>cl_session = \<lparr>ses_Address = ''https://v'', ses_TLS = None, ses_Token = ''root'', ses_Namespace = []\<rparr>,
      cl_breaker = None, cl_authSecret = None, cl_authConfig = None\<rparr>"

definition sample_retry :: RetryConfig where
  "sample_retry = \<lparr>rc_InitialBackoff = Second, rc_MaxBackoff = 5 * Minute, rc_Multiplier = Fin 2, rc_MaxRetries = 3\<rparr>"

lemmas sample_vault_defs = sample_api_def sample_client_def sample_retry_def

lemmas fetch_eval =
  FetchSecret_def executeWithBreaker_def read_request_def api_call_def unpack_secret_def SetNamespace_def
  secret_path_def path_Join_def path_Clean_def filepath_IsAbs_def has_prefix_def clean_elems_def render_path_def

lemma sample_fetch:
  "FetchSecret (sample_api n) ''kv'' ''app'' ''v2'' ''ns'' sample_client w =
     (if w < n then Inl (Wrapped InRead (ApiError ''503'')) else Inr [(''k'', JString ''v'')],
      SetNamespace ''ns'' sample_client, Suc w)"
  by (simp add: fetch_eval sample_vault_defs Let_def)

theorem FetchSecret_result_witness:
  "\<exists>d c' w' ses v secret.
     FetchSecret (sample_api 0) ''kv'' ''app'' ''v2'' ''ns'' sample_client 0 = (Inr d, c', w') \<and> d = [(''k'', JString ''v'')] \<and>
     api_Read (sample_api 0) ses ''kv/data/app'' 0 = (Inr (Some secret), v) \<and> ses_Namespace ses = ''ns'' \<and>
     as_Data secret = Some [(''data'', JObject d)]"
proof -
  let ?d = "[(''k'', JString ''v'')]"
  have f: "FetchSecret (sample_api 0) ''kv'' ''app'' ''v2'' ''ns'' sample_client 0 = (Inr ?d, SetNamespace ''ns'' sample_client, Suc 0)"
    by (simp add: sample_fetch)
  have p: "path_Join [''kv'', ''data'', ''app''] = ''kv/data/app''" by (simp add: fetch_eval)
  have a: "admitted_state (sample_api 0) sample_client 0 = 0" by (simp add: admitted_state_def sample_vault_defs)
  from FetchSecret_result [OF f] obtain ses v secret data where
    r: "api_Read (sample_api 0) ses ''kv/data/app'' 0 = (Inr (Some secret), v)"
      "ses = (cl_session sample_client)\<lparr>ses_Namespace := ''ns''\<rparr>" "as_Data secret = Some data"
      "map_of data ''data'' = Some (JObject ?d)" unfolding a by (auto simp: p)
  then have "data = [(''data'', JObject ?d)]" by (auto simp: sample_api_def split: if_splits)
  moreover have "ses_Namespace ses = ''ns''" using r(2) by simp
  ultimately show ?thesis using f r(1,3) by blast
qed

theorem FetchSecret_never_not_found_witness:
  "fst (FetchSecret (sample_api 0) ''kv'' ''none'' ''v1'' [] sample_client 0) = Inl (Plain InvalidResponse)"
proof -
  have "fst (api_Read (sample_api 0) (cl_session sample_client) (secret_path ''kv'' ''none'' ''v1'') 0) = Inr None"
    by (simp add: fetch_eval sample_vault_defs)
  then show ?thesis
    using FetchSecret_never_not_found [of "sample_api 0" "''kv''" "''none''" "''v1''" "[]" sample_client 0 "[]"]
    by (simp add: sample_client_def)
qed

theorem FetchSecret_namespace_leaks_witness:
  "fst (FetchSecret (sample_api 0) ''kv'' ''app'' ''v2'' [] sample_client 0) = Inl (Plain InvalidResponse) \<and>
   fst (FetchSecret (sample_api 0) ''kv'' ''app'' ''v2'' [] (SetNamespace ''ns'' sample_client) 1) =
     Inr [(''k'', JString ''v'')]"
proof -
  have r: "fetch_all (sample_api 0) [(''kv'', ''app'', ''v2'', ''ns'')] sample_client 0 =
      ([Inr [(''k'', JString ''v'')]], SetNamespace ''ns'' sample_client, 1)"
    by (simp add: sample_fetch)
  have b: "cl_breaker sample_client = None" by (simp add: sample_client_def)
  have l: "last_namespace (ses_Namespace (cl_session sample_client)) (map (\<lambda>(m, p, v, ns). ns) [(''kv'', ''app'', ''v2'', ''ns'')]) = ''ns''"
    by (simp add: last_namespace_def)
  have e: "fst (FetchSecret (sample_api 0) ''kv'' ''app'' ''v2'' ''ns'' (SetNamespace ''ns'' sample_client) 1) =
      Inr [(''k'', JString ''v'')]"
    and n: "fst (FetchSecret (sample_api 0) ''kv'' ''app'' ''v2'' [] sample_client 0) = Inl (Plain InvalidResponse)"
    by (simp_all add: fetch_eval sample_vault_defs Let_def)
  have "FetchSecret (sample_api 0) ''kv'' ''app'' ''v2'' [] (SetNamespace ''ns'' sample_client) 1 =
        FetchSecret (sample_api 0) ''kv'' ''app'' ''v2'' ''ns'' (SetNamespace ''ns'' sample_client) 1"
    using FetchSecret_namespace_leaks [OF b r, of "''kv''" "''app''" "''v2''"] unfolding l .
  with e n show ?thesis by (simp only:)
qed

theorem with_retry_outcome_witness:
  "fst (with_retry (\<lambda>_. 0) sample_retry (\<lambda>_. False)
          (\<lambda>n. (if n < 2 then Inl ContextCancelled else Inr n, Suc n)) (0 :: nat)) = Inr 2"
proof -
  have r: "rc_MaxRetries sample_retry = int 3" by (simp add: sample_retry_def)
  show ?thesis
    unfolding with_retry_outcome [OF r]
    by (simp add: retry_outcome_def succeeds_def numeral_3_eq_3 numeral_2_eq_2)
qed

lemma sample_fetch_again:
  "FetchSecret (sample_api n) ''kv'' ''app'' ''v2'' ''ns'' (SetNamespace ''ns'' sample_client) w =
     (if w < n then Inl (Wrapped InRead (ApiError ''503'')) else Inr [(''k'', JString ''v'')],
      SetNamespace ''ns'' sample_client, Suc w)"
  by (simp add: fetch_eval sample_vault_defs Let_def)

text \<open>An initial pause above the bound is made as it is; the server fails all four reads.\<close>

theorem backoff_exponential_witness:
  "\<exists>r pauses s. FetchSecretWithRetry (sample_api 9) (\<lambda>_. 0) (\<lambda>_. False) ''kv'' ''app'' ''v2'' ''ns''
       (sample_retry\<lparr>rc_InitialBackoff := 10 * Minute\<rparr>) sample_client 0 = (r, pauses, s) \<and>
     pauses = [10 * Minute, 5 * Minute, 5 * Minute]"
proof -
  let ?config = "sample_retry\<lparr>rc_InitialBackoff := 10 * Minute\<rparr>"
  obtain r pauses s where f: "FetchSecretWithRetry (sample_api 9) (\<lambda>_. 0) (\<lambda>_. False) ''kv'' ''app'' ''v2'' ''ns''
      ?config sample_client 0 = (r, pauses, s)" by (rule prod_cases3)
  have three: "length pauses = 3"
  proof -
    have "nat (rc_MaxRetries ?config + 1) = Suc (Suc (Suc (Suc 0)))" by (simp add: sample_retry_def)
    with f show ?thesis
      unfolding FetchSecretWithRetry_def with_retry_def
      by (simp only: retry_loop.simps) (auto simp: sample_fetch sample_fetch_again Let_def)
  qed
  have "pauses ! i = (if i = 0 then 10 * Minute else min (2 ^ i * (10 * Minute)) (5 * Minute))" if "i < 3" for i
    using backoff_exponential [OF _ _ _ _ _ f] that three by (simp add: sample_retry_def Second_def Minute_def)
  from this [of 0] this [of 1] this [of 2] have "pauses = [10 * Minute, 5 * Minute, 5 * Minute]"
    using three by (intro nth_equalityI) (auto simp: less_Suc_eq numeral_3_eq_3 numeral_2_eq_2 Minute_def Second_def)
  with f show ?thesis by blast
qed

end
