(* ===== verification/Vault_Auth.thy ===== *)
theory Vault_Auth
  imports Vault_Fetch
begin

text \<open>
  \<open>internal/vault/auth.go\<close>: the two ways to authenticate and the goroutine that keeps an AppRole token
  alive.  The watcher that renews a token is third-party; it is the argument \<open>newWatcher\<close> and the
  events on its two channels are the inputs of the goroutine.
\<close>

section \<open>Authentication\<close>

definition authenticateToken :: "'w vault_api \<Rightarrow> string \<Rightarrow> ('w, unit) request" where
  "authenticateToken api token c w =
     (if token = [] then (Inl (Plain (RequiredField ''token'')), c, w)
      else (case executeWithBreaker api (api_call (api_LookupSelf api) SecretPtr) (SetToken token c) w of
          (Inl e, c', w') \<Rightarrow> (Inl (Wrapped InTokenAuth e), c', w')
        | (Inr _, c', w') \<Rightarrow> (Inr (), c', w')))"

definition authenticateAppRole :: "'w vault_api \<Rightarrow> string \<Rightarrow> string \<Rightarrow> ('w, unit) request" where
  "authenticateAppRole api roleID secretID c w =
     (if roleID = [] then (Inl (Plain (RequiredField ''roleId'')), c, w)
      else if secretID = [] then (Inl (Plain (RequiredField ''secretId'')), c, w)
      else
        (let data = [(''role_id'', roleID), (''secret_id'', secretID)] in
         (case executeWithBreaker api (api_call (\<lambda>s. api_Write api s ''auth/approle/login'' data) SecretPtr) c w of
            (Inl e, c', w') \<Rightarrow> (Inl (Wrapped InAppRole e), c', w')
          | (Inr result, c', w') \<Rightarrow>
              (case result of
                 SecretPtr (Some resp) \<Rightarrow>
                   (case as_Auth resp of
                      None \<Rightarrow> (Inl (Plain NoLoginToken), c', w')
                    | Some a \<Rightarrow> (Inr (), (SetToken (auth_ClientToken a) c')\<lparr>cl_authSecret := Some resp\<rparr>, w'))
               | _ \<Rightarrow> (Inl (Plain NoLoginToken), c', w')))))"

definition Authenticate :: "'w vault_api \<Rightarrow> AuthConfig \<Rightarrow> ('w, unit) request" where
  "Authenticate api config c w =
     (let c1 = c\<lparr>cl_authConfig := Some config\<rparr> in
      if ac_Method config = ''token'' then authenticateToken api (ac_Token config) c1 w
      else if ac_Method config = ''approle'' then
        authenticateAppRole api (ac_RoleID config) (ac_SecretID config) c1 w
      else (Inl (Plain (UnsupportedMethod (ac_Method config))), c1, w))"

section \<open>The renewal goroutine\<close>

datatype event = Renewed int | ReAuthenticating | ReAuthenticated int | ReAuthFailed | Expired

text \<open>
  Where the goroutine is, and how the call that starts it can end.  \<open>NotStarted\<close> is the case of a token
  that cannot be renewed: the caller gets a stop function that does nothing.
\<close>

datatype phase = NotStarted | Running | Exited | Panicked panic

record 'w renewal =
  rn_client :: Client
  rn_world :: 'w
  rn_phase :: phase
  rn_stopped :: bool
  rn_watcher :: nat
  rn_log :: "event list"

type_synonym 'w watcher_factory = "Client \<Rightarrow> ApiSecret \<Rightarrow> 'w \<Rightarrow> (string + nat) \<times> 'w"

definition StartRenewal ::
  "'w watcher_factory \<Rightarrow> Client \<Rightarrow> 'w \<Rightarrow> (string, 'w renewal) outcome" where
  "StartRenewal newWatcher c w =
     (let idle = \<lparr>rn_client = c, rn_world = w, rn_phase = NotStarted, rn_stopped = False, rn_watcher = 0, rn_log = []\<rparr> in
      (case cl_authSecret c of
         None \<Rightarrow> Ok idle
       | Some s \<Rightarrow>
           (case as_Auth s of
              None \<Rightarrow> Panic NilDereference
            | Some a \<Rightarrow>
                (if \<not> auth_Renewable a then Ok idle
                 else (case newWatcher c s w of
                     (Inl e, w') \<Rightarrow> Err e
                   | (Inr i, w') \<Rightarrow> Ok (idle\<lparr>rn_world := w', rn_phase := Running, rn_watcher := i\<rparr>))))))"

text \<open>The stop function: it closes a channel, so calling it twice panics.\<close>

definition stop_renewal :: "'w renewal \<Rightarrow> (string, 'w renewal) outcome" where
  "stop_renewal st =
     (if rn_phase st = NotStarted then Ok st
      else if rn_stopped st then Panic CloseOfClosedChannel
      else Ok (st\<lparr>rn_stopped := True\<rparr>))"

text \<open>
  What the \<open>select\<close> can receive: the closed stop channel, a renewal (which may be nil), the end of the
  watcher.
\<close>

datatype input = StopReady | RenewCh "ApiSecret option" | DoneCh

definition log_event :: "event \<Rightarrow> 'w renewal \<Rightarrow> 'w renewal" where
  "log_event e st = st\<lparr>rn_log := rn_log st @ [e]\<rparr>"

definition on_done :: "'w vault_api \<Rightarrow> 'w watcher_factory \<Rightarrow> 'w renewal \<Rightarrow> 'w renewal" where
  "on_done api newWatcher st =
     (if rn_stopped st then st\<lparr>rn_phase := Exited\<rparr>
      else (case cl_authConfig (rn_client st) of
          Some cfg \<Rightarrow>
            (if ac_Method cfg = ''approle'' then
               (let st1 = log_event ReAuthenticating st in
                (case authenticateAppRole api (ac_RoleID cfg) (ac_SecretID cfg) (rn_client st1) (rn_world st1) of
                   (Inl e, c', w') \<Rightarrow>
                     (log_event ReAuthFailed (st1\<lparr>rn_client := c', rn_world := w'\<rparr>))\<lparr>rn_phase := Exited\<rparr>
                 | (Inr _, c', w') \<Rightarrow>
                     (let st2 = st1\<lparr>rn_client := c', rn_world := w'\<rparr> in
                      (case cl_authSecret c' of
                         None \<Rightarrow> st2\<lparr>rn_phase := Exited\<rparr>
                       | Some s \<Rightarrow>
                           (case as_Auth s of
                              None \<Rightarrow> st2\<lparr>rn_phase := Panicked NilDereference\<rparr>
                            | Some a \<Rightarrow>
                                (if \<not> auth_Renewable a then st2\<lparr>rn_phase := Exited\<rparr>
                                 else (case newWatcher c' s w' of
                                     (Inl e, w'') \<Rightarrow> (log_event ReAuthFailed (st2\<lparr>rn_world := w''\<rparr>))\<lparr>rn_phase := Exited\<rparr>
                                   | (Inr i, w'') \<Rightarrow>
                                       (log_event (ReAuthenticated (auth_LeaseDuration a)) (st2\<lparr>rn_world := w''\<rparr>))\<lparr>rn_watcher := i\<rparr>)))))))
             else (log_event Expired st)\<lparr>rn_phase := Exited\<rparr>)
        | None \<Rightarrow> (log_event Expired st)\<lparr>rn_phase := Exited\<rparr>))"

definition renewal_step :: "'w vault_api \<Rightarrow> 'w watcher_factory \<Rightarrow> input \<Rightarrow> 'w renewal \<Rightarrow> 'w renewal" where
  "renewal_step api newWatcher inp st =
     (if rn_phase st \<noteq> Running then st
      else (case inp of
          StopReady \<Rightarrow> (if rn_stopped st then st\<lparr>rn_phase := Exited\<rparr> else st)
        | RenewCh None \<Rightarrow> st
        | RenewCh (Some s) \<Rightarrow>
            (case as_Auth s of
               None \<Rightarrow> st\<lparr>rn_phase := Panicked NilDereference\<rparr>
             | Some a \<Rightarrow> log_event (Renewed (auth_LeaseDuration a)) st)
        | DoneCh \<Rightarrow> on_done api newWatcher st))"

text \<open>
  The states the goroutine goes through from its start: its own steps, on renewals that carry
  their token data as the watcher documents, a call of the stop function, and changes of the world by others.
\<close>

inductive renewal_reach :: "'w vault_api \<Rightarrow> 'w watcher_factory \<Rightarrow> 'w renewal \<Rightarrow> 'w renewal \<Rightarrow> bool"
  for api newWatcher start where
  start: "renewal_reach api newWatcher start start"
| step: "renewal_reach api newWatcher start st \<Longrightarrow> (\<And>s. inp = RenewCh (Some s) \<Longrightarrow> as_Auth s \<noteq> None) \<Longrightarrow>
           renewal_reach api newWatcher start (renewal_step api newWatcher inp st)"
| stop: "renewal_reach api newWatcher start st \<Longrightarrow> stop_renewal st = Ok st' \<Longrightarrow>
           renewal_reach api newWatcher start st'"
| world: "renewal_reach api newWatcher start st \<Longrightarrow>
            renewal_reach api newWatcher start (st\<lparr>rn_world := w\<rparr>)"

section \<open>What authentication leaves behind\<close>

text \<open>
  The invariant of a client: a stored login answer carries token data, its token is the one in
  use, and it came from an AppRole login.
\<close>

definition auth_inv :: "Client \<Rightarrow> bool" where
  "auth_inv c \<longleftrightarrow>
     (\<forall>s. cl_authSecret c = Some s \<longrightarrow>
        (\<exists>a cfg. as_Auth s = Some a \<and> ses_Token (cl_session c) = auth_ClientToken a \<and>
           cl_authConfig c = Some cfg \<and> ac_Method cfg = ''approle''))"

lemma NewClient_inv: "NewClientWithTLS api addr tls w = Inr c \<Longrightarrow> cl_authSecret c = None \<and> cl_authConfig c = None"
  by (auto simp: NewClientWithTLS_def split: option.splits sum.splits)

lemma api_call_client: "api_call f g c w = (r, c', w') \<Longrightarrow> c' = c"
  by (auto simp: api_call_def split: prod.splits sum.splits)

lemma guarded_call_client: "executeWithBreaker api (api_call f g) c w = (r, c', w') \<Longrightarrow> c' = c"
  by (rule breaker.keeps [where P = "\<lambda>d. d = c"]) (auto dest: api_call_client)

lemma authenticateAppRole_cases:
  assumes "authenticateAppRole api r s c w = (q, c', w')"
  obtains (failed) e where "q = Inl e" and "c' = c"
  | (ok) resp a where "q = Inr ()" and "as_Auth resp = Some a"
      and "c' = (SetToken (auth_ClientToken a) c)\<lparr>cl_authSecret := Some resp\<rparr>" and "r \<noteq> []" and "s \<noteq> []"
proof (cases "r = [] \<or> s = []")
  case True
  with assms failed show thesis by (auto simp: authenticateAppRole_def split: if_splits)
next
  case False
  obtain x c1 w1 where x: "executeWithBreaker api
      (api_call (\<lambda>ses. api_Write api ses ''auth/approle/login'' [(''role_id'', r), (''secret_id'', s)]) SecretPtr) c w = (x, c1, w1)"
    using prod_cases3 by blast
  have c1: "c1 = c" using x by (rule guarded_call_client)
  from assms False x have "(case x of Inl e \<Rightarrow> (Inl (Wrapped InAppRole e), c, w1)
      | Inr (SecretPtr (Some resp)) \<Rightarrow>
          (case as_Auth resp of None \<Rightarrow> (Inl (Plain NoLoginToken), c, w1)
           | Some a \<Rightarrow> (Inr (), (SetToken (auth_ClientToken a) c)\<lparr>cl_authSecret := Some resp\<rparr>, w1))
      | Inr _ \<Rightarrow> (Inl (Plain NoLoginToken), c, w1)) = (q, c', w')"
    by (auto simp: authenticateAppRole_def c1 Let_def split: sum.splits response.splits option.splits)
  with False show thesis
    by (auto split: sum.splits response.splits option.splits intro: failed ok)
qed

lemma authenticateToken_client:
  assumes "authenticateToken api t c w = (q, c', w')"
  shows "c' = (if t = [] then c else SetToken t c)"
  using assms by (auto simp: authenticateToken_def split: if_splits sum.splits prod.splits dest: guarded_call_client)

text \<open>
  Authentication stores exactly what renewal needs.  On a new client, a successful \<open>Authenticate\<close> leaves
  the configured static token in use and nothing to renew, or the token of the login answer in use with
  that answer stored; after a failure nothing is stored, and no other method is accepted.
\<close>

theorem Authenticate_result:
  assumes "NewClientWithTLS api addr tls w0 = Inr c" and "Authenticate api config (c\<lparr>cl_breaker := b\<rparr>) w = (r, c', w')"
  shows "auth_inv c' \<and> cl_authConfig c' = Some config \<and>
         (r = Inr () \<longrightarrow>
            (ac_Method config = ''token'' \<and> ac_Token config \<noteq> [] \<and> cl_authSecret c' = None \<and>
               ses_Token (cl_session c') = ac_Token config) \<or>
            (ac_Method config = ''approle'' \<and> ac_RoleID config \<noteq> [] \<and> ac_SecretID config \<noteq> [] \<and>
               cl_authSecret c' \<noteq> None)) \<and>
         (r \<noteq> Inr () \<longrightarrow> cl_authSecret c' = None)"
proof -
  let ?c1 = "c\<lparr>cl_breaker := b, cl_authConfig := Some config\<rparr>"
  have c: "cl_authSecret ?c1 = None" "cl_authConfig ?c1 = Some config" using NewClient_inv [OF assms(1)] by simp_all
  consider (token) "ac_Method config = ''token''" "authenticateToken api (ac_Token config) ?c1 w = (r, c', w')"
    | (approle) "ac_Method config = ''approle''"
        "authenticateAppRole api (ac_RoleID config) (ac_SecretID config) ?c1 w = (r, c', w')"
    | (other) "\<exists>e. r = Inl e" "c' = ?c1"
    using assms(2) by (auto simp: Authenticate_def Let_def split: if_splits)
  then show ?thesis
  proof cases
    case token
    have "r = Inr () \<Longrightarrow> ac_Token config \<noteq> []" using token(2) by (auto simp: authenticateToken_def)
    with authenticateToken_client [OF token(2)] c token(1) show ?thesis
      by (auto simp: auth_inv_def SetToken_def)
  next
    case approle
    from approle(2) show ?thesis
    proof (cases rule: authenticateAppRole_cases)
      case (failed e)
      with c show ?thesis by (simp add: auth_inv_def)
    next
      case (ok resp a)
      with c approle(1) show ?thesis by (simp add: auth_inv_def SetToken_def)
    qed
  next
    case other
    with c show ?thesis by (auto simp: auth_inv_def)
  qed
qed

section \<open>The life of the renewal goroutine\<close>

text \<open>
  The invariant of its states.  An end without a call of the stop function has one of two reasons, which the last event
  and the stored token tell apart.
\<close>

definition silent_end :: "'w renewal \<Rightarrow> bool" where
  "silent_end st \<longleftrightarrow>
     rn_log st \<noteq> [] \<and> last (rn_log st) = ReAuthenticating \<and>
     (\<exists>s a. cl_authSecret (rn_client st) = Some s \<and> as_Auth s = Some a \<and> \<not> auth_Renewable a)"

definition renewal_inv :: "'w renewal \<Rightarrow> bool" where
  "renewal_inv st \<longleftrightarrow>
     auth_inv (rn_client st) \<and> Expired \<notin> set (rn_log st) \<and>
     (rn_phase st = NotStarted \<and> rn_log st = [] \<or>
      rn_phase st = Running \<and> cl_authSecret (rn_client st) \<noteq> None \<or>
      rn_phase st = Exited \<and>
        (rn_stopped st \<or> rn_log st \<noteq> [] \<and> last (rn_log st) = ReAuthFailed \<or> silent_end st))"

lemma auth_inv_approle:
  "auth_inv c \<Longrightarrow> cl_authSecret c \<noteq> None \<Longrightarrow> \<exists>cfg. cl_authConfig c = Some cfg \<and> ac_Method cfg = ''approle''"
  by (auto simp: auth_inv_def)

lemma auth_inv_login:
  "auth_inv c \<Longrightarrow> cl_authSecret c \<noteq> None \<Longrightarrow> as_Auth resp = Some a \<Longrightarrow>
   auth_inv ((SetToken (auth_ClientToken a) c)\<lparr>cl_authSecret := Some resp\<rparr>)"
  by (auto simp: auth_inv_def SetToken_def)

lemma on_done_inv:
  assumes "renewal_inv st" and "rn_phase st = Running"
  shows "renewal_inv (on_done api newWatcher st)"
proof -
  from assms have inv: "auth_inv (rn_client st)" "Expired \<notin> set (rn_log st)" "cl_authSecret (rn_client st) \<noteq> None"
    by (auto simp: renewal_inv_def)
  from auth_inv_approle [OF inv(1,3)] obtain cfg
    where cfg: "cl_authConfig (rn_client st) = Some cfg" "ac_Method cfg = ''approle''" by blast
  obtain q c' w' where a: "authenticateAppRole api (ac_RoleID cfg) (ac_SecretID cfg) (rn_client st) (rn_world st) = (q, c', w')"
    using prod_cases3 by blast
  show ?thesis
  proof (cases "rn_stopped st")
    case True
    with inv show ?thesis by (simp add: on_done_def renewal_inv_def)
  next
    case False
    from a show ?thesis
    proof (cases rule: authenticateAppRole_cases)
      case (failed e)
      with False a cfg inv show ?thesis by (simp add: on_done_def log_event_def renewal_inv_def)
    next
      case (ok resp a')
      note inv' = auth_inv_login [OF inv(1,3) ok(2)]
      obtain x w2 where n: "newWatcher c' resp w' = (x, w2)" by (cases "newWatcher c' resp w'")
      show ?thesis
        using False a cfg inv(2) inv' ok n assms(2)
        by (cases x) (auto simp: on_done_def log_event_def renewal_inv_def silent_end_def Let_def)
    qed
  qed
qed

lemma renewal_step_inv:
  assumes "renewal_inv st" and "\<And>s. inp = RenewCh (Some s) \<Longrightarrow> as_Auth s \<noteq> None"
  shows "renewal_inv (renewal_step api newWatcher inp st)"
proof (cases "rn_phase st = Running")
  case False
  with assms(1) show ?thesis by (simp add: renewal_step_def)
next
  case True
  show ?thesis
  proof (cases inp)
    case DoneCh
    with True on_done_inv [OF assms(1) True] show ?thesis by (simp add: renewal_step_def)
  next
    case StopReady
    with True assms(1) show ?thesis by (auto simp: renewal_step_def renewal_inv_def)
  next
    case (RenewCh r)
    show ?thesis
    proof (cases r)
      case None
      with True RenewCh assms(1) show ?thesis by (simp add: renewal_step_def)
    next
      case (Some s)
      with RenewCh assms(2) obtain a where "as_Auth s = Some a" by blast
      with True RenewCh Some assms(1) show ?thesis by (auto simp: renewal_step_def renewal_inv_def log_event_def)
    qed
  qed
qed

lemma StartRenewal_inv: "auth_inv c \<Longrightarrow> StartRenewal newWatcher c w = Ok st \<Longrightarrow> renewal_inv st"
  by (auto simp: StartRenewal_def renewal_inv_def Let_def split: option.splits if_splits prod.splits sum.splits)

lemma renewal_inv_stop: "renewal_inv st \<Longrightarrow> renewal_inv (st\<lparr>rn_stopped := True\<rparr>)"
  unfolding renewal_inv_def silent_end_def by simp blast

lemma renewal_inv_world: "renewal_inv st \<Longrightarrow> renewal_inv (st\<lparr>rn_world := w\<rparr>)"
  by (simp add: renewal_inv_def silent_end_def)

lemma renewal_reach_inv: "renewal_reach api newWatcher st0 st \<Longrightarrow> renewal_inv st0 \<Longrightarrow> renewal_inv st"
proof (induction rule: renewal_reach.induct)
  case (step st inp)
  then show ?case by (blast intro: renewal_step_inv)
next
  case (stop st st')
  then have "st' = st \<or> st' = st\<lparr>rn_stopped := True\<rparr>" by (simp add: stop_renewal_def split: if_splits)
  with stop show ?case by (auto intro: renewal_inv_stop)
next
  case (world st w)
  then show ?case by (simp add: renewal_inv_world)
qed

text \<open>
  C18: the renewal goroutine never panics and never reports an expired static token.  From any client that
  authentication can leave, starting it does not dereference a missing token, and no state it reaches has panicked; the event
  \<open>expired\<close> is dead code, because a client with a static token has nothing stored to renew.
\<close>

theorem renewal_safe:
  assumes "auth_inv c"
  shows "StartRenewal newWatcher c w \<noteq> Panic p \<and>
         (\<forall>st0 st. StartRenewal newWatcher c w = Ok st0 \<longrightarrow> renewal_reach api newWatcher st0 st \<longrightarrow>
            (\<forall>p. rn_phase st \<noteq> Panicked p) \<and> Expired \<notin> set (rn_log st) \<and> auth_inv (rn_client st))"
proof (intro conjI allI impI)
  show "StartRenewal newWatcher c w \<noteq> Panic p"
    using assms by (auto simp: StartRenewal_def auth_inv_def Let_def split: option.splits prod.splits sum.splits)
next
  fix st0 st assume s: "StartRenewal newWatcher c w = Ok st0" "renewal_reach api newWatcher st0 st"
  from renewal_reach_inv [OF s(2) StartRenewal_inv [OF assms s(1)]] have inv: "renewal_inv st" .
  then show "rn_phase st \<noteq> Panicked p" for p by (auto simp: renewal_inv_def)
  from inv show "Expired \<notin> set (rn_log st)" and "auth_inv (rn_client st)" by (auto simp: renewal_inv_def)
qed

text \<open>
  C39: how renewal ends on its own.  If the goroutine has ended although nobody stopped it, the last event it
  reported is a failed re-authentication, or it is \<open>re-authenticating\<close> and the new token is one that cannot be
  renewed: in that case it ends without telling anyone.
\<close>

theorem renewal_end:
  assumes "auth_inv c" and "StartRenewal newWatcher c w = Ok st0" and "renewal_reach api newWatcher st0 st"
    and "rn_phase st = Exited" and "\<not> rn_stopped st"
  shows "rn_log st \<noteq> [] \<and>
         (last (rn_log st) = ReAuthFailed \<or>
          last (rn_log st) = ReAuthenticating \<and>
          (\<exists>s a. cl_authSecret (rn_client st) = Some s \<and> as_Auth s = Some a \<and> \<not> auth_Renewable a))"
  using renewal_reach_inv [OF assms(3) StartRenewal_inv [OF assms(1,2)]] assms(4,5)
  by (auto simp: renewal_inv_def silent_end_def)

section \<open>A login and a renewal\<close>

definition approle_config :: AuthConfig where
  "approle_config = \<lparr>ac_Method = ''approle'', ac_Token = [], ac_RoleID = ''r'', ac_SecretID = ''s''\<rparr>"

definition approle_client :: Client where
  "approle_client = fst (snd (Authenticate (sample_api 0) approle_config sample_client 0))"

text \<open>The server of the second login gives a token that cannot be renewed.\<close>

definition final_api :: "nat vault_api" where
  "final_api = (sample_api 0)\<lparr>api_Write := (\<lambda>s p d w. (Inr (Some \<lparr>as_Data = None,
     as_Auth = Some \<lparr>auth_ClientToken = ''t2'', auth_LeaseDuration = 5, auth_Renewable = False\<rparr>\<rparr>), w))\<rparr>"

lemmas auth_eval =
  Authenticate_def authenticateAppRole_def authenticateToken_def executeWithBreaker_def api_call_def SetToken_def
  approle_config_def sample_api_def sample_client_def NewClientWithTLS_def

lemma approle_client_eq:
  "cl_authSecret approle_client = Some \<lparr>as_Data = None, as_Auth = Some \<lparr>auth_ClientToken = ''t1'',
      auth_LeaseDuration = 60, auth_Renewable = True\<rparr>\<rparr>"
  "cl_authConfig approle_client = Some approle_config" "cl_breaker approle_client = None"
  "ses_Token (cl_session approle_client) = ''t1''"
  by (simp_all add: approle_client_def auth_eval Let_def)

lemma approle_inv: "auth_inv approle_client"
  by (simp add: auth_inv_def approle_client_eq) (simp add: approle_config_def)

theorem Authenticate_result_witness:
  "cl_authSecret (fst (snd (Authenticate (sample_api 0) approle_config
      (the_elem {c. NewClientWithTLS (sample_api 0) ''https://v'' None 0 = Inr c}) 0))) \<noteq> None"
proof -
  define c where "c = \<lparr>cl_session = \<lparr>ses_Address = ''https://v'', ses_TLS = None, ses_Token = [], ses_Namespace = []\<rparr>,
      cl_breaker = None, cl_authSecret = None, cl_authConfig = None\<rparr>"
  have n: "NewClientWithTLS (sample_api 0) ''https://v'' None 0 = Inr c"
    by (simp add: NewClientWithTLS_def sample_api_def c_def)
  have r: "fst (Authenticate (sample_api 0) approle_config c 0) = Inr ()"
    by (simp add: auth_eval c_def Let_def)
  obtain c' w' where a: "Authenticate (sample_api 0) approle_config c 0 = (Inr (), c', w')"
    using r by (metis prod.collapse)
  have b: "c\<lparr>cl_breaker := None\<rparr> = c" by (simp add: c_def)
  have "cl_authSecret c' \<noteq> None"
    using Authenticate_result [OF n, of approle_config None 0 "Inr ()" c' w'] a b by (auto simp: approle_config_def)
  with a n show ?thesis by simp
qed

theorem renewal_safe_witness:
  "StartRenewal (\<lambda>_ _ w. (Inr 0, w)) approle_client (0 :: nat) \<noteq> Panic NilDereference"
  by (rule renewal_safe [OF approle_inv, THEN conjunct1])

theorem renewal_end_witness:
  "\<exists>st0 st. StartRenewal (\<lambda>_ _ w. (Inr 0, w)) approle_client (0 :: nat) = Ok st0 \<and>
     renewal_reach final_api (\<lambda>_ _ w. (Inr 0, w)) st0 st \<and> rn_phase st = Exited \<and> \<not> rn_stopped st \<and>
     rn_log st = [ReAuthenticating]"
proof -
  let ?nw = "\<lambda>_ _ w. (Inr 0, w :: nat)"
  define st0 where "st0 = \<lparr>rn_client = approle_client, rn_world = 0 :: nat, rn_phase = Running, rn_stopped = False,
      rn_watcher = 0, rn_log = []\<rparr>"
  define st where "st = renewal_step final_api ?nw DoneCh st0"
  have s: "StartRenewal ?nw approle_client 0 = Ok st0"
    by (simp add: StartRenewal_def st0_def approle_client_eq Let_def)
  have r: "renewal_reach final_api ?nw st0 st" unfolding st_def by (rule renewal_reach.step [OF renewal_reach.start]) simp
  have e: "rn_phase st = Exited" "\<not> rn_stopped st" and l: "rn_log st = [ReAuthenticating]"
    by (simp_all add: st_def renewal_step_def on_done_def st0_def log_event_def approle_client_eq final_api_def
        authenticateAppRole_def executeWithBreaker_def api_call_def approle_config_def SetToken_def Let_def)
  from renewal_end [OF approle_inv s r e] s r e l show ?thesis by blast
qed

end
