(* ===== verification/Template_Engine.thy ===== *)
theory Template_Engine
  imports Prelude "HOL-Library.AList"
begin

text \<open>
  \<open>internal/template/engine.go\<close>: a set of named templates and their rendering.  The template
  language is the library \<open>text/template\<close>; its parser and its interpreter are the arguments \<open>parse\<close> and
  \<open>execute\<close>.  An engine is an association list, in the order in which a \<open>range\<close> over the map visits it.
\<close>

datatype template_error = ParseFailed string string | TemplateNotFound string | ExecuteFailed string string

type_synonym 't engine = "(string \<times> 't) list"

definition NewEngine :: "'t engine" where "NewEngine = []"

text \<open>The name given to the parser has its hyphens replaced; the map key is the name itself.\<close>

definition AddTemplate ::
  "(string \<Rightarrow> string \<Rightarrow> string + 't) \<Rightarrow> string \<Rightarrow> string \<Rightarrow> 't engine \<Rightarrow> (template_error, 't engine) outcome" where
  "AddTemplate parse nm tmpl e =
     (let safeName = replace_char (CHR ''-'') (CHR ''_'') nm in
      (case parse safeName tmpl of
         Inl err \<Rightarrow> Err (ParseFailed nm err)
       | Inr t \<Rightarrow> Ok (AList.update nm t e)))"

definition Render :: "('t \<Rightarrow> 'd \<Rightarrow> string + string) \<Rightarrow> 't engine \<Rightarrow> string \<Rightarrow> 'd \<Rightarrow> (template_error, string) outcome" where
  "Render execute e nm data =
     (case map_of e nm of
        None \<Rightarrow> Err (TemplateNotFound nm)
      | Some t \<Rightarrow> (case execute t data of Inl err \<Rightarrow> Err (ExecuteFailed nm err) | Inr s \<Rightarrow> Ok s))"

fun render_names ::
  "('t \<Rightarrow> 'd \<Rightarrow> string + string) \<Rightarrow> 't engine \<Rightarrow> 'd \<Rightarrow> string list \<Rightarrow> (template_error, (string \<times> string) list) outcome" where
  "render_names execute e data [] = Ok []"
| "render_names execute e data (nm # ns) =
     and_then (Render execute e nm data) (\<lambda>s.
     and_then (render_names execute e data ns) (\<lambda>rs. Ok ((nm, s) # rs)))"

definition RenderAll ::
  "('t \<Rightarrow> 'd \<Rightarrow> string + string) \<Rightarrow> 't engine \<Rightarrow> 'd \<Rightarrow> (template_error, (string \<times> string) list) outcome" where
  "RenderAll execute e data = render_names execute e data (keys e)"

section \<open>Facts\<close>

fun add_templates ::
  "(string \<Rightarrow> string \<Rightarrow> string + 't) \<Rightarrow> (string \<times> string) list \<Rightarrow> 't engine \<Rightarrow> (template_error, 't engine) outcome" where
  "add_templates parse [] e = Ok e"
| "add_templates parse ((nm, tmpl) # ts) e = and_then (AddTemplate parse nm tmpl e) (add_templates parse ts)"

lemma Render_Ok: "Render execute e nm data = Ok s \<longleftrightarrow> (\<exists>t. map_of e nm = Some t \<and> execute t data = Inr s)"
  by (auto simp: Render_def split: option.splits sum.splits)

lemma Render_no_panic: "Render execute e nm data \<noteq> Panic p"
  by (simp add: Render_def split: option.split sum.split)

lemma render_names_Ok:
  "render_names execute e data ns = Ok rs \<Longrightarrow>
   keys rs = ns \<and> (\<forall>(nm, s) \<in> set rs. Render execute e nm data = Ok s)"
  by (induction ns arbitrary: rs) auto

lemma render_names_no_panic: "render_names execute e data ns \<noteq> Panic p"
  by (induction ns) (auto simp: and_then_Panic Render_no_panic)

lemma AddTemplate_Ok:
  "AddTemplate parse nm tmpl e = Ok e' \<longleftrightarrow>
     (\<exists>t. parse (replace_char (CHR ''-'') (CHR ''_'') nm) tmpl = Inr t \<and> e' = AList.update nm t e)"
  by (auto simp: AddTemplate_def Let_def split: sum.splits)

lemma AddTemplate_no_panic: "AddTemplate parse nm tmpl e \<noteq> Panic p"
  by (simp add: AddTemplate_def Let_def split: sum.split)

lemma add_templates_no_panic: "add_templates parse ts e \<noteq> Panic p"
  by (induction ts arbitrary: e) (auto simp: and_then_Panic AddTemplate_no_panic)

lemma keys_update: "keys (AList.update k v m) = (if k \<in> set (keys m) then keys m else keys m @ [k])"
  by (induction m) auto

lemma add_templates_Ok:
  assumes "add_templates parse ts e = Ok e'" and "go_map ts"
  shows "set (keys e') = set (keys e) \<union> set (keys ts)"
    and "(nm, tmpl) \<in> set ts \<Longrightarrow> \<exists>t. map_of e' nm = Some t \<and> parse (replace_char (CHR ''-'') (CHR ''_'') nm) tmpl = Inr t"
    and "nm \<notin> set (keys ts) \<Longrightarrow> map_of e' nm = map_of e nm"
    and "distinct (keys e) \<Longrightarrow> distinct (keys e')"
proof -
  have "set (keys e') = set (keys e) \<union> set (keys ts) \<and>
      ((nm, tmpl) \<in> set ts \<longrightarrow> (\<exists>t. map_of e' nm = Some t \<and> parse (replace_char (CHR ''-'') (CHR ''_'') nm) tmpl = Inr t)) \<and>
      (nm \<notin> set (keys ts) \<longrightarrow> map_of e' nm = map_of e nm) \<and> (distinct (keys e) \<longrightarrow> distinct (keys e'))"
    using assms
  proof (induction ts arbitrary: e)
    case Nil
    then show ?case by simp
  next
    case (Cons x ts)
    obtain n0 t0 where x: "x = (n0, t0)" by (cases x)
    from Cons.prems(1) x obtain e1 where e1: "AddTemplate parse n0 t0 e = Ok e1" "add_templates parse ts e1 = Ok e'" by auto
    then obtain t where t: "parse (replace_char (CHR ''-'') (CHR ''_'') n0) t0 = Inr t" "e1 = AList.update n0 t e"
      by (auto simp: AddTemplate_Ok)
    have g: "go_map ts" and new: "n0 \<notin> set (keys ts)" using Cons.prems(2) x by (auto simp: go_map_def)
    note ih = Cons.IH [OF e1(2) g]
    have "map_of e' n0 = Some t" if "nm = n0" using ih new t(2) that by (simp add: update_conv')
    with ih t x new show ?case by (auto simp: keys_update update_conv' split: if_splits)
  qed
  then show "set (keys e') = set (keys e) \<union> set (keys ts)"
    and "(nm, tmpl) \<in> set ts \<Longrightarrow> \<exists>t. map_of e' nm = Some t \<and> parse (replace_char (CHR ''-'') (CHR ''_'') nm) tmpl = Inr t"
    and "nm \<notin> set (keys ts) \<Longrightarrow> map_of e' nm = map_of e nm"
    and "distinct (keys e) \<Longrightarrow> distinct (keys e')" by auto
qed

end
