(* ===== verification/File_Store.thy ===== *)
theory File_Store
  imports Writer_Theorems
begin

text \<open>
  The contract between the syncer and the file writer: a store of files under names, whose \<open>write\<close>
  replaces one file completely or leaves all of them alone.  The syncer's loop over the files of a secret is
  analysed once against this contract; the interpretation shows that \<open>WriteFile\<close> provides it.
\<close>

section \<open>Writing several files\<close>

text \<open>
  The loop of the syncer: each element is prepared (which may fail) and written, until the first error.
\<close>

fun write_each ::
  "('x \<Rightarrow> ('d, 'c \<times> string) outcome) \<Rightarrow> ('c \<Rightarrow> 'e \<Rightarrow> 'd) \<Rightarrow>
   ('c \<Rightarrow> string \<Rightarrow> 'w \<Rightarrow> ('e, unit) outcome \<times> 'w) \<Rightarrow> 'x list \<Rightarrow> 'w \<Rightarrow> ('d, unit) outcome \<times> 'w" where
  "write_each prep wrap wr [] w = (Ok (), w)"
| "write_each prep wrap wr (x # xs) w =
     (case prep x of
        Err e \<Rightarrow> (Err e, w)
      | Panic p \<Rightarrow> (Panic p, w)
      | Ok (c, data) \<Rightarrow>
          (case wr c data w of
             (Ok _, w') \<Rightarrow> write_each prep wrap wr xs w'
           | (Err e, w') \<Rightarrow> (Err (wrap c e), w')
           | (Panic p, w') \<Rightarrow> (Panic p, w')))"

locale file_store =
  fixes wr :: "'c \<Rightarrow> string \<Rightarrow> 'w \<Rightarrow> ('e, unit) outcome \<times> 'w"
    and target :: "'c \<Rightarrow> 'p"
    and get :: "'w \<Rightarrow> 'p \<Rightarrow> 'f"
    and stored :: "'c \<Rightarrow> string \<Rightarrow> 'w \<Rightarrow> 'f"
    and ready :: "'p set \<Rightarrow> 'w \<Rightarrow> bool"
  assumes wr_ok: "ready P w \<Longrightarrow> target c \<in> P \<Longrightarrow> wr c d w = (Ok u, w') \<Longrightarrow>
      get w' (target c) = stored c d w \<and> (\<forall>p \<in> P. p \<noteq> target c \<longrightarrow> get w' p = get w p) \<and> ready P w' \<and>
      (\<forall>c' d'. stored c' d' w' = stored c' d' w)"
    and wr_err: "ready P w \<Longrightarrow> target c \<in> P \<Longrightarrow> wr c d w = (Err e, w') \<Longrightarrow> \<forall>p \<in> P. get w' p = get w p"
    and wr_no_panic: "ready P w \<Longrightarrow> target c \<in> P \<Longrightarrow> wr c d w \<noteq> (Panic q, w')"
begin

text \<open>Whatever happens, every file holds what it held, or what one of the elements prepares for it.\<close>

lemma write_each_each_old_or_new:
  assumes "write_each prep wrap wr xs w = (r, w')" and "ready P w"
    and "\<And>x c d. x \<in> set xs \<Longrightarrow> prep x = Ok (c, d) \<Longrightarrow> target c \<in> P" and "p \<in> P"
  shows "get w' p = get w p \<or>
         (\<exists>x \<in> set xs. \<exists>c d. prep x = Ok (c, d) \<and> target c = p \<and> get w' p = stored c d w)"
  using assms
proof (induction xs arbitrary: w)
  case Nil
  then show ?case by simp
next
  case (Cons x xs)
  show ?case
  proof (cases "prep x")
    case (Ok cd)
    obtain c d where cd: "cd = (c, d)" by (cases cd)
    have t: "target c \<in> P" using Cons.prems(3) [of x c d] Ok cd by simp
    obtain q v where q: "wr c d w = (q, v)" by (cases "wr c d w")
    show ?thesis
    proof (cases q)
      case ok: (Ok u)
      note s = wr_ok [OF Cons.prems(2) t q [unfolded ok]]
      have rest: "write_each prep wrap wr xs v = (r, w')" using Cons.prems(1) Ok cd q ok by simp
      have "get w' p = get v p \<or> (\<exists>y \<in> set xs. \<exists>c d. prep y = Ok (c, d) \<and> target c = p \<and> get w' p = stored c d v)"
        using s Cons.prems(3) by (intro Cons.IH [OF rest _ _ Cons.prems(4)]) auto
      then show ?thesis
      proof
        assume "get w' p = get v p"
        with s Ok cd Cons.prems(4) show ?thesis by (cases "p = target c") auto
      next
        assume "\<exists>y \<in> set xs. \<exists>c d. prep y = Ok (c, d) \<and> target c = p \<and> get w' p = stored c d v"
        with s show ?thesis by auto
      qed
    next
      case (Err e)
      with Cons.prems(1) Ok cd q have "w' = v" by simp
      with wr_err [OF Cons.prems(2) t q [unfolded Err]] Cons.prems(4) show ?thesis by simp
    next
      case (Panic z)
      with q wr_no_panic [OF Cons.prems(2) t] show ?thesis by blast
    qed
  qed (use Cons.prems(1) in simp_all)
qed

text \<open>If the loop succeeds and no two elements share a target, every element's file is in place.\<close>

lemma write_each_ok:
  assumes "write_each prep wrap wr xs w = (Ok u, w')" and "ready P w"
    and "\<And>x c d. x \<in> set xs \<Longrightarrow> prep x = Ok (c, d) \<Longrightarrow> target c \<in> P \<and> target c = key x" and "distinct (map key xs)"
    and "x \<in> set xs"
  shows "\<exists>c d. prep x = Ok (c, d) \<and> get w' (key x) = stored c d w"
  using assms
proof (induction xs arbitrary: w)
  case Nil
  then show ?case by simp
next
  case (Cons y xs)
  from Cons.prems(1) obtain c d q v where y: "prep y = Ok (c, d)" "wr c d w = (Ok q, v)"
      "write_each prep wrap wr xs v = (Ok u, w')"
    by (auto split: outcome.splits prod.splits)
  have "target c \<in> P \<and> target c = key y" by (rule Cons.prems(3) [OF _ y(1)]) simp
  note t = conjunct1 [OF this] conjunct2 [OF this]
  note s = wr_ok [OF Cons.prems(2) t(1) y(2)]
  show ?case
  proof (cases "x = y")
    case True
    have no: "\<not> (\<exists>z \<in> set xs. \<exists>c' d'. prep z = Ok (c', d') \<and> target c' = key y)"
    proof
      assume "\<exists>z \<in> set xs. \<exists>c' d'. prep z = Ok (c', d') \<and> target c' = key y"
      then obtain z c' d' where z: "z \<in> set xs" "prep z = Ok (c', d')" "target c' = key y" by blast
      have "target c' = key z" using Cons.prems(3) [OF _ z(2)] z(1) by simp
      with z Cons.prems(4) show False by (metis distinct.simps(2) image_eqI image_set list.simps(9))
    qed
    have r: "ready P v" and k: "key y \<in> P" using s t by auto
    have in_P: "target c' \<in> P" if "z \<in> set xs" "prep z = Ok (c', d')" for z c' d'
      by (rule conjunct1 [OF Cons.prems(3) [OF list.set_intros(2) [OF that(1)] that(2)]])
    have "get w' (key y) = get v (key y) \<or>
        (\<exists>z \<in> set xs. \<exists>c d. prep z = Ok (c, d) \<and> target c = key y \<and> get w' (key y) = stored c d v)"
      by (rule write_each_each_old_or_new [OF y(3) r _ k]) (rule in_P)
    with no have "get w' (key y) = get v (key y)" by blast
    moreover have "get v (key y) = stored c d w" using s t(2) by simp
    ultimately show ?thesis using y(1) True by simp
  next
    case False
    then have "\<exists>c d. prep x = Ok (c, d) \<and> get w' (key x) = stored c d v"
      using s Cons.prems(3-5) by (intro Cons.IH [OF y(3)]) auto
    with s show ?thesis by auto
  qed
qed

lemma write_each_no_panic:
  assumes "write_each prep wrap wr xs w = (r, w')" and "ready P w"
    and "\<And>x c d. x \<in> set xs \<Longrightarrow> prep x = Ok (c, d) \<Longrightarrow> target c \<in> P" and "\<And>x p. x \<in> set xs \<Longrightarrow> prep x \<noteq> Panic p"
  shows "r \<noteq> Panic q"
  using assms
proof (induction xs arbitrary: w)
  case Nil
  then show ?case by auto
next
  case (Cons x xs)
  show ?case
  proof (cases "prep x")
    case (Ok cd)
    obtain c d where cd: "cd = (c, d)" by (cases cd)
    have t: "target c \<in> P" using Cons.prems(3) [of x c d] Ok cd by simp
    obtain q' v where q: "wr c d w = (q', v)" by (cases "wr c d w")
    show ?thesis
    proof (cases q')
      case ok: (Ok u)
      have rest: "write_each prep wrap wr xs v = (r, w')" using Cons.prems(1) Ok cd q ok by simp
      then show ?thesis
        using wr_ok [OF Cons.prems(2) t q [unfolded ok]] Cons.prems(3,4) by (intro Cons.IH [OF rest]) auto
    next
      case (Err e)
      with Cons.prems(1) Ok cd q show ?thesis by auto
    next
      case (Panic z)
      with q wr_no_panic [OF Cons.prems(2) t] show ?thesis by blast
    qed
  next
    case (Panic z)
    moreover have "prep x \<noteq> Panic z" using Cons.prems(4) by simp
    ultimately show ?thesis by contradiction
  qed (use Cons.prems(1) in auto)
qed

end

section \<open>The writer as a file store\<close>

text \<open>
  The disk is ready for a set of targets: they are proper paths, no target is a directory on the way to another
  or has the form of a temporary name of another, and all temporary names are free.
\<close>

definition apart :: "string set \<Rightarrow> bool" where
  "apart P \<longleftrightarrow>
     (\<forall>p \<in> P. proper_path p \<and>
        (\<forall>q \<in> P. p \<notin> set (dir_chain (filepath_Dir q)) \<and>
           (\<forall>r. CHR ''/'' \<notin> set r \<longrightarrow> temp_name p r \<noteq> q \<and> temp_name p r \<notin> set (dir_chain (filepath_Dir q)))))"

definition disk_ready :: "string set \<Rightarrow> world \<Rightarrow> bool" where
  "disk_ready P w \<longleftrightarrow> apart P \<and> (\<forall>p \<in> P. temp_free p w)"

lemma WriteFile_ids:
  assumes "WriteFile c d w = (Ok u, w')" and "proper_path (fc_Path c)" and "temp_free (fc_Path c) w"
  shows "written c' d' w' = written c' d' w"
  using assms
proof (cases rule: WriteFile_run)
  case (commit s v u)
  then show ?thesis
    by (simp add: written_def created_mode_def final_owner_def final_group_def same_ids_def)
qed simp

lemma WriteFile_ready:
  assumes "disk_ready P w" and "fc_Path c \<in> P" and "WriteFile c d w = (Ok u, w')"
  shows "lookup w' (fc_Path c) = Some (written c d w)"
    and "p \<in> P \<Longrightarrow> p \<noteq> fc_Path c \<Longrightarrow> lookup w' p = lookup w p"
    and "disk_ready P w'"
proof -
  have path: "proper_path (fc_Path c)" and free: "temp_free (fc_Path c) w" and ap: "apart P"
    using assms(1,2) by (auto simp: disk_ready_def apart_def)
  have run: "WriteFile c d w = (Ok (), w')" using assms(3) by simp
  note ok = WriteFile_Ok_facts [OF run path free]
  show "lookup w' (fc_Path c) = Some (written c d w)" using ok by blast
  have same: "lookup w' q = lookup w q" if "q \<noteq> fc_Path c" "q \<notin> set (dir_chain (filepath_Dir (fc_Path c)))" for q
    using ok that by blast
  then show "p \<in> P \<Longrightarrow> p \<noteq> fc_Path c \<Longrightarrow> lookup w' p = lookup w p"
    using ap assms(2) unfolding apart_def by blast
  have "temp_free p w'" if p: "p \<in> P" for p
    unfolding temp_free_def
  proof (intro allI impI)
    fix r assume r: "CHR ''/'' \<notin> set (r :: string)"
    have "lookup w' (temp_name p r) = lookup w (temp_name p r)"
      using ap assms(2) p r unfolding apart_def by (intro same) blast+
    with assms(1) p r show "lookup w' (temp_name p r) = None" by (simp add: disk_ready_def temp_free_def)
  qed
  with ap show "disk_ready P w'" by (simp add: disk_ready_def)
qed

lemma WriteFile_failed:
  assumes "disk_ready P w" and "fc_Path c \<in> P" and "WriteFile c d w = (r, w')" and "r \<noteq> Ok ()" and "p \<in> P"
  shows "lookup w' p = lookup w p"
proof -
  have path: "proper_path (fc_Path c)" and free: "temp_free (fc_Path c) w" and ap: "apart P"
    using assms(1,2) by (auto simp: disk_ready_def apart_def)
  from WriteFile_Err_facts [OF assms(3,4) path free] obtain s where s: "CHR ''/'' \<notin> set s"
    "\<forall>q. q \<noteq> temp_name (fc_Path c) s \<longrightarrow> lookup w' q = lookup w q \<or> lookup w q = None \<and> lookup w' q = Some Dir \<and>
        q \<in> set (dir_chain (filepath_Dir (fc_Path c)))" by blast
  have "p \<noteq> temp_name (fc_Path c) s" "p \<notin> set (dir_chain (filepath_Dir (fc_Path c)))"
    using ap assms(2,5) s(1) unfolding apart_def by blast+
  with s(2) show ?thesis by blast
qed

lemma WriteFile_no_panic:
  assumes "disk_ready P w" and "fc_Path c \<in> P"
  shows "WriteFile c d w \<noteq> (Panic q, w')"
proof
  assume a: "WriteFile c d w = (Panic q, w')"
  have "proper_path (fc_Path c)" "temp_free (fc_Path c) w"
    using assms by (auto simp: disk_ready_def apart_def)
  with WriteFile_Err_facts [OF a] show False by simp
qed

interpretation disk: file_store WriteFile fc_Path lookup "\<lambda>c d w. Some (written c d w)" disk_ready
proof
  fix P c d w u w'
  assume "disk_ready P w" "fc_Path c \<in> P" "WriteFile c d w = (Ok u, w')"
  note w = WriteFile_ready [OF this] and i = WriteFile_ids [OF this(3)]
  have "proper_path (fc_Path c)" "temp_free (fc_Path c) w"
    using \<open>disk_ready P w\<close> \<open>fc_Path c \<in> P\<close> by (auto simp: disk_ready_def apart_def)
  with w i show "lookup w' (fc_Path c) = Some (written c d w) \<and> (\<forall>p \<in> P. p \<noteq> fc_Path c \<longrightarrow> lookup w' p = lookup w p) \<and>
      disk_ready P w' \<and> (\<forall>c' d'. Some (written c' d' w') = Some (written c' d' w))" by blast
next
  fix P c d w e w'
  assume "disk_ready P w" "fc_Path c \<in> P" "WriteFile c d w = (Err e, w')"
  from WriteFile_failed [OF this] show "\<forall>p \<in> P. lookup w' p = lookup w p" by simp
qed (rule WriteFile_no_panic)

end
