(* ===== verification/Syncer.thy ===== *)
theory Syncer
  imports Config_Types Vault_Auth Template_Engine File_Store Cleanup
begin

text \<open>
  \<open>internal/syncer/syncer.go\<close>: one synchronisation of one secret.  The credentials select a client from a pool
  (or a new one is made), the secret is fetched with retries, its templates are rendered, and each output
  file is written with the text of the template that has its base name.
\<close>

section \<open>State and errors\<close>

datatype sync_error =
    CredsUnknown string
  | ClientCreation string vault_error
  | FetchFailed vault_error
  | TemplateSetup template_error
  | Rendering template_error
  | CountsDiffer nat nat
  | ModeInvalid string mode_error
  | OwnerInvalid string num_error
  | GroupInvalid string num_error
  | NoTemplateFor string
  | WriteFailure string write_error

text \<open>The pool is shared by all synchronisations; the vault state and the disk are the outside world.\<close>

record 'w sync_state =
  sy_pool :: "(string \<times> Client) list"
  sy_vault :: 'w
  sy_disk :: world

text \<open>What does not change: the API, the client factory, the retry settings and the template library.\<close>

type_synonym 'w client_factory = "CredentialSet \<Rightarrow> 'w \<Rightarrow> (vault_error + Client) \<times> 'w"

record ('w, 't) sync_env =
  sv_api :: "'w vault_api"
  sv_oor :: "f64 \<Rightarrow> int"
  sv_factory :: "'w client_factory"
  sv_retry :: RetryConfig
  sv_parse :: "string \<Rightarrow> string \<Rightarrow> string + 't"
  sv_execute :: "'t \<Rightarrow> SecretData \<Rightarrow> string + string"

section \<open>SyncSecret\<close>

definition getOrCreateClient ::
  "'w client_factory \<Rightarrow> string \<Rightarrow> CredentialSet \<Rightarrow> (string \<times> Client) list \<Rightarrow> 'w \<Rightarrow>
   (sync_error + Client) \<times> (string \<times> Client) list \<times> 'w" where
  "getOrCreateClient factory credName creds pool w =
     (case map_of pool credName of
        Some client \<Rightarrow> (Inr client, pool, w)
      | None \<Rightarrow>
          (case factory creds w of
             (Inl e, w') \<Rightarrow> (Inl (ClientCreation credName e), pool, w')
           | (Inr client, w') \<Rightarrow> (Inr client, AList.update credName client pool, w')))"

definition render_secret ::
  "('w, 't) sync_env \<Rightarrow> Secret \<Rightarrow> SecretData \<Rightarrow> (sync_error, (string \<times> string) list) outcome" where
  "render_secret env s data =
     and_then (wrap_err TemplateSetup (add_templates (sv_parse env) (sec_TemplateData s) NewEngine)) (\<lambda>engine.
     and_then (wrap_err Rendering (RenderAll (sv_execute env) engine data)) (\<lambda>rendered.
       if length rendered \<noteq> length (sec_Files s) then Err (CountsDiffer (length rendered) (length (sec_Files s)))
       else Ok rendered))"

text \<open>Each template name, in sorted order, is assigned to the first file with that base name.\<close>

definition file_to_template :: "string list \<Rightarrow> File list \<Rightarrow> string \<rightharpoonup> string" where
  "file_to_template templateNames files =
     foldl (\<lambda>m templateName.
        (case find (\<lambda>f. filepath_Base (file_Path f) = templateName) files of
           Some f \<Rightarrow> m(file_Path f \<mapsto> templateName) | None \<Rightarrow> m))
       Map.empty (sort templateNames)"

text \<open>Reading a missing key of a Go map of strings gives the empty string.\<close>

definition rendered_text :: "(string \<times> string) list \<Rightarrow> string \<Rightarrow> string" where
  "rendered_text rendered nm = (case map_of rendered nm of Some c \<Rightarrow> c | None \<Rightarrow> [])"

definition prepare_file ::
  "(string \<rightharpoonup> string) \<Rightarrow> (string \<times> string) list \<Rightarrow> File \<Rightarrow> (sync_error, FileConfig \<times> string) outcome" where
  "prepare_file fileToTemplate rendered f =
     and_then (wrap_err (ModeInvalid (file_Path f)) (ParseMode (file_Mode f))) (\<lambda>mode.
     and_then (wrap_err (OwnerInvalid (file_Path f)) (ParseOwner (file_Owner f))) (\<lambda>owner.
     and_then (wrap_err (GroupInvalid (file_Path f)) (ParseOwner (file_Group f))) (\<lambda>group.
       (case fileToTemplate (file_Path f) of
          None \<Rightarrow> Err (NoTemplateFor (file_Path f))
        | Some templateName \<Rightarrow>
            Ok (\<lparr>fc_Path = file_Path f, fc_Mode = mode, fc_Owner = owner, fc_Group = group\<rparr>,
                rendered_text rendered templateName)))))"

definition write_files :: "Secret \<Rightarrow> (string \<times> string) list \<Rightarrow> world \<Rightarrow> (sync_error, unit) outcome \<times> world" where
  "write_files s rendered =
     write_each (prepare_file (file_to_template (keys (sec_TemplateData s)) (sec_Files s)) rendered)
       (\<lambda>fc. WriteFailure (fc_Path fc)) WriteFile (sec_Files s)"

definition SyncSecret ::
  "('w, 't) sync_env \<Rightarrow> (nat \<Rightarrow> bool) \<Rightarrow> Config \<Rightarrow> Secret \<Rightarrow> 'w sync_state \<Rightarrow>
   (sync_error, unit) outcome \<times> 'w sync_state" where
  "SyncSecret env cancelled cfg s st =
     (let credName = ResolveCredentials s in
      (case GetCredentials (cfg_SecretStore cfg) credName of
         None \<Rightarrow> (Err (CredsUnknown credName), st)
       | Some creds \<Rightarrow>
           (case getOrCreateClient (sv_factory env) credName creds (sy_pool st) (sy_vault st) of
              (Inl e, pool, w) \<Rightarrow> (Err e, st\<lparr>sy_pool := pool, sy_vault := w\<rparr>)
            | (Inr client, pool, w) \<Rightarrow>
                (let namespace = ResolveNamespace s (ss_Namespace (cfg_SecretStore cfg)) in
                 (case FetchSecretWithRetry (sv_api env) (sv_oor env) cancelled (sec_MountPath s) (sec_Key s)
                         (sec_KVVersion s) namespace (sv_retry env) client w of
                    (r, pauses, client', w') \<Rightarrow>
                      (let st1 = st\<lparr>sy_pool := AList.update credName client' pool, sy_vault := w'\<rparr> in
                       (case r of
                          Inl e \<Rightarrow> (Err (FetchFailed e), st1)
                        | Inr data \<Rightarrow>
                            (case render_secret env s data of
                               Err e \<Rightarrow> (Err e, st1)
                             | Panic p \<Rightarrow> (Panic p, st1)
                             | Ok rendered \<Rightarrow>
                                 (case write_files s rendered (sy_disk st1) of
                                    (q, d) \<Rightarrow> (q, st1\<lparr>sy_disk := d\<rparr>))))))))))"

section \<open>Which template a file gets\<close>

lemma find_SomeD: "find P xs = Some x \<Longrightarrow> x \<in> set xs \<and> P x"
  by (induction xs) (auto split: if_splits)

lemma file_to_template_Some:
  assumes "file_to_template names files p = Some nm"
  shows "nm \<in> set names \<and> nm = filepath_Base p"
proof -
  define step where "step = (\<lambda>m templateName.
        (case find (\<lambda>f. filepath_Base (file_Path f) = templateName) files of
           Some f \<Rightarrow> m(file_Path f \<mapsto> templateName) | None \<Rightarrow> m))"
  have "foldl step m ns p = Some nm \<Longrightarrow> m p = Some nm \<or> nm \<in> set ns \<and> nm = filepath_Base p" for m ns
  proof (induction ns arbitrary: m)
    case Nil
    then show ?case by simp
  next
    case (Cons n ns)
    then have "step m n p = Some nm \<or> nm \<in> set ns \<and> nm = filepath_Base p" by simp
    moreover have "m p = Some nm \<or> nm = n \<and> nm = filepath_Base p" if "step m n p = Some nm"
      using that by (auto simp: step_def split: option.splits if_splits dest!: find_SomeD)
    ultimately show ?case by auto
  qed
  from this [of Map.empty "sort names"] assms
  have "Map.empty p = Some nm \<or> nm \<in> set (sort names) \<and> nm = filepath_Base p"
    unfolding file_to_template_def step_def by blast
  then show ?thesis by auto
qed

lemma render_secret_Ok:
  assumes "render_secret env s data = Ok rendered" and "go_map (sec_TemplateData s)" and "nm \<in> set (keys (sec_TemplateData s))"
  shows "\<exists>tmpl t c. (nm, tmpl) \<in> set (sec_TemplateData s) \<and>
           sv_parse env (replace_char (CHR ''-'') (CHR ''_'') nm) tmpl = Inr t \<and>
           sv_execute env t data = Inr c \<and> map_of rendered nm = Some c"
proof -
  from assms(1) obtain e where e: "add_templates (sv_parse env) (sec_TemplateData s) NewEngine = Ok e"
    and r: "RenderAll (sv_execute env) e data = Ok rendered"
    by (auto simp: render_secret_def split: if_splits)
  from assms(3) obtain tmpl where tm: "(nm, tmpl) \<in> set (sec_TemplateData s)"
    by (auto simp: keys_def)
  note at = add_templates_Ok [OF e assms(2)]
  from at(2) [OF tm] obtain t where t: "map_of e nm = Some t"
    "sv_parse env (replace_char (CHR ''-'') (CHR ''_'') nm) tmpl = Inr t" by blast
  have rn: "keys rendered = keys e" "\<forall>(n, c) \<in> set rendered. Render (sv_execute env) e n data = Ok c"
    using render_names_Ok [of "sv_execute env" e data "keys e" rendered] r by (simp_all add: RenderAll_def)
  have "nm \<in> set (keys rendered)" using rn(1) t(1) map_of_None_keys [of e nm] by auto
  then obtain c where c: "map_of rendered nm = Some c" using map_of_iff_keys [of rendered nm] by blast
  then have "Render (sv_execute env) e nm data = Ok c" using rn(2) map_of_SomeD by fastforce
  with t have "sv_execute env t data = Inr c" by (simp add: Render_Ok)
  with tm t c show ?thesis by blast
qed

lemma prepare_file_Ok:
  assumes "prepare_file ft rendered f = Ok (fc, c)"
  shows "fc_Path fc = file_Path f" and "ParseMode (file_Mode f) = Ok (fc_Mode fc)"
    and "ParseOwner (file_Owner f) = Ok (fc_Owner fc)" and "ParseOwner (file_Group f) = Ok (fc_Group fc)"
    and "\<exists>nm. ft (file_Path f) = Some nm \<and> c = rendered_text rendered nm"
proof -
  from assms obtain m ow gr nm where "ParseMode (file_Mode f) = Ok m" "ParseOwner (file_Owner f) = Ok ow"
      "ParseOwner (file_Group f) = Ok gr" "ft (file_Path f) = Some nm"
      "fc = \<lparr>fc_Path = file_Path f, fc_Mode = m, fc_Owner = ow, fc_Group = gr\<rparr>" "c = rendered_text rendered nm"
    by (cases "ft (file_Path f)") (auto simp: prepare_file_def)
  then show "fc_Path fc = file_Path f" "ParseMode (file_Mode f) = Ok (fc_Mode fc)"
    "ParseOwner (file_Owner f) = Ok (fc_Owner fc)" "ParseOwner (file_Group f) = Ok (fc_Group fc)"
    "\<exists>nm. ft (file_Path f) = Some nm \<and> c = rendered_text rendered nm" by auto
qed

lemma prepare_file_no_panic: "prepare_file ft rendered f \<noteq> Panic p"
  by (simp add: prepare_file_def and_then_Panic ParseMode_no_panic ParseOwner_no_panic split: option.split)

lemma render_secret_no_panic: "render_secret env s data \<noteq> Panic p"
  by (simp add: render_secret_def RenderAll_def and_then_Panic add_templates_no_panic render_names_no_panic)

section \<open>What the retries see\<close>

text \<open>
  An operation that is tried again keeps what each try keeps, and its success is the success of a try made in a
  state that has it.
\<close>

locale kept_under_retry =
  fixes try_once :: "'s \<Rightarrow> (vault_error + 'a) \<times> 's"
    and kept :: "'s \<Rightarrow> bool"
  assumes keeps: "kept s \<Longrightarrow> kept (snd (try_once s))"
begin

lemma loop:
  "retry_loop oor config cancelled try_once left attempt b e s = (r, ws, s') \<Longrightarrow> kept s \<Longrightarrow>
   kept s' \<and> (\<forall>d. r = Inr d \<longrightarrow> (\<exists>u. kept u \<and> fst (try_once u) = Inr d))"
proof (induction left arbitrary: attempt b e s r ws)
  case 0
  then show ?case by auto
next
  case (Suc left)
  obtain q v where t: "try_once s = (q, v)" by (cases "try_once s")
  have v: "kept v" using keeps [OF Suc.prems(2)] t by simp
  show ?case
  proof (cases "0 < attempt \<and> cancelled attempt")
    case True
    with Suc.prems show ?thesis by auto
  next
    case False
    show ?thesis
    proof (cases q)
      case (Inr d)
      with False Suc.prems t have "r = Inr d" "s' = v" by (auto simp: Let_def)
      with v Suc.prems(2) t Inr show ?thesis by (auto intro!: exI [of _ s])
    next
      case (Inl err)
      with False Suc.prems(1) t obtain a b' e' ws' where
        "retry_loop oor config cancelled try_once left a b' e' v = (r, ws', s')"
        by (auto simp: Let_def split: prod.splits)
      from Suc.IH [OF this v] show ?thesis .
    qed
  qed
qed

lemma retried:
  assumes "with_retry oor config cancelled try_once s = (r, ws, s')" and "kept s"
  shows "kept s'" and "r = Inr d \<Longrightarrow> \<exists>u. kept u \<and> fst (try_once u) = Inr d"
  using loop assms unfolding with_retry_def by blast+

end

text \<open>A fetch leaves everything of the client but its namespace.\<close>

definition same_login :: "Client \<Rightarrow> Client \<Rightarrow> bool" where
  "same_login c d \<longleftrightarrow>
     (\<exists>ns. d = c\<lparr>cl_session := (cl_session c)\<lparr>ses_Namespace := ns\<rparr>\<rparr>)"

lemma same_login_refl: "same_login c c"
  by (auto simp: same_login_def intro: exI [of _ "ses_Namespace (cl_session c)"])

lemma same_login_SetNamespace: "same_login c d \<Longrightarrow> same_login c (SetNamespace ns d)"
  by (auto simp: same_login_def SetNamespace_def)

interpretation fetch_retry: kept_under_retry "\<lambda>(c, w). FetchSecret api m p v ns c w" "\<lambda>(c, w). same_login c0 c"
  for api m p v ns c0
proof
  fix s :: "Client \<times> 'a"
  obtain c w where s: "s = (c, w)" by (cases s)
  obtain r c' w' where f: "FetchSecret api m p v ns c w = (r, c', w')" using prod_cases3 by blast
  assume "case s of (c, w) \<Rightarrow> same_login c0 c"
  with s FetchSecret_client [OF f] have "same_login c0 c'"
    by (auto intro: same_login_SetNamespace split: if_splits)
  with s f show "case snd (case s of (c, w) \<Rightarrow> FetchSecret api m p v ns c w) of (c, w) \<Rightarrow> same_login c0 c"
    by simp
qed

end
