(* ===== verification/Syncer_Theorems.thy ===== *)
theory Syncer_Theorems
  imports Syncer Validator_Theorems
begin

text \<open>
  What one synchronisation guarantees: which files it writes and with what, whose data that is, that it leaves complete
  files behind however it ends, and what the client pool remembers.
\<close>

section \<open>The stages of a synchronisation\<close>

definition early_error :: "('w, 't) sync_env \<Rightarrow> Config \<Rightarrow> Secret \<Rightarrow> sync_error \<Rightarrow> bool" where
  "early_error env cfg s e \<longleftrightarrow>
     e = CredsUnknown (ResolveCredentials s) \<and> GetCredentials (cfg_SecretStore cfg) (ResolveCredentials s) = None \<or>
     (\<exists>n x. e = ClientCreation n x) \<or> (\<exists>x. e = FetchFailed x) \<or> (\<exists>d. render_secret env s d = Err e)"

lemma getOrCreateClient_Inl: "getOrCreateClient factory n creds pool w = (Inl e, pool', w') \<Longrightarrow> \<exists>x. e = ClientCreation n x"
  by (auto simp: getOrCreateClient_def split: option.splits prod.splits sum.splits)

lemma SyncSecret_stages:
  assumes "SyncSecret env cancelled cfg s st = (r, st')"
  obtains
    (before) e where "r = Err e" and "sy_disk st' = sy_disk st" and "early_error env cfg s e"
  | (writing) creds client pool w data pauses client' rendered where
      "GetCredentials (cfg_SecretStore cfg) (ResolveCredentials s) = Some creds"
      and "getOrCreateClient (sv_factory env) (ResolveCredentials s) creds (sy_pool st) (sy_vault st) = (Inr client, pool, w)"
      and "FetchSecretWithRetry (sv_api env) (sv_oor env) cancelled (sec_MountPath s) (sec_Key s) (sec_KVVersion s)
             (ResolveNamespace s (ss_Namespace (cfg_SecretStore cfg))) (sv_retry env) client w =
             (Inr data, pauses, client', sy_vault st')"
      and "render_secret env s data = Ok rendered"
      and "write_files s rendered (sy_disk st) = (r, sy_disk st')"
      and "sy_pool st' = AList.update (ResolveCredentials s) client' pool"
proof (cases "GetCredentials (cfg_SecretStore cfg) (ResolveCredentials s)")
  case None
  with assms have "r = Err (CredsUnknown (ResolveCredentials s))" "st' = st"
    by (simp_all add: SyncSecret_def Let_def)
  with None show thesis by (intro before) (auto simp: early_error_def)
next
  case creds: (Some creds)
  obtain q pool w where g: "getOrCreateClient (sv_factory env) (ResolveCredentials s) creds (sy_pool st) (sy_vault st) = (q, pool, w)"
    using prod_cases3 by blast
  show thesis
  proof (cases q)
    case (Inl e)
    with assms creds g have "r = Err e" "sy_disk st' = sy_disk st" by (auto simp: SyncSecret_def Let_def)
    with getOrCreateClient_Inl [OF g [unfolded Inl]] show thesis by (intro before) (auto simp: early_error_def)
  next
    case client: (Inr client)
    obtain fr pauses client' w' where f: "FetchSecretWithRetry (sv_api env) (sv_oor env) cancelled (sec_MountPath s)
        (sec_Key s) (sec_KVVersion s) (ResolveNamespace s (ss_Namespace (cfg_SecretStore cfg))) (sv_retry env) client w =
        (fr, pauses, client', w')"
      using prod_cases4 by blast
    show thesis
    proof (cases fr)
      case (Inl e)
      with assms creds g client f have "r = Err (FetchFailed e)" "sy_disk st' = sy_disk st"
        by (auto simp: SyncSecret_def Let_def)
      then show thesis by (intro before) (auto simp: early_error_def)
    next
      case data: (Inr data)
      show thesis
      proof (cases "render_secret env s data")
        case (Ok rendered)
        obtain r' d where "write_files s rendered (sy_disk st) = (r', d)" by (cases "write_files s rendered (sy_disk st)")
        with assms creds g client f data Ok show thesis
          by (intro writing [OF creds g [unfolded client] _ Ok]) (auto simp: SyncSecret_def Let_def)
      next
        case (Err e)
        with assms creds g client f data have "r = Err e" "sy_disk st' = sy_disk st"
          by (auto simp: SyncSecret_def Let_def)
        with Err show thesis by (intro before) (auto simp: early_error_def)
      next
        case (Panic z)
        with render_secret_no_panic show thesis by blast
      qed
    qed
  qed
qed

text \<open>The output paths of a secret, and the file a template's text becomes.\<close>

definition paths_of :: "Secret \<Rightarrow> string set" where
  "paths_of s = file_Path ` set (sec_Files s)"

definition complete_file :: "Secret \<Rightarrow> string \<Rightarrow> string \<Rightarrow> world \<Rightarrow> node \<Rightarrow> bool" where
  "complete_file s p text w n \<longleftrightarrow>
     (\<exists>f \<in> set (sec_Files s). \<exists>fc. file_Path f = p \<and> fc_Path fc = p \<and> ParseMode (file_Mode f) = Ok (fc_Mode fc) \<and>
        ParseOwner (file_Owner f) = Ok (fc_Owner fc) \<and> ParseOwner (file_Group f) = Ok (fc_Group fc) \<and>
        n = written fc text w)"

text \<open>The text is what the template under the file's base name renders the data to.\<close>

definition renders_to :: "('w, 't) sync_env \<Rightarrow> Secret \<Rightarrow> SecretData \<Rightarrow> string \<Rightarrow> string \<Rightarrow> bool" where
  "renders_to env s data nm text \<longleftrightarrow>
     (\<exists>tmpl t. (nm, tmpl) \<in> set (sec_TemplateData s) \<and>
        sv_parse env (replace_char (CHR ''-'') (CHR ''_'') nm) tmpl = Inr t \<and> sv_execute env t data = Inr text)"

lemma prepared_file:
  assumes "prepare_file (file_to_template (keys (sec_TemplateData s)) (sec_Files s)) rendered f = Ok (fc, c)"
    and "f \<in> set (sec_Files s)" and "render_secret env s data = Ok rendered" and "go_map (sec_TemplateData s)"
  shows "fc_Path fc = file_Path f" and "renders_to env s data (filepath_Base (file_Path f)) c"
    and "complete_file s (file_Path f) c w (written fc c w)"
proof -
  note p = prepare_file_Ok [OF assms(1)]
  from p(5) obtain nm where nm: "file_to_template (keys (sec_TemplateData s)) (sec_Files s) (file_Path f) = Some nm"
    "c = rendered_text rendered nm" by blast
  from file_to_template_Some [OF nm(1)] have b: "nm \<in> set (keys (sec_TemplateData s))" "nm = filepath_Base (file_Path f)"
    by auto
  from render_secret_Ok [OF assms(3,4) b(1)] nm(2) b(2)
  show "renders_to env s data (filepath_Base (file_Path f)) c" by (auto simp: renders_to_def rendered_text_def)
  show "fc_Path fc = file_Path f" by (rule p(1))
  show "complete_file s (file_Path f) c w (written fc c w)"
    unfolding complete_file_def using assms(2) p(1-4) by blast
qed

section \<open>The data\<close>

text \<open>
  An answer that Vault gave in the session \<open>ses\<close> for the path of the secret: for version 2 of the key-value store the
  map under the key \<open>data\<close> of what is at \<open><mount>/data/<key>\<close>, for version 1 all that is at \<open><mount>/<key>\<close>.
\<close>

definition answer_for :: "'w vault_api \<Rightarrow> session \<Rightarrow> Secret \<Rightarrow> SecretData \<Rightarrow> bool" where
  "answer_for api ses s data \<longleftrightarrow>
     (\<exists>v v' answer d.
        api_Read api ses
          (if sec_KVVersion s = ''v2'' then path_Join [sec_MountPath s, ''data'', sec_Key s]
           else path_Join [sec_MountPath s, sec_Key s]) v = (Inr (Some answer), v') \<and>
        as_Data answer = Some d \<and>
        (if sec_KVVersion s = ''v2'' then map_of d ''data'' = Some (JObject data) else d = data))"

text \<open>
  The data that the synchronisation fetches: what the fetch with retries returns for the client that the pool or the
  factory gives for the credentials of the secret, and an answer to a request for its own path, with the token of that
  client and in the resolved namespace whenever that is not empty.
\<close>

definition fetched ::
  "('w, 't) sync_env \<Rightarrow> (nat \<Rightarrow> bool) \<Rightarrow> Config \<Rightarrow> Secret \<Rightarrow> 'w sync_state \<Rightarrow> SecretData \<Rightarrow> bool" where
  "fetched env cancelled cfg s st data \<longleftrightarrow>
     (\<exists>creds client pool w pauses client' w' ses.
        GetCredentials (cfg_SecretStore cfg) (ResolveCredentials s) = Some creds \<and>
        getOrCreateClient (sv_factory env) (ResolveCredentials s) creds (sy_pool st) (sy_vault st) = (Inr client, pool, w) \<and>
        FetchSecretWithRetry (sv_api env) (sv_oor env) cancelled (sec_MountPath s) (sec_Key s) (sec_KVVersion s)
          (ResolveNamespace s (ss_Namespace (cfg_SecretStore cfg))) (sv_retry env) client w =
          (Inr data, pauses, client', w') \<and>
        ses_Token ses = ses_Token (cl_session client) \<and>
        (ResolveNamespace s (ss_Namespace (cfg_SecretStore cfg)) \<noteq> [] \<longrightarrow>
           ses_Namespace ses = ResolveNamespace s (ss_Namespace (cfg_SecretStore cfg))) \<and>
        answer_for (sv_api env) ses s data)"

lemma fetchedI:
  assumes "GetCredentials (cfg_SecretStore cfg) (ResolveCredentials s) = Some creds"
    and "getOrCreateClient (sv_factory env) (ResolveCredentials s) creds (sy_pool st) (sy_vault st) = (Inr client, pool, w)"
    and "FetchSecretWithRetry (sv_api env) (sv_oor env) cancelled (sec_MountPath s) (sec_Key s) (sec_KVVersion s)
           (ResolveNamespace s (ss_Namespace (cfg_SecretStore cfg))) (sv_retry env) client w = (Inr data, pauses, client', w')"
  shows "fetched env cancelled cfg s st data"
proof -
  let ?ns = "ResolveNamespace s (ss_Namespace (cfg_SecretStore cfg))"
  let ?fetch = "\<lambda>(c, w). FetchSecret (sv_api env) (sec_MountPath s) (sec_Key s) (sec_KVVersion s) ?ns c w"
  from fetch_retry.retried(2) [OF assms(3) [unfolded FetchSecretWithRetry_def], of client data]
  obtain c v where c: "same_login client c" "fst (?fetch (c, v)) = Inr data"
    by (auto simp: same_login_refl)
  obtain q c1 v1 where f0: "FetchSecret (sv_api env) (sec_MountPath s) (sec_Key s) (sec_KVVersion s) ?ns c v = (q, c1, v1)"
    using prod_cases3 by blast
  with c(2) have "q = Inr data" by simp
  from FetchSecret_reads [OF f0 [unfolded this]] obtain ses v2 answer d where
    r: "api_Read (sv_api env) ses (secret_path (sec_MountPath s) (sec_Key s) (sec_KVVersion s)) (admitted_state (sv_api env) c v) =
       (Inr (Some answer), v2)" "as_Data answer = Some d"
      "if sec_KVVersion s = ''v2'' then map_of d ''data'' = Some (JObject data) else d = data"
    and ses: "ses = (cl_session c)\<lparr>ses_Namespace := (if ?ns \<noteq> [] then ?ns else ses_Namespace (cl_session c))\<rparr>"
    by blast
  from c(1) obtain n where "c = client\<lparr>cl_session := (cl_session client)\<lparr>ses_Namespace := n\<rparr>\<rparr>"
    unfolding same_login_def by blast
  then have "ses_Token ses = ses_Token (cl_session client)" unfolding ses by simp
  moreover have "?ns \<noteq> [] \<longrightarrow> ses_Namespace ses = ?ns" unfolding ses by simp
  moreover have "answer_for (sv_api env) ses s data" using r unfolding answer_for_def secret_path_def by blast
  ultimately show ?thesis unfolding fetched_def using assms by blast
qed

lemma fetched_answer:
  fixes env :: "('w, 't) sync_env" and st :: "'w sync_state" and cfg :: Config and s :: Secret
  assumes "GetCredentials (cfg_SecretStore cfg) (ResolveCredentials s) = Some creds"
    and "getOrCreateClient (sv_factory env) (ResolveCredentials s) creds (sy_pool st) (sy_vault st) = (Inr client, pool, w)"
    and "FetchSecretWithRetry (sv_api env) (sv_oor env) cancelled (sec_MountPath s) (sec_Key s) (sec_KVVersion s)
           (ResolveNamespace s (ss_Namespace (cfg_SecretStore cfg))) (sv_retry env) client w = (Inr data, pauses, client', w')"
  obtains ses where "answer_for (sv_api env) ses s data"
  using fetchedI [OF assms] unfolding fetched_def by blast

section \<open>The files\<close>

text \<open>
  C13: no reader ever finds a damaged output file.  However a synchronisation ends, each output path holds what it
  held before, or the complete text of the template with its base name, rendered from the data that this
  synchronisation fetched, with the configured owner and the configured mode less the umask; and the synchronisation does
  not panic.
\<close>

theorem SyncSecret_old_or_new:
  assumes "SyncSecret env cancelled cfg s st = (r, st')" and "disk_ready (paths_of s) (sy_disk st)"
    and "go_map (sec_TemplateData s)" and "p \<in> paths_of s"
  shows "(\<forall>q. r \<noteq> Panic q) \<and>
         (lookup (sy_disk st') p = lookup (sy_disk st) p \<or>
          (\<exists>data text n. fetched env cancelled cfg s st data \<and> renders_to env s data (filepath_Base p) text \<and>
             complete_file s p text (sy_disk st) n \<and> lookup (sy_disk st') p = Some n))"
  using assms(1)
proof (cases rule: SyncSecret_stages)
  case (writing creds client pool w data pauses client' rendered)
  let ?prep = "prepare_file (file_to_template (keys (sec_TemplateData s)) (sec_Files s)) rendered"
  note w = writing(5) [unfolded write_files_def]
  have in_P: "fc_Path c \<in> paths_of s" if "f \<in> set (sec_Files s)" "?prep f = Ok (c, d)" for f c d
    using prepare_file_Ok(1) [OF that(2)] that(1) by (simp add: paths_of_def)
  have "r \<noteq> Panic q" for q
    by (rule disk.write_each_no_panic [OF w assms(2)]) (auto intro: in_P simp: prepare_file_no_panic)
  moreover have "lookup (sy_disk st') p = lookup (sy_disk st) p \<or>
      (\<exists>f \<in> set (sec_Files s). \<exists>c d. ?prep f = Ok (c, d) \<and> fc_Path c = p \<and>
         lookup (sy_disk st') p = Some (written c d (sy_disk st)))"
    by (rule disk.write_each_each_old_or_new [OF w assms(2) _ assms(4)]) (rule in_P)
  ultimately show ?thesis
    using prepared_file [OF _ _ writing(4) assms(3)] fetchedI [OF writing(1-3)] by metis
qed simp

text \<open>
  C4: a successful synchronisation puts every file in place.  If the paths of a secret are distinct, then afterwards
  each of its files is the complete rendering, from the data that this synchronisation fetched, of the template with its
  base name: what the fetch returned for the client of the secret's credentials, an answer of Vault for the secret's own
  path, with the token of that client and in the secret's namespace.
\<close>

theorem SyncSecret_ok:
  assumes "SyncSecret env cancelled cfg s st = (Ok u, st')" and "disk_ready (paths_of s) (sy_disk st)"
    and "go_map (sec_TemplateData s)" and "distinct (map file_Path (sec_Files s))"
  shows "\<exists>data. fetched env cancelled cfg s st data \<and>
         (\<forall>f \<in> set (sec_Files s). \<exists>text n.
           renders_to env s data (filepath_Base (file_Path f)) text \<and>
           complete_file s (file_Path f) text (sy_disk st) n \<and> lookup (sy_disk st') (file_Path f) = Some n)"
  using assms(1)
proof (cases rule: SyncSecret_stages)
  case (writing creds client pool w data pauses client' rendered)
  let ?prep = "prepare_file (file_to_template (keys (sec_TemplateData s)) (sec_Files s)) rendered"
  note w = writing(5) [unfolded write_files_def]
  show ?thesis
  proof (intro exI [of _ data] conjI ballI)
    show "fetched env cancelled cfg s st data" by (rule fetchedI [OF writing(1-3)])
  next
    fix f assume f: "f \<in> set (sec_Files s)"
    have "\<exists>c d. ?prep f = Ok (c, d) \<and> lookup (sy_disk st') (file_Path f) = Some (written c d (sy_disk st))"
      by (rule disk.write_each_ok [OF w assms(2) _ assms(4) f]) (auto simp: prepare_file_Ok(1) paths_of_def)
    then obtain c d where cd: "?prep f = Ok (c, d)" "lookup (sy_disk st') (file_Path f) = Some (written c d (sy_disk st))"
      by blast
    with prepared_file [OF cd(1) f writing(4) assms(3)]
    show "\<exists>text n. renders_to env s data (filepath_Base (file_Path f)) text \<and>
        complete_file s (file_Path f) text (sy_disk st) n \<and> lookup (sy_disk st') (file_Path f) = Some n" by blast
  qed
qed simp

section \<open>The client pool\<close>

text \<open>
  A pooled client outlives its credentials.  Once the pool holds a client for a credential name, the values
  that a (reloaded) configuration gives for that name have no influence on a synchronisation any more, as long
  as the name exists and the global namespace is the same.
\<close>

theorem SyncSecret_ignores_new_credentials:
  assumes "map_of (sy_pool st) (ResolveCredentials s) = Some client"
    and "GetCredentials (cfg_SecretStore cfg) (ResolveCredentials s) = Some creds"
    and "GetCredentials (cfg_SecretStore cfg') (ResolveCredentials s) = Some creds'"
    and "ss_Namespace (cfg_SecretStore cfg') = ss_Namespace (cfg_SecretStore cfg)"
  shows "SyncSecret env cancelled cfg' s st = SyncSecret env cancelled cfg s st"
  using assms by (simp add: SyncSecret_def getOrCreateClient_def)

section \<open>What validation is worth at run time\<close>

lemma write_each_Err:
  "write_each prep wrap wr xs w = (Err e, w') \<Longrightarrow>
   (\<exists>x \<in> set xs. prep x = Err e) \<or> (\<exists>c e'. e = wrap c e')"
  by (induction xs arbitrary: w) (auto split: outcome.splits prod.splits)

lemma SyncSecret_Err:
  assumes "SyncSecret env cancelled cfg s st = (Err e, st')"
  shows "early_error env cfg s e \<or>
         (\<exists>rendered. \<exists>f \<in> set (sec_Files s).
            prepare_file (file_to_template (keys (sec_TemplateData s)) (sec_Files s)) rendered f = Err e) \<or>
         (\<exists>p x. e = WriteFailure p x)"
  using assms
proof (cases rule: SyncSecret_stages)
  case (writing creds client pool w data pauses client' rendered)
  from write_each_Err [OF writing(5) [unfolded write_files_def]] show ?thesis by blast
qed simp

lemma render_secret_Err:
  assumes "render_secret env s d = Err e"
  shows "(\<exists>x. e = TemplateSetup x) \<or> (\<exists>x. e = Rendering x) \<or> (\<exists>a b. e = CountsDiffer a b)"
proof (cases "add_templates (sv_parse env) (sec_TemplateData s) NewEngine")
  case (Ok en)
  with assms show ?thesis
    by (cases "RenderAll (sv_execute env) en d") (auto simp: render_secret_def split: if_splits)
qed (use assms in \<open>auto simp: render_secret_def\<close>)

text \<open>
  Errors that validation has excluded do not come back.  For a secret of a validated configuration a synchronisation
  never fails because of unknown credentials or because a mode, an owner or a group does not parse.
\<close>

theorem validated_secret_errors:
  assumes "Validate os cfg0 = Ok cfg" and "s \<in> set (cfg_Secrets cfg)" and "SyncSecret env cancelled cfg s st = (Err e, st')"
  shows "e \<noteq> CredsUnknown n \<and> e \<noteq> ModeInvalid p me \<and> e \<noteq> OwnerInvalid p oe \<and> e \<noteq> GroupInvalid p oe"
proof -
  have "sec_Files s \<noteq> []"
    using assms(1,2) by (auto simp: Validate_Ok config_ok_def norm_config_def norm_secret_def secret_ok_def)
  then obtain f0 where "f0 \<in> set (sec_Files s)" by (cases "sec_Files s") auto
  note creds = accepted_file_facts(8) [OF assms(1,2) this]
  have f: "\<exists>q. e = NoTemplateFor q"
    if "f \<in> set (sec_Files s)" "prepare_file ft rendered f = Err e" for f ft rendered
  proof -
    note facts = accepted_file_facts(4-6) [OF assms(1,2) that(1)]
    then obtain m ow gr where "ParseMode (file_Mode f) = Ok m" "ParseOwner (file_Owner f) = Ok ow" "ParseOwner (file_Group f) = Ok gr"
      by (auto simp: is_ok_iff)
    with that(2) show ?thesis by (auto simp: prepare_file_def split: option.splits)
  qed
  from SyncSecret_Err [OF assms(3)] creds f show ?thesis
    by (auto simp: early_error_def dest: render_secret_Err)
qed

text \<open>
  Validation accepts secrets that can never be synchronised.  It compares the number of templates with the number of files
  but not their names; there is an accepted configuration, with the template \<open>a\<close> and the file \<open>/o/b\<close>, whose secret
  no environment can synchronise.
\<close>

theorem validated_but_never_synced:
  "\<exists>cfg s. Validate sample_os cfg = Ok cfg \<and> cfg_Secrets cfg = [s] \<and>
     (\<forall>(env :: ('w, 't) sync_env) cancelled st. fst (SyncSecret env cancelled cfg s st) \<noteq> Ok ())"
proof -
  define s where "s = sample_secret []
    \<lparr>sec_TemplateData := [(''a'', ''x'')], sec_Files := [sample_file ''/o/b''\<lparr>file_Mode := ''0600''\<rparr>]\<rparr>"
  define cfg where "cfg = sample_config []\<lparr>cfg_Secrets := [s]\<rparr>"
  have base: "filepath_Base ''/o/b'' = ''b''" by code_simp
  have v: "Validate sample_os cfg = Ok cfg"
    by (simp add: Validate_Ok accept_defs sample_defs path_eval Second_def cfg_def s_def norm_config_def norm_secret_def
        norm_file_def norm_path_def)
  have "fst (SyncSecret env cancelled cfg s st) \<noteq> Ok ()" for env :: "('w, 't) sync_env" and cancelled st
  proof
    assume "fst (SyncSecret env cancelled cfg s st) = Ok ()"
    then obtain st' where "SyncSecret env cancelled cfg s st = (Ok (), st')" by (metis prod.collapse)
    then show False
    proof (cases rule: SyncSecret_stages)
      case (writing creds client pool w data pauses client' rendered)
      have "file_to_template (keys (sec_TemplateData s)) (sec_Files s) (file_Path f) = None" if "f \<in> set (sec_Files s)" for f
        using that by (simp add: file_to_template_def s_def sample_file_def base)
      with writing(5) show False
        by (auto simp: write_files_def s_def prepare_file_def sample_file_def)
    qed simp
  qed
  with v show ?thesis by (intro exI [of _ cfg] exI [of _ s]) (simp add: cfg_def)
qed

section \<open>A concrete synchronisation\<close>

text \<open>The template language of the example: a template is the name of the key whose value it gives.\<close>

definition sample_env :: "(nat, string) sync_env" where
  "sample_env =
     \<lparr>sv_api = sample_api 0, sv_oor = (\<lambda>_. 0), sv_factory = (\<lambda>_ w. (Inr sample_client, w)), sv_retry = sample_retry,
      sv_parse = (\<lambda>_ t. Inr t),
      sv_execute = (\<lambda>t data. case map_of data t of Some (JString x) \<Rightarrow> Inr x | _ \<Rightarrow> Inl ''no such key'')\<rparr>"

definition app_secret :: Secret where
  "app_secret =
     \<lparr>sec_Name = ''app'', sec_Key = ''app'', sec_MountPath = ''kv'', sec_Namespace = ''ns'', sec_Credentials = [],
      sec_KVVersion = ''v2'', sec_RefreshInterval = 60 * Second, sec_TemplateData = [(''pw'', ''k'')],
      sec_Files = [\<lparr>file_Path = ''/out/pw'', file_Mode = ''0600'', file_Owner = ''1000'', file_Group = []\<rparr>]\<rparr>"

definition sample_state :: "nat sync_state" where
  "sample_state = \<lparr>sy_pool = [], sy_vault = 0, sy_disk = sample_world\<rparr>"

lemma sample_fetch_retry:
  "FetchSecretWithRetry (sample_api 0) oor c ''kv'' ''app'' ''v2'' ''ns'' sample_retry sample_client w =
     (Inr [(''k'', JString ''v'')], [], SetNamespace ''ns'' sample_client, Suc w)"
proof -
  have "nat (rc_MaxRetries sample_retry + 1) = Suc 3" by (simp add: sample_retry_def)
  then show ?thesis unfolding FetchSecretWithRetry_def with_retry_def by (simp only: retry_loop.simps) (simp add: sample_fetch)
qed

lemma app_write:
  "fst (write_files app_secret [(''pw'', ''v'')] sample_world) = Ok () \<and>
   lookup (snd (write_files app_secret [(''pw'', ''v'')] sample_world)) ''/out/pw'' =
     lookup (snd (WriteFile sample_fc ''v'' sample_world)) ''/out/pw''"
proof -
  obtain f where f: "sec_Files app_secret = [f]" by (simp add: app_secret_def)
  have o: "ParseOwner ''1000'' = Ok 1000"
    by (simp add: ParseOwner_def strconv_Atoi_def strip_sign_def strconv_ParseUint_def is_digit_def digit_val_def char_code_def)
  have b: "filepath_Base ''/out/pw'' = ''pw''" by code_simp
  have f': "f = \<lparr>file_Path = ''/out/pw'', file_Mode = ''0600'', file_Owner = ''1000'', file_Group = []\<rparr>"
    using f by (simp add: app_secret_def)
  have p: "prepare_file (file_to_template (keys (sec_TemplateData app_secret)) [f]) [(''pw'', ''v'')] f = Ok (sample_fc, ''v'')"
    by (simp add: f' app_secret_def prepare_file_def file_to_template_def b o rendered_text_def sample_fc_def)
  have "fst (WriteFile sample_fc ''v'' sample_world) = Ok ()"
    using sample_run_any [of "''v''" "fc_Mode sample_fc" "w_umask sample_world"] by (simp add: MaxSecretSize_def)
  then obtain w' where "WriteFile sample_fc ''v'' sample_world = (Ok (), w')" by (metis prod.collapse)
  with p show ?thesis by (simp add: write_files_def f)
qed

lemma app_sync:
  "fst (SyncSecret sample_env c (sample_config []) app_secret sample_state) = Ok ()"
proof -
  have g: "GetCredentials (cfg_SecretStore (sample_config [])) (ResolveCredentials app_secret) =
      Some (GetDefaultCredentials sample_store)"
    by (simp add: sample_config_def app_secret_def ResolveCredentials_def)
  have n: "ResolveNamespace app_secret x = ''ns''" for x by (simp add: ResolveNamespace_def app_secret_def)
  have r: "render_secret sample_env app_secret [(''k'', JString ''v'')] = Ok [(''pw'', ''v'')]"
    by (simp add: render_secret_def RenderAll_def Render_def AddTemplate_def NewEngine_def sample_env_def app_secret_def)
  have k: "sec_MountPath app_secret = ''kv''" "sec_Key app_secret = ''app''" "sec_KVVersion app_secret = ''v2''"
    by (simp_all add: app_secret_def)
  show ?thesis
    using app_write
    by (auto simp: SyncSecret_def g n r k getOrCreateClient_def sample_state_def sample_fetch_retry sample_env_def [THEN arg_cong [where f = sv_api]]
        sample_env_def [THEN arg_cong [where f = sv_factory]] sample_env_def [THEN arg_cong [where f = sv_retry]] Let_def
        split: prod.splits)
qed

lemma app_ready:
  assumes "w_nodes w = w_nodes sample_world"
  shows "disk_ready (paths_of app_secret) w"
proof -
  have p: "paths_of app_secret = {''/out/pw''}" by (simp add: paths_of_def app_secret_def)
  have c: "dir_chain (filepath_Dir ''/out/pw'') = [''/out'']" and q: "proper_path ''/out/pw''" by code_simp+
  have "apart {''/out/pw''}" by (simp add: apart_def c q temp_name_def)
  moreover have "temp_free ''/out/pw'' w" using sample_free assms by (auto simp: sample_fc_def temp_free_def lookup_def split: if_splits)
  ultimately show ?thesis by (simp add: disk_ready_def p)
qed

lemma app_map: "go_map (sec_TemplateData app_secret)"
  by (simp add: go_map_def app_secret_def)

lemma app_result:
  obtains st where "SyncSecret sample_env (\<lambda>_. False) (sample_config []) app_secret sample_state = (Ok (), st)"
  using app_sync by (metis prod.collapse)

text \<open>What the example fetches, and the file that this becomes.\<close>

lemma app_fetched:
  assumes "fetched sample_env c (sample_config []) app_secret st data" and "sy_pool st = []"
  shows "data = [(''k'', JString ''v'')]"
proof -
  have n: "ResolveNamespace app_secret x = ''ns''" for x by (simp add: ResolveNamespace_def app_secret_def)
  have k: "sec_MountPath app_secret = ''kv''" "sec_Key app_secret = ''app''" "sec_KVVersion app_secret = ''v2''"
    by (simp_all add: app_secret_def)
  have e: "sv_api sample_env = sample_api 0" "sv_retry sample_env = sample_retry" "sv_factory sample_env = (\<lambda>_ w. (Inr sample_client, w))"
    by (simp_all add: sample_env_def)
  from assms show ?thesis
    unfolding fetched_def n k e by (auto simp: getOrCreateClient_def sample_fetch_retry)
qed

lemma app_file:
  assumes "renders_to sample_env app_secret [(''k'', JString ''v'')] (filepath_Base ''/out/pw'') text"
    and "complete_file app_secret ''/out/pw'' text w n" and "w_umask w = 0x12" and "w_gid w = 0"
  shows "n = Reg ''v'' 0x180 1000 0"
proof -
  have b: "filepath_Base ''/out/pw'' = ''pw''" by code_simp
  have o: "ParseOwner ''1000'' = Ok 1000"
    by (simp add: ParseOwner_def strconv_Atoi_def strip_sign_def strconv_ParseUint_def is_digit_def digit_val_def char_code_def)
  have m: "(0x180 :: FileMode) AND mode_mask AND - 19 = 0x180" by code_simp
  have i: "new_id 1000 g = 1000" for g by (simp add: new_id_def)
  have "text = ''v''" using assms(1) by (simp add: b renders_to_def app_secret_def sample_env_def)
  with assms(2-4) show ?thesis
    by (auto simp: complete_file_def app_secret_def o written_def created_mode_def final_owner_def final_group_def m i)
qed

theorem SyncSecret_old_or_new_witness:
  "\<exists>r st. SyncSecret sample_env (\<lambda>_. False) (sample_config []) app_secret (sample_state\<lparr>sy_disk := full_world\<rparr>) = (r, st) \<and>
     (\<forall>q. r \<noteq> Panic q) \<and> lookup (sy_disk st) ''/out/pw'' \<in> {Some (Reg ''old'' 0x180 0 0), Some (Reg ''v'' 0x180 1000 0)}"
proof -
  let ?st = "sample_state\<lparr>sy_disk := full_world\<rparr>"
  obtain r st where r: "SyncSecret sample_env (\<lambda>_. False) (sample_config []) app_secret ?st = (r, st)" by (rule prod.exhaust)
  have p: "''/out/pw'' \<in> paths_of app_secret" by (simp add: paths_of_def app_secret_def)
  have d: "disk_ready (paths_of app_secret) (sy_disk ?st)" by (simp add: app_ready full_world_def)
  have w: "w_umask full_world = 0x12" "w_gid full_world = 0" "lookup full_world ''/out/pw'' = Some (Reg ''old'' 0x180 0 0)"
    by (simp_all add: full_world_def sample_world_def lookup_def)
  have pool: "sy_pool ?st = []" by (simp add: sample_state_def)
  from SyncSecret_old_or_new [OF r d app_map p] r app_fetched [OF _ pool] app_file [OF _ _ w(1,2)] w(3) show ?thesis
    by fastforce
qed

theorem SyncSecret_ok_witness:
  "\<exists>st. SyncSecret sample_env (\<lambda>_. False) (sample_config []) app_secret sample_state = (Ok (), st) \<and>
     fetched sample_env (\<lambda>_. False) (sample_config []) app_secret sample_state [(''k'', JString ''v'')] \<and>
     lookup (sy_disk st) ''/out/pw'' = Some (Reg ''v'' 0x180 1000 0)"
proof -
  obtain st where st: "SyncSecret sample_env (\<lambda>_. False) (sample_config []) app_secret sample_state = (Ok (), st)"
    by (rule app_result)
  have r: "disk_ready (paths_of app_secret) (sy_disk sample_state)" by (simp add: app_ready sample_state_def)
  have "distinct (map file_Path (sec_Files app_secret))" by (simp add: app_secret_def)
  from SyncSecret_ok [OF st r app_map this] obtain data where
    d: "fetched sample_env (\<lambda>_. False) (sample_config []) app_secret sample_state data"
      "\<forall>f \<in> set (sec_Files app_secret). \<exists>text n. renders_to sample_env app_secret data (filepath_Base (file_Path f)) text \<and>
           complete_file app_secret (file_Path f) text (sy_disk sample_state) n \<and> lookup (sy_disk st) (file_Path f) = Some n"
    by blast
  have data: "data = [(''k'', JString ''v'')]" by (rule app_fetched [OF d(1)]) (simp add: sample_state_def)
  obtain f where f: "sec_Files app_secret = [f]" "file_Path f = ''/out/pw''" by (simp add: app_secret_def)
  have w: "w_umask (sy_disk sample_state) = 0x12" "w_gid (sy_disk sample_state) = 0"
    by (simp_all add: sample_state_def sample_world_def)
  from d(2) f data obtain c n where "renders_to sample_env app_secret [(''k'', JString ''v'')] (filepath_Base ''/out/pw'') c"
    "complete_file app_secret ''/out/pw'' c (sy_disk sample_state) n" "lookup (sy_disk st) ''/out/pw'' = Some n" by auto
  with app_file [OF this(1,2) w] st d(1) data show ?thesis by blast
qed

theorem SyncSecret_ignores_new_credentials_witness:
  "SyncSecret sample_env (\<lambda>_. False) ((sample_config [])\<lparr>cfg_SecretStore := sample_store\<lparr>ss_Token := ''rotated''\<rparr>\<rparr>) app_secret
       (sample_state\<lparr>sy_pool := [([], sample_client)]\<rparr>) =
   SyncSecret sample_env (\<lambda>_. False) (sample_config []) app_secret (sample_state\<lparr>sy_pool := [([], sample_client)]\<rparr>)"
  by (rule SyncSecret_ignores_new_credentials) (simp_all add: app_secret_def ResolveCredentials_def sample_config_def sample_store_def)

theorem validated_secret_errors_witness:
  "\<exists>cfg s st'. Validate sample_os (sample_config [''/o/a'']) = Ok cfg \<and> s \<in> set (cfg_Secrets cfg) \<and>
     SyncSecret (sample_env\<lparr>sv_factory := (\<lambda>_ w. (Inl ContextCancelled, w))\<rparr>) (\<lambda>_. False) cfg s sample_state =
       (Err (ClientCreation [] ContextCancelled), st') \<and>
     ClientCreation [] ContextCancelled \<noteq> CredsUnknown []"
proof -
  let ?cfg = "norm_config sample_os (sample_config [''/o/a''])"
  have v: "Validate sample_os (sample_config [''/o/a'']) = Ok ?cfg"
    using sample_config_ok by (simp add: Validate_Ok)
  obtain s where s: "cfg_Secrets ?cfg = [s]" "sec_Credentials s = []"
    by (simp add: norm_config_def sample_config_def norm_secret_def sample_secret_def)
  have m: "s \<in> set (cfg_Secrets ?cfg)" by (simp add: s)
  obtain st' where r: "SyncSecret (sample_env\<lparr>sv_factory := (\<lambda>_ w. (Inl ContextCancelled, w))\<rparr>) (\<lambda>_. False) ?cfg s sample_state =
      (Err (ClientCreation [] ContextCancelled), st')"
    by (simp add: SyncSecret_def getOrCreateClient_def ResolveCredentials_def s sample_state_def)
  from validated_secret_errors [OF v m r, of "[]"] v m r show ?thesis by blast
qed

end
