(* ===== verification/Scheduler.thy ===== *)
theory Scheduler
  imports Syncer
begin

text \<open>
  \<open>internal/syncer/scheduler.go\<close>: one goroutine per secret, which synchronises it at once and then at every tick
  of its ticker.  A \<open>job\<close> is shared by the scheduler and its goroutine through a pointer, so jobs live in a heap
  and a pointer is an index; a job is never removed from the heap.  A closed channel is a flag, the results channel a
  queue of at most 100 entries, a ticker the flag that it runs and the flag that a tick is waiting (stopping a
  ticker also takes the tick away).
\<close>

section \<open>State\<close>

record SyncResult =
  sr_SecretName :: string
  sr_Success :: bool
  sr_Error :: "sync_error option"
  sr_Timestamp :: int

text \<open>
  Where the goroutine of a job is: in \<open>syncAndReport\<close> (where it starts, and where a tick takes it), at the \<open>select\<close>,
  or gone.
\<close>

datatype job_phase = Syncing | Selecting | Returned

record job =
  j_cfg :: Config
  j_secret :: Secret
  j_ticking :: bool
  j_tick :: bool
  j_stopCh :: bool
  j_lastSync :: "int option"
  j_phase :: job_phase

record scheduler =
  sd_heap :: "job list"
  sd_jobs :: "(string \<times> nat) list"
  sd_stopCh :: bool
  sd_results :: "SyncResult list"

definition results_cap :: nat where "results_cap = 100"

definition NewScheduler :: scheduler where
  "NewScheduler = \<lparr>sd_heap = [], sd_jobs = [], sd_stopCh = False, sd_results = []\<rparr>"

definition update_job :: "nat \<Rightarrow> (job \<Rightarrow> job) \<Rightarrow> scheduler \<Rightarrow> scheduler" where
  "update_job i f s = s\<lparr>sd_heap := (sd_heap s)[i := f (sd_heap s ! i)]\<rparr>"

section \<open>The operations\<close>

text \<open>\<open>ticker.Stop()\<close> and \<open>close(stopCh)\<close>, the two statements that end a job.\<close>

definition stop_job :: "nat \<Rightarrow> scheduler \<Rightarrow> (unit, scheduler) outcome" where
  "stop_job i s =
     (if j_stopCh (sd_heap s ! i) then Panic CloseOfClosedChannel
      else Ok (update_job i (\<lambda>j. j\<lparr>j_ticking := False, j_tick := False, j_stopCh := True\<rparr>) s))"

definition new_job :: "Config \<Rightarrow> Secret \<Rightarrow> job" where
  "new_job cfg secret =
     \<lparr>j_cfg = cfg, j_secret = secret, j_ticking = True, j_tick = False, j_stopCh = False,
      j_lastSync = None, j_phase = Syncing\<rparr>"

definition AddSecret :: "Config \<Rightarrow> Secret \<Rightarrow> scheduler \<Rightarrow> (unit, scheduler) outcome" where
  "AddSecret cfg secret s =
     and_then
       (case map_of (sd_jobs s) (sec_Name secret) of Some existing \<Rightarrow> stop_job existing s | None \<Rightarrow> Ok s)
       (\<lambda>s1. if sec_RefreshInterval secret \<le> 0 then Panic NonPositiveTicker
             else Ok (s1\<lparr>sd_heap := sd_heap s1 @ [new_job cfg secret],
                         sd_jobs := AList.update (sec_Name secret) (length (sd_heap s1)) (sd_jobs s1)\<rparr>))"

definition RemoveSecret :: "string \<Rightarrow> scheduler \<Rightarrow> (unit, scheduler) outcome" where
  "RemoveSecret nm s =
     (case map_of (sd_jobs s) nm of
        None \<Rightarrow> Ok s
      | Some j \<Rightarrow> and_then (stop_job j s) (\<lambda>s1. Ok (s1\<lparr>sd_jobs := AList.delete nm (sd_jobs s1)\<rparr>)))"

definition Stop :: "scheduler \<Rightarrow> (unit, scheduler) outcome" where
  "Stop s =
     (if sd_stopCh s then Panic CloseOfClosedChannel
      else and_then (each stop_job (map snd (sd_jobs s)) (s\<lparr>sd_stopCh := True\<rparr>)) (\<lambda>s1.
             Ok (s1\<lparr>sd_jobs := []\<rparr>)))"

text \<open>The time of a job that has not synchronised yet is Go's zero time, here \<^const>\<open>None\<close>.\<close>

definition GetLastSyncTime :: "string \<Rightarrow> scheduler \<Rightarrow> int option \<times> bool" where
  "GetLastSyncTime nm s =
     (case map_of (sd_jobs s) nm of
        Some i \<Rightarrow> (j_lastSync (sd_heap s ! i), True)
      | None \<Rightarrow> (None, False))"

section \<open>The goroutine of a job\<close>

text \<open>The \<open>select\<close> with a default: a result that does not fit is dropped.\<close>

definition report :: "SyncResult \<Rightarrow> scheduler \<Rightarrow> scheduler" where
  "report result s =
     (if length (sd_results s) < results_cap then s\<lparr>sd_results := sd_results s @ [result]\<rparr> else s)"

type_synonym 'w sched_state = "scheduler \<times> 'w sync_state"

definition syncAndReport ::
  "('w, 't) sync_env \<Rightarrow> int \<Rightarrow> nat \<Rightarrow> 'w sched_state \<Rightarrow> (unit, 'w sched_state) outcome" where
  "syncAndReport env now i st =
     (case st of (s, sy) \<Rightarrow>
       let j = sd_heap s ! i in
       (case SyncSecret env (\<lambda>_. False) (j_cfg j) (j_secret j) sy of
          (Panic p, sy') \<Rightarrow> Panic p
        | (Ok _, sy') \<Rightarrow>
            (let result = \<lparr>sr_SecretName = sec_Name (j_secret j), sr_Success = True, sr_Error = None, sr_Timestamp = now\<rparr>
             in Ok (report result (update_job i (\<lambda>j. j\<lparr>j_lastSync := Some (sr_Timestamp result)\<rparr>) s), sy'))
        | (Err e, sy') \<Rightarrow>
            (let result = \<lparr>sr_SecretName = sec_Name (j_secret j), sr_Success = False, sr_Error = Some e, sr_Timestamp = now\<rparr>
             in Ok (report result s, sy'))))"

text \<open>
  The \<open>select\<close> of \<open>runJob\<close> may take any case that is ready; the case taken is an input.  A case that is not ready
  is not taken, and the goroutine stays where it is.  The call of \<open>syncAndReport\<close> is entered in one step (the start of
  the goroutine, or the tick that is taken) and has its effect in a later one, when it returns; so a synchronisation
  may be under way while the job is stopped or replaced.
\<close>

datatype select_case = TickC | JobStopC | SchedStopC

fun case_ready :: "select_case \<Rightarrow> scheduler \<Rightarrow> job \<Rightarrow> bool" where
  "case_ready TickC s j = j_tick j"
| "case_ready JobStopC s j = j_stopCh j"
| "case_ready SchedStopC s j = sd_stopCh s"

definition set_phase :: "nat \<Rightarrow> job_phase \<Rightarrow> scheduler \<Rightarrow> scheduler" where
  "set_phase i ph s = update_job i (\<lambda>j. j\<lparr>j_phase := ph\<rparr>) s"

definition runJob ::
  "('w, 't) sync_env \<Rightarrow> int \<Rightarrow> select_case \<Rightarrow> nat \<Rightarrow> 'w sched_state \<Rightarrow> (unit, 'w sched_state) outcome" where
  "runJob env now c i st =
     (case st of (s, sy) \<Rightarrow>
       if length (sd_heap s) \<le> i then Ok st
       else (case j_phase (sd_heap s ! i) of
           Syncing \<Rightarrow> and_then (syncAndReport env now i st) (\<lambda>(s1, sy1). Ok (set_phase i Selecting s1, sy1))
         | Selecting \<Rightarrow>
             (if \<not> case_ready c s (sd_heap s ! i) then Ok st
              else if c = TickC then Ok (set_phase i Syncing (update_job i (\<lambda>j. j\<lparr>j_tick := False\<rparr>) s), sy)
              else Ok (set_phase i Returned s, sy))
         | Returned \<Rightarrow> Ok st))"

text \<open>The clock: a running ticker whose last tick has been taken offers the next one.\<close>

definition ticker_fires :: "nat \<Rightarrow> scheduler \<Rightarrow> scheduler" where
  "ticker_fires i s =
     (if i < length (sd_heap s) \<and> j_ticking (sd_heap s ! i) then update_job i (\<lambda>j. j\<lparr>j_tick := True\<rparr>) s else s)"

section \<open>Interleavings\<close>

text \<open>
  What can happen to a scheduler, one atomic step at a time; the \<open>JobRuns\<close> step of a job that is synchronising
  holds the effect of the whole synchronisation.  \<open>ResultTaken\<close> is a receive from the channel that \<open>Results()\<close> gives.
\<close>

datatype sched_event =
    Added Config Secret
  | Removed string
  | Stopped
  | TickerFires nat
  | JobRuns nat select_case int
  | ResultTaken

fun sched_step :: "('w, 't) sync_env \<Rightarrow> sched_event \<Rightarrow> 'w sched_state \<Rightarrow> (unit, 'w sched_state) outcome" where
  "sched_step env (Added cfg x) (s, sy) = and_then (AddSecret cfg x s) (\<lambda>s1. Ok (s1, sy))"
| "sched_step env (Removed nm) (s, sy) = and_then (RemoveSecret nm s) (\<lambda>s1. Ok (s1, sy))"
| "sched_step env Stopped (s, sy) = and_then (Stop s) (\<lambda>s1. Ok (s1, sy))"
| "sched_step env (TickerFires i) (s, sy) = Ok (ticker_fires i s, sy)"
| "sched_step env (JobRuns i c now) (s, sy) = runJob env now c i (s, sy)"
| "sched_step env ResultTaken (s, sy) = Ok (s\<lparr>sd_results := tl (sd_results s)\<rparr>, sy)"

definition sched_run ::
  "('w, 't) sync_env \<Rightarrow> sched_event list \<Rightarrow> 'w sched_state \<Rightarrow> (unit, 'w sched_state) outcome" where
  "sched_run env evs st = each (sched_step env) evs st"

end
