(* ===== verification/Scheduler_Theorems.thy ===== *)
theory Scheduler_Theorems
  imports Scheduler Syncer_Theorems
begin

text \<open>
  What the scheduler guarantees: per secret name it runs at most one goroutine that has not been told to stop, exactly
  for the secrets that were added last and not removed; it panics only for the two reasons that its callers must
  exclude; and a job whose stop channel is closed ends, after the synchronisation it may be in.
\<close>

section \<open>A synchronisation never panics\<close>

lemma WriteFile_never_panics: "WriteFile c d w \<noteq> (Panic q, w')"
  by (auto simp: WriteFile_def fill_temp_def commit_temp_def validatePath_no_panic validateFileType_no_panic
      Let_def split: outcome.splits sum.splits prod.splits if_splits)

lemma write_each_never_panics:
  "(\<And>x p. prep x \<noteq> Panic p) \<Longrightarrow> write_each prep wrap WriteFile xs w \<noteq> (Panic q, w')"
  by (induction xs arbitrary: w) (auto simp: WriteFile_never_panics split: outcome.splits prod.splits)

lemma SyncSecret_never_panics: "SyncSecret env cancelled cfg s sy \<noteq> (Panic p, sy')"
proof
  assume "SyncSecret env cancelled cfg s sy = (Panic p, sy')"
  then show False
  proof (cases rule: SyncSecret_stages)
    case (writing creds client pool w data pauses client' rendered)
    then show False by (simp add: write_files_def write_each_never_panics prepare_file_no_panic)
  qed simp
qed

lemma syncAndReport_cases:
  assumes "syncAndReport env now i (s, sy) = r"
  obtains (success) sy' u where "SyncSecret env (\<lambda>_. False) (j_cfg (sd_heap s ! i)) (j_secret (sd_heap s ! i)) sy = (Ok u, sy')"
      and "r = Ok (report \<lparr>sr_SecretName = sec_Name (j_secret (sd_heap s ! i)), sr_Success = True, sr_Error = None, sr_Timestamp = now\<rparr>
              (update_job i (\<lambda>j. j\<lparr>j_lastSync := Some now\<rparr>) s), sy')"
  | (failure) sy' e where "SyncSecret env (\<lambda>_. False) (j_cfg (sd_heap s ! i)) (j_secret (sd_heap s ! i)) sy = (Err e, sy')"
      and "r = Ok (report \<lparr>sr_SecretName = sec_Name (j_secret (sd_heap s ! i)), sr_Success = False, sr_Error = Some e, sr_Timestamp = now\<rparr> s, sy')"
proof -
  obtain q sy' where q: "SyncSecret env (\<lambda>_. False) (j_cfg (sd_heap s ! i)) (j_secret (sd_heap s ! i)) sy = (q, sy')"
    by (cases "SyncSecret env (\<lambda>_. False) (j_cfg (sd_heap s ! i)) (j_secret (sd_heap s ! i)) sy")
  with assms show thesis
    by (cases q) (auto simp: syncAndReport_def Let_def SyncSecret_never_panics intro: success failure)
qed

section \<open>Steps that leave the table of jobs alone\<close>

text \<open>What the table of jobs depends on: which job is for which secret, and whether its stop channel is closed.\<close>

definition job_id :: "job \<Rightarrow> Config \<times> Secret \<times> bool" where
  "job_id j = (j_cfg j, j_secret j, j_stopCh j)"

definition same_jobs :: "scheduler \<Rightarrow> scheduler \<Rightarrow> bool" where
  "same_jobs s s' \<longleftrightarrow>
     map job_id (sd_heap s') = map job_id (sd_heap s) \<and> sd_jobs s' = sd_jobs s \<and> sd_stopCh s' = sd_stopCh s"

lemma same_jobs_refl [simp, intro]: "same_jobs s s"
  by (simp add: same_jobs_def)

lemma same_jobs_trans [trans]: "same_jobs s s' \<Longrightarrow> same_jobs s' s'' \<Longrightarrow> same_jobs s s''"
  by (simp add: same_jobs_def)

lemma update_job_simps [simp]:
  "length (sd_heap (update_job i f s)) = length (sd_heap s)"
  "sd_jobs (update_job i f s) = sd_jobs s" "sd_stopCh (update_job i f s) = sd_stopCh s"
  "sd_results (update_job i f s) = sd_results s"
  "k < length (sd_heap s) \<Longrightarrow> sd_heap (update_job i f s) ! k = (if k = i then f (sd_heap s ! i) else sd_heap s ! k)"
  by (simp_all add: update_job_def nth_list_update)

lemma report_simps [simp]:
  "sd_heap (report r s) = sd_heap s" "sd_jobs (report r s) = sd_jobs s" "sd_stopCh (report r s) = sd_stopCh s"
  by (simp_all add: report_def)

lemma same_jobs_update: "(\<And>j. job_id (f j) = job_id j) \<Longrightarrow> same_jobs s (update_job i f s)"
  by (auto simp: same_jobs_def update_job_def map_update)
    (metis length_map list_update_beyond list_update_id not_le_imp_less nth_map)

lemma same_jobs_report: "same_jobs s (report r s)"
  by (simp add: same_jobs_def)

lemma job_id_simps [simp]:
  "job_id (j\<lparr>j_tick := b\<rparr>) = job_id j" "job_id (j\<lparr>j_lastSync := t\<rparr>) = job_id j" "job_id (j\<lparr>j_phase := ph\<rparr>) = job_id j"
  by (simp_all add: job_id_def)

text \<open>
  The fields of a single job, the size of the queue of results, and that a goroutine has only returned when its own
  stop channel or that of the scheduler is closed.
\<close>

definition job_ok :: "job \<Rightarrow> bool" where
  "job_ok j \<longleftrightarrow> j_ticking j = (\<not> j_stopCh j) \<and> (j_tick j \<longrightarrow> j_ticking j)"

definition parts_ok :: "scheduler \<Rightarrow> bool" where
  "parts_ok s \<longleftrightarrow> (\<forall>j \<in> set (sd_heap s). job_ok j) \<and> length (sd_results s) \<le> results_cap \<and>
     (\<forall>j \<in> set (sd_heap s). j_phase j = Returned \<longrightarrow> j_stopCh j \<or> sd_stopCh s)"

lemma parts_ok_nth:
  "parts_ok s \<longleftrightarrow> length (sd_results s) \<le> results_cap \<and>
     (\<forall>k < length (sd_heap s). job_ok (sd_heap s ! k) \<and>
        (j_phase (sd_heap s ! k) = Returned \<longrightarrow> j_stopCh (sd_heap s ! k) \<or> sd_stopCh s))"
  unfolding parts_ok_def all_set_conv_all_nth by auto

lemma parts_ok_update:
  assumes "parts_ok s" and "\<And>j. job_ok j \<Longrightarrow> job_ok (f j)"
    and "\<And>j. j_phase (f j) = Returned \<Longrightarrow> j_phase j = Returned \<and> j_stopCh (f j) = j_stopCh j \<or> j_stopCh (f j)"
  shows "parts_ok (update_job i f s)"
  using assms by (auto simp: parts_ok_nth)

lemma parts_ok_return:
  assumes "parts_ok s" and "j_stopCh (sd_heap s ! i) \<or> sd_stopCh s"
  shows "parts_ok (set_phase i Returned s)"
  using assms by (auto simp: parts_ok_nth set_phase_def job_ok_def)

lemma parts_ok_report: "parts_ok s \<Longrightarrow> parts_ok (report r s)"
  by (auto simp: parts_ok_def report_def)

lemma sync_step:
  assumes "syncAndReport env now i (s, sy) = r"
  obtains s' sy' where "r = Ok (s', sy')" and "same_jobs s s'" and "parts_ok s \<Longrightarrow> parts_ok s'"
    and "map j_phase (sd_heap s') = map j_phase (sd_heap s)" and "map j_tick (sd_heap s') = map j_tick (sd_heap s)"
  using assms
proof (cases rule: syncAndReport_cases)
  case (success sy' u)
  let ?s1 = "update_job i (\<lambda>j. j\<lparr>j_lastSync := Some now\<rparr>) s"
  have "same_jobs s (report x ?s1)" for x
    using same_jobs_trans [OF same_jobs_update same_jobs_report] by simp
  moreover have "parts_ok s \<Longrightarrow> parts_ok (report x ?s1)" for x
    by (intro parts_ok_report parts_ok_update) (auto simp: job_ok_def)
  moreover have "map j_phase (sd_heap ?s1) = map j_phase (sd_heap s)" "map j_tick (sd_heap ?s1) = map j_tick (sd_heap s)"
    by (auto intro!: nth_equalityI split: if_splits)
  ultimately show thesis by (intro that [OF success(2)]) simp_all
next
  case (failure sy' e)
  then show thesis by (intro that [OF failure(2)]) (simp_all add: same_jobs_report parts_ok_report)
qed

lemma runJob_step:
  assumes "runJob env now c i (s, sy) = r"
  obtains s' sy' where "r = Ok (s', sy')" and "same_jobs s s'" and "parts_ok s \<Longrightarrow> parts_ok s'"
proof (cases "length (sd_heap s) \<le> i")
  case True
  with assms that [of s sy] show thesis by (simp add: runJob_def)
next
  case False
  have ph: "same_jobs s' (set_phase i x s')" for s' x
    by (simp add: set_phase_def same_jobs_update)
  have ok: "parts_ok s' \<Longrightarrow> x \<noteq> Returned \<Longrightarrow> parts_ok (set_phase i x s')" for s' x
    unfolding set_phase_def by (rule parts_ok_update) (auto simp: job_ok_def)
  show thesis
  proof (cases "j_phase (sd_heap s ! i)")
    case Syncing
    obtain s1 sy1 where "syncAndReport env now i (s, sy) = Ok (s1, sy1)" "same_jobs s s1" "parts_ok s \<Longrightarrow> parts_ok s1"
      using sync_step [OF refl] by metis
    with False Syncing assms ph ok show thesis
      by (intro that [of "set_phase i Selecting s1" sy1]) (auto simp: runJob_def intro: same_jobs_trans)
  next
    case Selecting
    let ?s0 = "update_job i (\<lambda>j. j\<lparr>j_tick := False\<rparr>) s"
    have s0: "same_jobs s ?s0" "parts_ok s \<Longrightarrow> parts_ok ?s0"
      by (auto simp: job_ok_def intro!: same_jobs_update parts_ok_update)
    show thesis
    proof (cases "case_ready c s (sd_heap s ! i)")
      case ready: True
      show thesis
      proof (cases "c = TickC")
        case True
        with False Selecting assms ready ph [of ?s0] ok [of ?s0] s0 show thesis
          by (intro that [of "set_phase i Syncing ?s0" sy]) (auto simp: runJob_def intro: same_jobs_trans)
      next
        case c: False
        with ready have "j_stopCh (sd_heap s ! i) \<or> sd_stopCh s" by (cases c) auto
        with False Selecting assms ready c ph parts_ok_return [of s i] show thesis
          by (intro that [of "set_phase i Returned s" sy]) (auto simp: runJob_def)
      qed
    qed (use False Selecting assms that [of s sy] in \<open>simp add: runJob_def\<close>)
  next
    case Returned
    with False assms that [of s sy] show thesis by (simp add: runJob_def)
  qed
qed

lemma ticker_fires_facts: "same_jobs s (ticker_fires i s)" "parts_ok s \<Longrightarrow> parts_ok (ticker_fires i s)"
proof -
  show "same_jobs s (ticker_fires i s)" by (simp add: ticker_fires_def same_jobs_update)
  assume p: "parts_ok s"
  show "parts_ok (ticker_fires i s)"
    using p by (auto simp: ticker_fires_def parts_ok_nth job_ok_def)
qed


section \<open>The table of jobs\<close>

text \<open>
  The invariant: the entries of the map are exactly the jobs whose stop channel is open, each under the name of its
  secret.
\<close>

definition table_inv :: "(string \<rightharpoonup> nat) \<Rightarrow> job list \<Rightarrow> bool" where
  "table_inv m heap \<longleftrightarrow>
     (\<forall>nm i. m nm = Some i \<longleftrightarrow>
        i < length heap \<and> sec_Name (j_secret (heap ! i)) = nm \<and> \<not> j_stopCh (heap ! i))"

definition sched_inv :: "scheduler \<Rightarrow> bool" where
  "sched_inv s \<longleftrightarrow> go_map (sd_jobs s) \<and> table_inv (map_of (sd_jobs s)) (sd_heap s) \<and> parts_ok s"

text \<open>The secrets that the scheduler currently synchronises, with the configuration each was added with.\<close>

definition active :: "scheduler \<Rightarrow> string \<rightharpoonup> Config \<times> Secret" where
  "active s nm = map_option (\<lambda>i. (j_cfg (sd_heap s ! i), j_secret (sd_heap s ! i))) (map_of (sd_jobs s) nm)"

definition stopped :: "job \<Rightarrow> job" where
  "stopped j = j\<lparr>j_ticking := False, j_tick := False, j_stopCh := True\<rparr>"

lemma stopped_simps [simp]:
  "j_cfg (stopped j) = j_cfg j" "j_secret (stopped j) = j_secret j" "j_stopCh (stopped j)"
  "j_phase (stopped j) = j_phase j" "job_ok (stopped j)" "\<not> j_tick (stopped j)"
  by (simp_all add: stopped_def job_ok_def)

lemma stopped_nth [simp]:
  "j_cfg (sd_heap (update_job i stopped s) ! k) = j_cfg (sd_heap s ! k)"
  "j_secret (sd_heap (update_job i stopped s) ! k) = j_secret (sd_heap s ! k)"
  "j_phase (sd_heap (update_job i stopped s) ! k) = j_phase (sd_heap s ! k)"
proof -
  have "sd_heap (update_job i stopped s) ! k = (if k = i \<and> i < length (sd_heap s) then stopped (sd_heap s ! k) else sd_heap s ! k)"
    by (cases "i < length (sd_heap s)") (auto simp: update_job_def list_update_beyond not_less)
  then show "j_cfg (sd_heap (update_job i stopped s) ! k) = j_cfg (sd_heap s ! k)"
    "j_secret (sd_heap (update_job i stopped s) ! k) = j_secret (sd_heap s ! k)"
    "j_phase (sd_heap (update_job i stopped s) ! k) = j_phase (sd_heap s ! k)" by simp_all
qed

lemma stop_job_def': "stop_job i s =
  (if j_stopCh (sd_heap s ! i) then Panic CloseOfClosedChannel else Ok (update_job i stopped s))"
  by (simp add: stop_job_def stopped_def [abs_def])

lemma table_stop:
  assumes "table_inv m heap" and "m nm = Some i"
  shows "table_inv (m(nm := None)) (heap[i := stopped (heap ! i)])"
proof -
  have i: "i < length heap" "sec_Name (j_secret (heap ! i)) = nm" "\<not> j_stopCh (heap ! i)"
    using assms by (auto simp: table_inv_def)
  show ?thesis
    unfolding table_inv_def
  proof (intro allI)
    fix nm' k
    have "m nm' = Some k \<longleftrightarrow> k < length heap \<and> sec_Name (j_secret (heap ! k)) = nm' \<and> \<not> j_stopCh (heap ! k)"
      using assms(1) by (simp add: table_inv_def)
    with i assms(2) show "(m(nm := None)) nm' = Some k \<longleftrightarrow>
        k < length (heap[i := stopped (heap ! i)]) \<and> sec_Name (j_secret (heap[i := stopped (heap ! i)] ! k)) = nm' \<and>
        \<not> j_stopCh (heap[i := stopped (heap ! i)] ! k)"
      by (cases "k = i"; cases "nm' = nm") auto
  qed
qed

lemma table_add:
  assumes "table_inv m heap" and "m (sec_Name x) = None"
  shows "table_inv (m(sec_Name x \<mapsto> length heap)) (heap @ [new_job cfg x])"
proof -
  have "\<And>i. i < length heap \<Longrightarrow> sec_Name (j_secret (heap ! i)) = sec_Name x \<Longrightarrow> j_stopCh (heap ! i)"
    using assms unfolding table_inv_def by (metis option.distinct(1))
  with assms show ?thesis unfolding table_inv_def by (auto simp: nth_append new_job_def less_Suc_eq)
qed

lemma table_cong: "map job_id h = map job_id h' \<Longrightarrow> table_inv m h = table_inv m h'"
proof -
  assume "map job_id h = map job_id h'"
  then have "length h = length h'" "\<And>k. k < length h \<Longrightarrow> job_id (h ! k) = job_id (h' ! k)"
    by (auto dest: map_eq_imp_length_eq) (metis length_map nth_map)
  then show ?thesis by (auto simp: table_inv_def job_id_def)
qed

lemma same_jobs_inv: "same_jobs s s' \<Longrightarrow> sched_inv s \<Longrightarrow> parts_ok s' \<Longrightarrow> sched_inv s'"
  using table_cong [of "sd_heap s'" "sd_heap s"] by (simp add: same_jobs_def sched_inv_def)

lemma same_jobs_active:
  assumes "same_jobs s s'" and "sched_inv s"
  shows "active s' = active s"
proof
  fix nm
  show "active s' nm = active s nm"
  proof (cases "map_of (sd_jobs s) nm")
    case (Some i)
    with assms(2) have i: "i < length (sd_heap s)" unfolding sched_inv_def table_inv_def by blast
    have m: "map job_id (sd_heap s') = map job_id (sd_heap s)" using assms(1) by (simp add: same_jobs_def)
    note arg_cong [OF m, of "\<lambda>l. l ! i"] map_eq_imp_length_eq [OF m]
    with i have "job_id (sd_heap s' ! i) = job_id (sd_heap s ! i)" by simp
    with assms(1) show ?thesis by (simp add: active_def same_jobs_def Some job_id_def)
  qed (use assms(1) in \<open>simp add: active_def same_jobs_def\<close>)
qed

lemma go_map_update [simp]: "go_map m \<Longrightarrow> go_map (AList.update k v m)"
  by (simp add: go_map_def keys_def distinct_update)

lemma go_map_delete [simp]: "go_map m \<Longrightarrow> go_map (AList.delete k m)"
  by (simp add: go_map_def keys_def distinct_delete)

lemma stop_entry:
  assumes "sched_inv s" and "map_of (sd_jobs s) nm = Some i"
  shows "stop_job i s = Ok (update_job i stopped s)" and "parts_ok (update_job i stopped s)"
    and "table_inv ((map_of (sd_jobs s))(nm := None)) (sd_heap (update_job i stopped s))"
proof -
  have t: "table_inv (map_of (sd_jobs s)) (sd_heap s)" using assms(1) by (simp add: sched_inv_def)
  with assms(2) have "\<not> j_stopCh (sd_heap s ! i)" unfolding table_inv_def by blast
  then show "stop_job i s = Ok (update_job i stopped s)" by (simp add: stop_job_def')
  show "parts_ok (update_job i stopped s)" using assms(1) by (intro parts_ok_update) (simp_all add: sched_inv_def)
  show "table_inv ((map_of (sd_jobs s))(nm := None)) (sd_heap (update_job i stopped s))"
    using table_stop [OF t assms(2)] by (simp add: update_job_def)
qed

lemma AddSecret_ok:
  assumes "sched_inv s" and "0 < sec_RefreshInterval x"
  shows "\<exists>s'. AddSecret cfg x s = Ok s' \<and> sched_inv s' \<and> active s' = (active s)(sec_Name x \<mapsto> (cfg, x)) \<and>
           sd_stopCh s' = sd_stopCh s \<and> sd_results s' = sd_results s"
proof -
  let ?nm = "sec_Name x" and ?m = "map_of (sd_jobs s)"
  define s1 where "s1 = (case ?m ?nm of Some i \<Rightarrow> update_job i stopped s | None \<Rightarrow> s)"
  define s' where "s' = s1\<lparr>sd_heap := sd_heap s1 @ [new_job cfg x], sd_jobs := AList.update ?nm (length (sd_heap s1)) (sd_jobs s1)\<rparr>"
  have t: "table_inv ?m (sd_heap s)" using assms(1) by (simp add: sched_inv_def)
  have s1: "sd_jobs s1 = sd_jobs s" "sd_stopCh s1 = sd_stopCh s" "sd_results s1 = sd_results s" "length (sd_heap s1) = length (sd_heap s)"
    by (simp_all add: s1_def split: option.split)
  have p1: "parts_ok s1" using assms(1) stop_entry(2) by (auto simp: s1_def sched_inv_def split: option.split)
  have "table_inv (?m(?nm := None)) (sd_heap s1)"
    using stop_entry(3) [OF assms(1)] t by (auto simp: s1_def fun_upd_idem split: option.split)
  from table_add [OF this, of x cfg] have "table_inv (?m(?nm \<mapsto> length (sd_heap s1))) (sd_heap s')"
    by (simp add: s'_def)
  moreover have ok_new: "job_ok (new_job cfg x)" "j_phase (new_job cfg x) \<noteq> Returned" by (simp_all add: job_ok_def new_job_def)
  ultimately have inv: "sched_inv s'"
    using assms(1) p1 s1 ok_new by (simp add: sched_inv_def s'_def parts_ok_def update_conv')
  have "active s' nm = ((active s)(?nm \<mapsto> (cfg, x))) nm" for nm
  proof (cases "nm = ?nm")
    case False
    have "i < length (sd_heap s)" if "?m nm = Some i" for i
      using that t unfolding table_inv_def by blast
    moreover have "j_cfg (sd_heap s1 ! i) = j_cfg (sd_heap s ! i)" "j_secret (sd_heap s1 ! i) = j_secret (sd_heap s ! i)" for i
      by (simp_all add: s1_def split: option.split)
    ultimately show ?thesis
      using False s1 by (cases "?m nm") (simp_all add: active_def s'_def update_conv' nth_append)
  qed (simp add: active_def s'_def update_conv' new_job_def)
  then have "active s' = (active s)(?nm \<mapsto> (cfg, x))" by blast
  moreover have "AddSecret cfg x s = Ok s'"
    using assms stop_entry(1) by (auto simp: AddSecret_def s'_def s1_def split: option.split)
  ultimately show ?thesis using inv s1 by (auto simp: s'_def)
qed

lemma RemoveSecret_ok:
  assumes "sched_inv s"
  shows "\<exists>s'. RemoveSecret nm s = Ok s' \<and> sched_inv s' \<and> active s' = (active s)(nm := None) \<and>
           sd_stopCh s' = sd_stopCh s \<and> sd_results s' = sd_results s"
proof (cases "map_of (sd_jobs s) nm")
  case None
  with assms show ?thesis by (auto simp: RemoveSecret_def active_def)
next
  case (Some i)
  let ?s' = "(update_job i stopped s)\<lparr>sd_jobs := AList.delete nm (sd_jobs s)\<rparr>"
  note e = stop_entry [OF assms Some]
  have t: "table_inv (map_of (sd_jobs s)) (sd_heap s)" using assms by (simp add: sched_inv_def)
  have "active ?s' n = ((active s)(nm := None)) n" for n
    using t Some by (auto simp: active_def delete_conv' table_inv_def split: option.split)
  then have "active ?s' = (active s)(nm := None)" by blast
  moreover have "sched_inv ?s'" using assms e(2,3) by (simp add: sched_inv_def delete_conv' parts_ok_def)
  ultimately show ?thesis using Some e(1) by (auto simp: RemoveSecret_def)
qed

lemma stop_all:
  "go_map js \<Longrightarrow> table_inv (map_of js) (sd_heap s) \<Longrightarrow> parts_ok s \<Longrightarrow>
   \<exists>s'. each stop_job (map snd js) s = Ok s' \<and> table_inv Map.empty (sd_heap s') \<and> parts_ok s' \<and>
     sd_stopCh s' = sd_stopCh s \<and> sd_results s' = sd_results s \<and> map j_phase (sd_heap s') = map j_phase (sd_heap s) \<and>
     map j_secret (sd_heap s') = map j_secret (sd_heap s)"
proof (induction js arbitrary: s)
  case Nil
  then show ?case by simp
next
  case (Cons e js)
  obtain nm i where e: "e = (nm, i)" by (cases e)
  let ?s1 = "update_job i stopped s"
  have js: "go_map js" "nm \<notin> set (keys js)" using Cons.prems(1) e by (simp_all add: go_map_def)
  have "map_of (e # js) nm = Some i" using e by simp
  with Cons.prems(2) have "\<not> j_stopCh (sd_heap s ! i)" unfolding table_inv_def by blast
  then have st: "stop_job i s = Ok ?s1" by (simp add: stop_job_def')
  have "table_inv ((map_of (e # js))(nm := None)) (sd_heap ?s1)"
    using table_stop [OF Cons.prems(2), of nm i] e by (simp add: update_job_def fun_upd_def)
  moreover have "(map_of (e # js))(nm := None) = map_of js"
    using js(2) e by (auto simp: map_of_None_keys [symmetric])
  ultimately have "table_inv (map_of js) (sd_heap ?s1)" by simp
  moreover have "parts_ok ?s1" using Cons.prems(3) by (intro parts_ok_update) simp_all
  moreover have "map j_phase (sd_heap ?s1) = map j_phase (sd_heap s)" "map j_secret (sd_heap ?s1) = map j_secret (sd_heap s)"
    by (auto intro!: nth_equalityI)
  ultimately show ?case using Cons.IH [OF js(1), of ?s1] st e by auto
qed

lemma Stop_ok:
  assumes "sched_inv s" and "\<not> sd_stopCh s"
  shows "\<exists>s'. Stop s = Ok s' \<and> sched_inv s' \<and> active s' = Map.empty \<and> sd_stopCh s' \<and> sd_results s' = sd_results s \<and>
           map j_phase (sd_heap s') = map j_phase (sd_heap s)"
proof -
  from assms(1) stop_all [of "sd_jobs s" "s\<lparr>sd_stopCh := True\<rparr>"] obtain s1 where
    s1: "each stop_job (map snd (sd_jobs s)) (s\<lparr>sd_stopCh := True\<rparr>) = Ok s1" "table_inv Map.empty (sd_heap s1)" "parts_ok s1"
      "sd_stopCh s1" "sd_results s1 = sd_results s" "map j_phase (sd_heap s1) = map j_phase (sd_heap s)"
    by (auto simp: sched_inv_def parts_ok_def)
  with assms(2) show ?thesis
    by (intro exI [of _ "s1\<lparr>sd_jobs := []\<rparr>"]) (simp add: Stop_def sched_inv_def go_map_def active_def [abs_def] parts_ok_def)
qed


section \<open>The contract that the main program relies on\<close>

text \<open>
  A registry of secrets, as \<open>main.go\<close> uses one: secrets are added in a loop, and at the end everything is stopped.
  An added secret replaces the one of the same name.
\<close>

definition by_name :: "Config \<Rightarrow> Secret list \<Rightarrow> string \<rightharpoonup> Config \<times> Secret" where
  "by_name cfg xs = map_of (rev (map (\<lambda>x. (sec_Name x, cfg, x)) xs))"

locale secret_registry =
  fixes inv :: "'s \<Rightarrow> bool"
    and secrets :: "'s \<Rightarrow> string \<rightharpoonup> Config \<times> Secret"
    and ended :: "'s \<Rightarrow> bool"
    and add :: "Config \<Rightarrow> Secret \<Rightarrow> 's \<Rightarrow> (unit, 's) outcome"
    and stop :: "'s \<Rightarrow> (unit, 's) outcome"
  assumes add_spec: "inv s \<Longrightarrow> 0 < sec_RefreshInterval x \<Longrightarrow>
      \<exists>s'. add c x s = Ok s' \<and> inv s' \<and> secrets s' = (secrets s)(sec_Name x \<mapsto> (c, x)) \<and> ended s' = ended s"
    and stop_spec: "inv s \<Longrightarrow> \<not> ended s \<Longrightarrow> \<exists>s'. stop s = Ok s' \<and> inv s' \<and> secrets s' = Map.empty \<and> ended s'"
begin

lemma add_all:
  assumes "inv s" and "\<forall>x \<in> set xs. 0 < sec_RefreshInterval x"
  shows "\<exists>s'. each (add c) xs s = Ok s' \<and> inv s' \<and> secrets s' = secrets s ++ by_name c xs \<and> ended s' = ended s"
  using assms
proof (induction xs arbitrary: s)
  case Nil
  then show ?case by (simp add: by_name_def)
next
  case (Cons x xs)
  from add_spec [OF Cons.prems(1), of x c] Cons.prems(2) obtain s1 where s1: "add c x s = Ok s1" "inv s1"
    "secrets s1 = (secrets s)(sec_Name x \<mapsto> (c, x))" "ended s1 = ended s" by auto
  from Cons.IH [OF s1(2)] Cons.prems(2) obtain s' where
    "each (add c) xs s1 = Ok s'" "inv s'" "secrets s' = secrets s1 ++ by_name c xs" "ended s' = ended s1" by auto
  with s1 show ?case by (auto simp: by_name_def map_add_def split: option.split)
qed

end

interpretation registry: secret_registry sched_inv active sd_stopCh AddSecret Stop
proof
  fix s x c
  assume "sched_inv s" "0 < sec_RefreshInterval (x :: Secret)"
  from AddSecret_ok [OF this] show "\<exists>s'. AddSecret c x s = Ok s' \<and> sched_inv s' \<and>
      active s' = (active s)(sec_Name x \<mapsto> (c, x)) \<and> sd_stopCh s' = sd_stopCh s" by blast
next
  fix s
  assume "sched_inv s" "\<not> sd_stopCh s"
  from Stop_ok [OF this] show "\<exists>s'. Stop s = Ok s' \<and> sched_inv s' \<and> active s' = Map.empty \<and> sd_stopCh s'" by blast
qed

lemma NewScheduler_inv [simp]: "sched_inv NewScheduler"
  by (simp add: NewScheduler_def sched_inv_def table_inv_def parts_ok_def go_map_def)

lemma NewScheduler_simps [simp]: "active NewScheduler = Map.empty" "\<not> sd_stopCh NewScheduler"
  by (simp_all add: NewScheduler_def active_def [abs_def])

section \<open>Refinement of the map of active secrets\<close>

fun spec_step :: "sched_event \<Rightarrow> (string \<rightharpoonup> Config \<times> Secret) \<Rightarrow> string \<rightharpoonup> Config \<times> Secret" where
  "spec_step (Added cfg x) m = m(sec_Name x \<mapsto> (cfg, x))"
| "spec_step (Removed nm) m = m(nm := None)"
| "spec_step Stopped m = Map.empty"
| "spec_step _ m = m"

lemma AddSecret_pos: "AddSecret cfg x s = Ok s' \<Longrightarrow> 0 < sec_RefreshInterval x"
  by (auto simp: AddSecret_def split: if_splits)

lemma Stop_Ok: "Stop s = Ok s' \<Longrightarrow> \<not> sd_stopCh s"
  by (auto simp: Stop_def split: if_splits)

lemma sched_step_spec:
  assumes "sched_inv s" and "sched_step env e (s, sy) = Ok (s', sy')"
  shows "sched_inv s' \<and> active s' = spec_step e (active s) \<and> sd_stopCh s' = (sd_stopCh s \<or> e = Stopped)"
proof (cases e)
  case (Added cfg x)
  with assms(2) have a: "AddSecret cfg x s = Ok s'" by auto
  with AddSecret_ok [OF assms(1) AddSecret_pos [OF a], of cfg] Added show ?thesis by auto
next
  case (Removed nm)
  with assms(2) RemoveSecret_ok [OF assms(1), of nm] show ?thesis by auto
next
  case Stopped
  with assms(2) have a: "Stop s = Ok s'" by auto
  with Stop_ok [OF assms(1) Stop_Ok [OF a]] Stopped show ?thesis by auto
next
  case (TickerFires i)
  with assms(2) have s': "s' = ticker_fires i s" by simp
  note t = ticker_fires_facts [of s i]
  have "parts_ok s" using assms(1) by (simp add: sched_inv_def)
  then have "sched_inv s'" using same_jobs_inv [OF t(1) assms(1) t(2)] s' by simp
  then show ?thesis using t(1) same_jobs_active [OF t(1) assms(1)] TickerFires s' by (simp add: same_jobs_def)
next
  case (JobRuns i c now)
  with assms(2) have "runJob env now c i (s, sy) = Ok (s', sy')" by simp
  then show ?thesis
  proof (cases rule: runJob_step)
    case (1 u v)
    then have u: "same_jobs s s'" "parts_ok s \<Longrightarrow> parts_ok s'" by simp_all
    have "parts_ok s" using assms(1) by (simp add: sched_inv_def)
    then have "sched_inv s'" using same_jobs_inv [OF u(1) assms(1)] u(2) by simp
    then show ?thesis using u(1) same_jobs_active [OF u(1) assms(1)] JobRuns by (simp add: same_jobs_def)
  qed
next
  case ResultTaken
  with assms show ?thesis by (auto simp: sched_inv_def parts_ok_def active_def [abs_def])
qed

lemma sched_run_spec:
  assumes "sched_inv s" and "sched_run env evs (s, sy) = Ok (s', sy')"
  shows "sched_inv s' \<and> active s' = fold spec_step evs (active s) \<and> sd_stopCh s' = (sd_stopCh s \<or> Stopped \<in> set evs)"
  using assms
proof (induction evs arbitrary: s sy)
  case Nil
  then show ?case by (simp add: sched_run_def)
next
  case (Cons e evs)
  from Cons.prems(2) obtain s1 sy1 where st: "sched_step env e (s, sy) = Ok (s1, sy1)" "sched_run env evs (s1, sy1) = Ok (s', sy')"
    by (auto simp: sched_run_def)
  note a = sched_step_spec [OF Cons.prems(1) st(1)]
  with Cons.IH [OF _ st(2)] show ?case by auto
qed

text \<open>
  The goroutines for a name that have not returned and whose stop channel is open, with the configuration and the secret
  they work on.  A goroutine that is not among them has returned, or has been told to stop.
\<close>

definition goroutines_for :: "string \<Rightarrow> scheduler \<Rightarrow> (Config \<times> Secret) list" where
  "goroutines_for nm s =
     map (\<lambda>j. (j_cfg j, j_secret j))
       (filter (\<lambda>j. j_phase j \<noteq> Returned \<and> \<not> j_stopCh j \<and> sec_Name (j_secret j) = nm) (sd_heap s))"

lemma filter_unique:
  assumes "i < length xs" and "\<And>k. k < length xs \<Longrightarrow> P (xs ! k) \<longleftrightarrow> k = i"
  shows "filter P xs = [xs ! i]"
proof -
  have "filter P (take i xs) = []" "filter P (drop (Suc i) xs) = []" "P (xs ! i)"
    using assms by (auto simp: filter_empty_conv in_set_conv_nth)
  then show ?thesis by (subst id_take_nth_drop [OF assms(1)]) simp
qed

lemma open_jobs_active:
  assumes "sched_inv s"
  shows "map (\<lambda>j. (j_cfg j, j_secret j)) (filter (\<lambda>j. \<not> j_stopCh j \<and> sec_Name (j_secret j) = nm) (sd_heap s)) =
    (case active s nm of None \<Rightarrow> [] | Some v \<Rightarrow> [v])"
proof -
  let ?P = "\<lambda>j. \<not> j_stopCh j \<and> sec_Name (j_secret j) = nm"
  have t: "map_of (sd_jobs s) nm = Some k \<longleftrightarrow> k < length (sd_heap s) \<and> ?P (sd_heap s ! k)" for k
    using assms unfolding sched_inv_def table_inv_def by blast
  show ?thesis
  proof (cases "map_of (sd_jobs s) nm")
    case None
    with t have "\<not> ?P (sd_heap s ! k)" if "k < length (sd_heap s)" for k using that by auto
    then have "filter ?P (sd_heap s) = []" unfolding filter_empty_conv all_set_conv_all_nth by (intro allI impI)
    with None show ?thesis by (simp add: active_def)
  next
    case (Some i)
    then have i: "i < length (sd_heap s)" using t [of i] by simp
    have "?P (sd_heap s ! k) \<longleftrightarrow> k = i" if "k < length (sd_heap s)" for k
      using t [of k] Some that by auto
    with i have "filter ?P (sd_heap s) = [sd_heap s ! i]" by (rule filter_unique)
    with Some show ?thesis by (simp add: active_def)
  qed
qed


lemma goroutines_running:
  assumes "sched_inv s" and "\<not> sd_stopCh s"
  shows "goroutines_for nm s = (case active s nm of None \<Rightarrow> [] | Some v \<Rightarrow> [v])"
proof -
  have "j_phase j \<noteq> Returned" if "j \<in> set (sd_heap s)" "\<not> j_stopCh j" for j
    using that assms by (auto simp: sched_inv_def parts_ok_def)
  then have "goroutines_for nm s =
      map (\<lambda>j. (j_cfg j, j_secret j)) (filter (\<lambda>j. \<not> j_stopCh j \<and> sec_Name (j_secret j) = nm) (sd_heap s))"
    unfolding goroutines_for_def by (intro arg_cong [where f = "map _"] filter_cong) auto
  with open_jobs_active [OF assms(1)] show ?thesis by simp
qed

text \<open>After \<open>Stop\<close>, a goroutine that was started later may have seen the closed channel of the scheduler, and returned.\<close>

lemma goroutines_cases:
  assumes "sched_inv s"
  shows "goroutines_for nm s = (case active s nm of None \<Rightarrow> [] | Some v \<Rightarrow> [v]) \<or> sd_stopCh s \<and> goroutines_for nm s = []"
proof (cases "sd_stopCh s")
  case True
  let ?open = "filter (\<lambda>j. \<not> j_stopCh j \<and> sec_Name (j_secret j) = nm) (sd_heap s)"
  have g: "goroutines_for nm s = map (\<lambda>j. (j_cfg j, j_secret j)) (filter (\<lambda>j. j_phase j \<noteq> Returned) ?open)"
    unfolding goroutines_for_def filter_filter by (intro arg_cong [where f = "map _"] filter_cong) auto
  have "?open = [] \<or> (\<exists>j. ?open = [j])"
    using open_jobs_active [OF assms, of nm] by (auto split: option.splits)
  then show ?thesis
  proof
    assume "\<exists>j. ?open = [j]"
    then obtain j where j: "?open = [j]" by blast
    with g open_jobs_active [OF assms, of nm] True show ?thesis by (cases "j_phase j = Returned") auto
  qed (use g open_jobs_active [OF assms, of nm] in simp)
qed (use goroutines_running [OF assms] in simp)

lemma goroutines_active:
  assumes "sched_inv s" and "sd_stopCh s \<Longrightarrow> active s = Map.empty"
  shows "goroutines_for nm s = (case active s nm of None \<Rightarrow> [] | Some v \<Rightarrow> [v])"
  using goroutines_cases [OF assms(1), of nm] assms(2) by auto

text \<open>
  C2: the scheduler implements a map of secrets.  Whatever the interleaving of additions, removals, stops, ticks,
  synchronisations and receives, the table holds exactly what the additions and removals alone determine.  For each name
  there is exactly one goroutine that has not returned and has an open stop channel if the name is in that map, working on
  the entry added last, and none otherwise; only after \<open>Stop\<close> may the goroutine of a secret that was added still later be
  missing.  Every job with a closed stop channel has a stopped ticker and no tick waiting, so a goroutine of it that has
  not returned can complete the synchronisation it is in and start no other.
\<close>

theorem scheduler_refines:
  assumes "sched_run env evs (NewScheduler, sy) = Ok (s, sy')"
  shows "active s = fold spec_step evs Map.empty \<and>
         (goroutines_for nm s = (case fold spec_step evs Map.empty nm of None \<Rightarrow> [] | Some v \<Rightarrow> [v]) \<or>
            Stopped \<in> set evs \<and> goroutines_for nm s = []) \<and>
         (\<forall>j \<in> set (sd_heap s). j_stopCh j \<longrightarrow> \<not> j_ticking j \<and> \<not> j_tick j)"
proof -
  note r = sched_run_spec [OF NewScheduler_inv assms]
  with goroutines_cases [of s nm] have "goroutines_for nm s = (case fold spec_step evs Map.empty nm of None \<Rightarrow> [] | Some v \<Rightarrow> [v]) \<or>
      Stopped \<in> set evs \<and> goroutines_for nm s = []" by auto
  moreover have "\<forall>j \<in> set (sd_heap s). j_stopCh j \<longrightarrow> \<not> j_ticking j \<and> \<not> j_tick j"
    using r by (auto simp: sched_inv_def parts_ok_def job_ok_def)
  ultimately show ?thesis using r by simp
qed

text \<open>What adding a secret and stopping do to the heap.\<close>

lemma AddSecret_heap:
  assumes "AddSecret cfg x s = Ok s'"
  obtains s1 where "s1 = s \<or> (\<exists>i. stop_job i s = Ok s1)" and "sd_heap s' = sd_heap s1 @ [new_job cfg x]"
proof -
  let ?v = "case map_of (sd_jobs s) (sec_Name x) of Some j \<Rightarrow> stop_job j s | None \<Rightarrow> Ok s"
  from assms obtain s1 where "?v = Ok s1" "sd_heap s' = sd_heap s1 @ [new_job cfg x]"
    by (cases ?v) (auto simp: AddSecret_def split: if_split_asm)
  with that show thesis by (auto split: option.split_asm)
qed

lemma Stop_heap:
  assumes "Stop s = Ok s'" and "P s" and "\<And>s s' i. P s \<Longrightarrow> stop_job i s = Ok s' \<Longrightarrow> P s'"
    and "\<And>s s'. P s \<Longrightarrow> sd_heap s' = sd_heap s \<Longrightarrow> P s'"
  shows "P s'"
proof -
  from assms(1) obtain v where v: "each stop_job (map snd (sd_jobs s)) (s\<lparr>sd_stopCh := True\<rparr>) = Ok v" "s' = v\<lparr>sd_jobs := []\<rparr>"
    by (auto simp: Stop_def split: if_splits)
  have "P (s\<lparr>sd_stopCh := True\<rparr>)" by (rule assms(4) [OF assms(2)]) simp
  with v(1) have "P v" by (rule each_keeps) (rule assms(3))
  then show ?thesis by (rule assms(4)) (simp add: v(2))
qed

text \<open>Closing a stop channel waits for nobody: each goroutine is where it was.\<close>

definition phases :: "scheduler \<Rightarrow> job_phase list" where
  "phases s = map j_phase (sd_heap s)"

lemma stop_job_phases: "stop_job i s = Ok s' \<Longrightarrow> phases s' = phases s"
  by (auto simp: stop_job_def' phases_def intro!: nth_equalityI split: if_split_asm)

lemma Stop_phases: "Stop s = Ok s' \<Longrightarrow> phases s' = phases s"
  by (erule Stop_heap [where P = "\<lambda>v. phases v = phases s"]) (simp_all add: stop_job_phases, simp add: phases_def)

text \<open>A job that was told to stop: its channel is closed, its ticker is stopped and no tick waits.\<close>

definition told_to_stop :: "scheduler \<Rightarrow> bool" where
  "told_to_stop s \<longleftrightarrow> sd_stopCh s \<and> (\<forall>j \<in> set (sd_heap s). j_stopCh j \<and> \<not> j_ticking j \<and> \<not> j_tick j)"

lemma inactive_jobs:
  assumes "sched_inv s" and "active s = Map.empty" and "j \<in> set (sd_heap s)"
  shows "j_stopCh j \<and> \<not> j_tick j \<and> \<not> j_ticking j"
proof -
  have "filter (\<lambda>k. \<not> j_stopCh k \<and> sec_Name (j_secret k) = sec_Name (j_secret j)) (sd_heap s) = []"
    using open_jobs_active [OF assms(1), of "sec_Name (j_secret j)"] assms(2) by simp
  then have "j_stopCh j" using assms(3) by (auto simp: filter_empty_conv)
  then show ?thesis using assms(1,3) by (auto simp: sched_inv_def parts_ok_def job_ok_def)
qed

lemma told_to_stopI: "sched_inv s \<Longrightarrow> sd_stopCh s \<Longrightarrow> active s = Map.empty \<Longrightarrow> told_to_stop s"
  using inactive_jobs [of s] by (auto simp: told_to_stop_def)

section \<open>Panics and bounds\<close>

lemma sched_step_Panic:
  assumes "sched_inv s" and "sched_step env e (s, sy) = Panic p"
  shows "p = NonPositiveTicker \<and> (\<exists>cfg x. e = Added cfg x \<and> sec_RefreshInterval x \<le> 0) \<or>
         p = CloseOfClosedChannel \<and> e = Stopped \<and> sd_stopCh s"
proof (cases e)
  case (Added cfg x)
  show ?thesis
  proof (cases "0 < sec_RefreshInterval x")
    case True
    with assms Added AddSecret_ok [OF assms(1) True, of cfg] show ?thesis by auto
  next
    case False
    from assms(2) Added have "AddSecret cfg x s = Panic p" by (auto simp: and_then_Panic)
    with stop_entry(1) [OF assms(1)] have "p = NonPositiveTicker"
      using False by (auto simp: AddSecret_def and_then_Panic split: option.splits)
    with False Added show ?thesis by auto
  qed
next
  case (Removed nm)
  with assms(2) RemoveSecret_ok [OF assms(1), of nm] show ?thesis by auto
next
  case Stopped
  with assms have a: "Stop s = Panic p" by (auto simp: and_then_Panic)
  with Stop_ok [OF assms(1)] have "sd_stopCh s" by fastforce
  with a Stopped show ?thesis by (auto simp: Stop_def)
next
  case (JobRuns i c now)
  with assms(2) have "runJob env now c i (s, sy) = Panic p" by simp
  then show ?thesis by (cases rule: runJob_step) simp
qed (use assms(2) in auto)

lemma stop_job_no_Err: "stop_job i s \<noteq> Err u"
  by (simp add: stop_job_def)

lemma runJob_no_Err: "runJob env now c i (s, sy) \<noteq> Err u"
  by (rule runJob_step [of env now c i s sy]) auto

lemma sched_step_no_Err: "sched_step env e st \<noteq> Err u"
proof -
  obtain s sy where st: "st = (s, sy)" by (cases st)
  show ?thesis
    unfolding st
    by (cases e) (simp_all add: runJob_no_Err and_then_Err AddSecret_def RemoveSecret_def Stop_def stop_job_no_Err
        each_no_Err [OF stop_job_no_Err] split: option.split)
qed

lemma sched_run_Panic:
  assumes "sched_inv s" and "sched_run env evs (s, sy) = Panic p"
  shows "p = NonPositiveTicker \<and> (\<exists>cfg x. Added cfg x \<in> set evs \<and> sec_RefreshInterval x \<le> 0) \<or>
         p = CloseOfClosedChannel \<and> 2 \<le> count_list evs Stopped + of_bool (sd_stopCh s)"
  using assms
proof (induction evs arbitrary: s sy)
  case Nil
  then show ?case by (simp add: sched_run_def)
next
  case (Cons e evs)
  from Cons.prems(2) consider (now) "sched_step env e (s, sy) = Panic p"
    | (later) s1 sy1 where "sched_step env e (s, sy) = Ok (s1, sy1)" "sched_run env evs (s1, sy1) = Panic p"
    by (auto simp: sched_run_def and_then_Panic)
  then show ?case
  proof cases
    case now
    from sched_step_Panic [OF Cons.prems(1) now] show ?thesis by auto
  next
    case later
    note a = sched_step_spec [OF Cons.prems(1) later(1)]
    from Cons.IH [OF _ later(2)] a have "p = NonPositiveTicker \<and> (\<exists>cfg x. Added cfg x \<in> set evs \<and> sec_RefreshInterval x \<le> 0) \<or>
         p = CloseOfClosedChannel \<and> 2 \<le> count_list evs Stopped + of_bool (sd_stopCh s \<or> e = Stopped)" by simp
    then show ?thesis by (auto simp: of_bool_def split: if_splits)
  qed
qed

lemma sched_run_no_Err: "sched_run env evs st \<noteq> Err u"
  unfolding sched_run_def by (rule each_no_Err) (rule sched_step_no_Err)

text \<open>
  C40: the only panics are the two that the callers must exclude.  A scheduler's life ends in a panic only if a secret
  with an interval that is not positive was added, or \<open>Stop\<close> was called twice; otherwise at most 100 results wait, and
  no ticker of a closed job runs or has a tick waiting.
\<close>

theorem scheduler_safe:
  "case sched_run env evs (NewScheduler, sy) of
     Ok (s, _) \<Rightarrow> length (sd_results s) \<le> 100 \<and> {j \<in> set (sd_heap s). j_stopCh j \<and> (j_ticking j \<or> j_tick j)} = {}
   | Err _ \<Rightarrow> False
   | Panic p \<Rightarrow>
       p = NonPositiveTicker \<and> (\<exists>cfg x. Added cfg x \<in> set evs \<and> sec_RefreshInterval x \<le> 0) \<or>
       p = CloseOfClosedChannel \<and> 2 \<le> count_list evs Stopped"
proof (cases "sched_run env evs (NewScheduler, sy)")
  case (Ok st)
  obtain s sy' where st: "st = (s, sy')" by (cases st)
  from sched_run_spec [OF NewScheduler_inv Ok [unfolded st]] have "parts_ok s" by (simp add: sched_inv_def)
  with Ok st show ?thesis by (auto simp: parts_ok_def job_ok_def results_cap_def)
next
  case (Err u)
  then show ?thesis by (simp add: sched_run_no_Err)
next
  case (Panic p)
  from sched_run_Panic [OF NewScheduler_inv Panic] Panic show ?thesis by auto
qed

section \<open>A closed job ends\<close>

fun rank :: "job_phase \<Rightarrow> nat" where
  "rank Syncing = 2"
| "rank Selecting = 1"
| "rank Returned = 0"

text \<open>The other operations let the existing jobs be where they are, and no closed channel opens again.\<close>

definition later :: "scheduler \<Rightarrow> scheduler \<Rightarrow> bool" where
  "later s s' \<longleftrightarrow> length (sd_heap s) \<le> length (sd_heap s') \<and>
     (\<forall>k < length (sd_heap s). j_phase (sd_heap s' ! k) = j_phase (sd_heap s ! k) \<and>
        (j_stopCh (sd_heap s ! k) \<longrightarrow> j_stopCh (sd_heap s' ! k)))"

lemma later_refl [simp]: "later s s"
  by (simp add: later_def)

lemma later_results: "later s (s\<lparr>sd_results := rs\<rparr>)"
  by (simp add: later_def)

lemma later_trans: "later s s' \<Longrightarrow> later s' s'' \<Longrightarrow> later s s''"
  by (simp add: later_def)

lemma later_stop_job: "stop_job i s = Ok s' \<Longrightarrow> later s s'"
  by (auto simp: stop_job_def' later_def split: if_splits)

lemma AddSecret_later:
  assumes "AddSecret cfg x s = Ok s'"
  shows "later s s'"
proof -
  from assms obtain s1 where s1: "later s s1" and s': "sd_heap s' = sd_heap s1 @ [new_job cfg x]"
  proof (cases "map_of (sd_jobs s) (sec_Name x)")
    case None
    with assms show thesis by (intro that [of s]) (auto simp: AddSecret_def split: if_splits)
  next
    case (Some i)
    with assms obtain s1 where "stop_job i s = Ok s1" "sd_heap s' = sd_heap s1 @ [new_job cfg x]"
      by (auto simp: AddSecret_def split: if_splits)
    then show thesis by (intro that [of s1] later_stop_job)
  qed
  have "later s1 s'" by (simp add: later_def s' nth_append)
  with s1 show ?thesis by (rule later_trans)
qed

lemma RemoveSecret_later: "RemoveSecret nm s = Ok s' \<Longrightarrow> later s s'"
  by (auto simp: RemoveSecret_def later_def dest!: later_stop_job split: option.splits)

lemma Stop_later:
  assumes "Stop s = Ok s'"
  shows "later s s'"
proof -
  from assms obtain s1 where "each stop_job (map snd (sd_jobs s)) (s\<lparr>sd_stopCh := True\<rparr>) = Ok s1" "s' = s1\<lparr>sd_jobs := []\<rparr>"
    by (auto simp: Stop_def split: if_splits)
  moreover from this have "later s s1"
    by (elim each_keeps) (auto dest: later_stop_job intro: later_trans simp: later_def)
  ultimately show ?thesis by (simp add: later_def)
qed

lemma ticker_fires_later: "later s (ticker_fires i s)"
  by (simp add: ticker_fires_def later_def)

lemma syncAndReport_heap:
  "syncAndReport env now i (s, sy) = Ok (s', sy') \<Longrightarrow> length (sd_heap s') = length (sd_heap s) \<and>
   (\<forall>k < length (sd_heap s). j_phase (sd_heap s' ! k) = j_phase (sd_heap s ! k) \<and> j_stopCh (sd_heap s' ! k) = j_stopCh (sd_heap s ! k))"
  by (elim syncAndReport_cases) auto

lemma runJob_heap:
  assumes "runJob env now c i (s, sy) = Ok (s', sy')"
  shows "length (sd_heap s') = length (sd_heap s)"
    and "k < length (sd_heap s) \<Longrightarrow> j_stopCh (sd_heap s' ! k) = j_stopCh (sd_heap s ! k)"
    and "k < length (sd_heap s) \<Longrightarrow> k \<noteq> i \<Longrightarrow> j_phase (sd_heap s' ! k) = j_phase (sd_heap s ! k)"
    and "i < length (sd_heap s) \<Longrightarrow> \<not> j_tick (sd_heap s ! i) \<Longrightarrow> rank (j_phase (sd_heap s' ! i)) \<le>
           rank (j_phase (sd_heap s ! i)) - of_bool (c = JobStopC \<and> j_stopCh (sd_heap s ! i))"
  using assms
  by (auto simp: runJob_def set_phase_def split: if_splits job_phase.splits dest!: syncAndReport_heap; cases c; auto)+


definition stop_turn :: "nat \<Rightarrow> sched_event \<Rightarrow> bool" where
  "stop_turn i e = (case e of JobRuns k c now \<Rightarrow> k = i \<and> c = JobStopC | _ \<Rightarrow> False)"

lemma closed_no_tick: "sched_inv s \<Longrightarrow> i < length (sd_heap s) \<Longrightarrow> j_stopCh (sd_heap s ! i) \<Longrightarrow> \<not> j_tick (sd_heap s ! i)"
  by (auto simp: sched_inv_def parts_ok_nth job_ok_def)

lemma closed_step:
  assumes "sched_inv s" and "i < length (sd_heap s)" and "j_stopCh (sd_heap s ! i)" and "sched_step env e (s, sy) = Ok (s', sy')"
  shows "i < length (sd_heap s') \<and> j_stopCh (sd_heap s' ! i) \<and>
         rank (j_phase (sd_heap s' ! i)) \<le> rank (j_phase (sd_heap s ! i)) - of_bool (stop_turn i e)"
proof (cases "\<exists>k c now. e = JobRuns k c now")
  case True
  then obtain k c now where e: "e = JobRuns k c now" by blast
  with assms(4) have r: "runJob env now c k (s, sy) = Ok (s', sy')" by simp
  note h = runJob_heap [OF r]
  show ?thesis
  proof (cases "k = i")
    case True
    with h assms closed_no_tick [OF assms(1-3)] e show ?thesis by (simp add: stop_turn_def)
  next
    case False
    with h(1) h(2) [OF assms(2)] h(3) [OF assms(2)] assms e show ?thesis by (simp add: stop_turn_def)
  qed
next
  case False
  with assms(4) have "later s s'"
    by (cases e) (auto dest: AddSecret_later RemoveSecret_later Stop_later simp: ticker_fires_later later_results)
  moreover have "\<not> stop_turn i e" using False by (cases e) (auto simp: stop_turn_def)
  ultimately show ?thesis using assms(2,3) by (simp add: later_def)
qed

lemma closed_run:
  assumes "sched_inv s" and "i < length (sd_heap s)" and "j_stopCh (sd_heap s ! i)" and "sched_run env evs (s, sy) = Ok (s', sy')"
  shows "i < length (sd_heap s') \<and> j_stopCh (sd_heap s' ! i) \<and>
         rank (j_phase (sd_heap s' ! i)) \<le> rank (j_phase (sd_heap s ! i)) - length (filter (stop_turn i) evs)"
  using assms
proof (induction evs arbitrary: s sy)
  case Nil
  then show ?case by (simp add: sched_run_def)
next
  case (Cons e evs)
  from Cons.prems(4) obtain s1 sy1 where st: "sched_step env e (s, sy) = Ok (s1, sy1)" "sched_run env evs (s1, sy1) = Ok (s', sy')"
    by (auto simp: sched_run_def)
  from closed_step [OF Cons.prems(1-3) st(1)] sched_step_spec [OF Cons.prems(1) st(1)] Cons.IH [OF _ _ _ st(2)] show ?case by (auto split: if_splits)
qed

text \<open>
  C27: a job whose stop channel is closed ends, and works no more.  Whether \<open>Stop\<close>, \<open>RemoveSecret\<close> or a replacement
  closed it: once its goroutine has had two turns in which it saw the closed channel, it has returned, whatever else
  happened; and unless it was in a synchronisation at that time, no later step of it synchronises or reports anything.
\<close>

theorem closed_job_ends:
  assumes "sched_run env evs (NewScheduler, sy0) = Ok (s, sy)" and "i < length (sd_heap s)" and "j_stopCh (sd_heap s ! i)"
    and "sched_run env evs' (s, sy) = Ok (s', sy')"
  shows "(2 \<le> length (filter (stop_turn i) evs') \<longrightarrow> j_phase (sd_heap s' ! i) = Returned) \<and>
         (j_phase (sd_heap s ! i) \<noteq> Syncing \<longrightarrow>
            (\<forall>c now. \<exists>s''. sched_step env (JobRuns i c now) (s', sy') = Ok (s'', sy') \<and> sd_results s'' = sd_results s'))"
proof -
  have inv: "sched_inv s" using sched_run_spec [OF NewScheduler_inv assms(1)] by blast
  note c = closed_run [OF inv assms(2,3,4)]
  have r: "rank ph = 0 \<longleftrightarrow> ph = Returned" "rank ph \<le> 2" "rank ph \<le> 1 \<longleftrightarrow> ph \<noteq> Syncing" for ph
    by (cases ph; simp)+
  have "sched_inv s'"
    using sched_run_spec [OF NewScheduler_inv assms(1)] sched_run_spec [OF _ assms(4)] by blast
  then have ok: "\<not> j_tick (sd_heap s' ! i)" using c by (auto simp: sched_inv_def parts_ok_def job_ok_def)
  have "j_phase (sd_heap s' ! i) = Returned" if "2 \<le> length (filter (stop_turn i) evs')"
  proof -
    have "rank (j_phase (sd_heap s' ! i)) = 0" using c r(2) [of "j_phase (sd_heap s ! i)"] that by linarith
    then show ?thesis by (simp add: r)
  qed
  moreover have "\<exists>s''. sched_step env (JobRuns i ca now) (s', sy') = Ok (s'', sy') \<and> sd_results s'' = sd_results s'"
    if "j_phase (sd_heap s ! i) \<noteq> Syncing" for ca now
  proof -
    have "rank (j_phase (sd_heap s ! i)) \<le> 1" using that r(3) by blast
    with c have "rank (j_phase (sd_heap s' ! i)) \<le> 1" by linarith
    then have "j_phase (sd_heap s' ! i) \<noteq> Syncing" using r(3) by blast
    with c ok show ?thesis
      by (cases "j_phase (sd_heap s' ! i)"; cases ca) (simp_all add: runJob_def set_phase_def)
  qed
  ultimately show ?thesis by blast
qed


section \<open>A concrete life of a job\<close>

text \<open>The job for \<^const>\<open>app_secret\<close> is added, synchronises once, and is removed; then it sees its closed channel.\<close>

definition sample_life :: "sched_event list" where
  "sample_life = [Added (sample_config []) app_secret, JobRuns 0 TickC 5, Removed ''app'']"

lemma app_secret_simps: "sec_Name app_secret = ''app''" "0 < sec_RefreshInterval app_secret"
  by (simp_all add: app_secret_def Second_def)

lemma sample_life_run:
  obtains s st where "sched_run sample_env sample_life (NewScheduler, sample_state) = Ok (s, st)"
    and "sd_jobs s = []" and "\<exists>j. sd_heap s = [j] \<and> j_stopCh j \<and> j_phase j = Selecting"
    and "map sr_Success (sd_results s) = [True]"
proof -
  obtain st where st: "SyncSecret sample_env (\<lambda>_. False) (sample_config []) app_secret sample_state = (Ok (), st)"
    by (rule app_result)
  show thesis
    using app_secret_simps
    by (intro that, (simp add: sched_run_def sample_life_def AddSecret_def NewScheduler_def new_job_def runJob_def
        syncAndReport_def st Let_def report_def results_cap_def update_job_def set_phase_def RemoveSecret_def stop_job_def)) simp_all
qed

theorem scheduler_refines_witness:
  "\<exists>s1 st1 s st. sched_run sample_env (take 2 sample_life) (NewScheduler, sample_state) = Ok (s1, st1) \<and>
     goroutines_for ''app'' s1 = [(sample_config [], app_secret)] \<and>
     sched_run sample_env sample_life (NewScheduler, sample_state) = Ok (s, st) \<and>
     active s = Map.empty \<and> goroutines_for ''app'' s = []"
proof -
  obtain s st where r: "sched_run sample_env sample_life (NewScheduler, sample_state) = Ok (s, st)"
    by (rule sample_life_run)
  have "sample_life = take 2 sample_life @ drop 2 sample_life" by simp
  with r obtain s1 st1 where r1: "sched_run sample_env (take 2 sample_life) (NewScheduler, sample_state) = Ok (s1, st1)"
    unfolding sched_run_def by (metis (no_types, lifting) each_append and_then_Ok surj_pair)
  from scheduler_refines [OF r1, of "''app''"] scheduler_refines [OF r, of "''app''"] r r1 show ?thesis
    by (auto simp: sample_life_def app_secret_simps)
qed

theorem closed_job_ends_witness:
  "\<exists>s st s' st'. sched_run sample_env sample_life (NewScheduler, sample_state) = Ok (s, st) \<and>
     sched_run sample_env [JobRuns 0 JobStopC 6, JobRuns 0 JobStopC 7] (s, st) = Ok (s', st') \<and>
     j_phase (sd_heap s' ! 0) = Returned"
proof -
  obtain s st j where r: "sched_run sample_env sample_life (NewScheduler, sample_state) = Ok (s, st)"
    and j: "sd_heap s = [j]" "j_stopCh j" "j_phase j = Selecting"
    using sample_life_run by metis
  then obtain s' where r': "sched_run sample_env [JobRuns 0 JobStopC 6, JobRuns 0 JobStopC 7] (s, st) = Ok (s', st)"
    by (simp add: sched_run_def runJob_def set_phase_def update_job_def)
  have "j_phase (sd_heap s' ! 0) = Returned"
    using closed_job_ends [OF r _ _ r', of 0] j by (simp add: stop_turn_def)
  with r r' show ?thesis by blast
qed

end
