(* ===== verification/Convert.thy ===== *)
theory Convert
  imports Go_Path Go_Numbers
begin

text \<open>
  \<open>cmd/secrets-sync/convert.go\<close>: the \<open>convert\<close> command, which prints a configuration made from the manifests of another
  tool.  Its output is the list of the lines it prints, with the stream each goes to.  The YAML library, the shell
  commands, the files and standard input are the record \<open>convert_env\<close>; a shell command changes the outside world
  \<open>'w\<close>.  A Go map is visited in an order of its own by every loop over it.
\<close>

section \<open>The input\<close>

record RemoteData =
  rd_SecretKey :: string
  rd_Key :: string
  rd_Property :: string

record ExternalSecret =
  es_APIVersion :: string
  es_Kind :: string
  es_Name :: string
  es_RefreshInterval :: string
  es_StoreKind :: string
  es_StoreName :: string
  es_TargetName :: string
  es_TemplateData :: "(string \<times> string) list"
  es_Data :: "RemoteData list"
  es_DataFrom :: "string list"

record ConvertConfig =
  cc_MountPath :: string
  cc_KVVersion :: string
  cc_OutputDir :: string
  cc_AutoDetectMount :: bool
  cc_QueryVault :: bool
  cc_VaultAddr :: string
  cc_VaultToken :: string
  cc_VaultRoleID :: string
  cc_VaultSecretID :: string

datatype line = Out string | Warn string

type_synonym 'w conv = "'w \<times> line list"

text \<open>
  \<open>ce_list\<close> is the decoding of the whole input as a list (kind and items, each item decoded or an error); \<open>ce_docs\<close> gives
  the results of successive calls of a decoder on it.
\<close>

record 'w convert_env =
  ce_getenv :: "string \<Rightarrow> string"
  ce_stdin :: "string + string"
  ce_read :: "string \<Rightarrow> string + string"
  ce_sh :: "string \<Rightarrow> (string \<times> string) list \<Rightarrow> 'w \<Rightarrow> (string + string) \<times> 'w"
  ce_list :: "string \<Rightarrow> string + string \<times> (string + ExternalSecret) list"
  ce_docs :: "string \<Rightarrow> nat \<Rightarrow> string + ExternalSecret"
  ce_range1 :: "(string \<times> string) list \<Rightarrow> (string \<times> string) list"
  ce_range2 :: "(string \<times> string) list \<Rightarrow> (string \<times> string) list"

definition print :: "line list \<Rightarrow> 'w conv \<Rightarrow> 'w conv" where
  "print ls st = (fst st, snd st @ ls)"

section \<open>Text\<close>

text \<open>
  \<open>%q\<close>: \<open>strconv.Quote\<close>.  Bytes from 0x80 on are kept, which is what it does for printable UTF-8 text.
\<close>

definition hex_digit :: "nat \<Rightarrow> char" where
  "hex_digit n = (if n < 10 then char_of (48 + n) else char_of (87 + n))"

definition quote_char :: "char \<Rightarrow> string" where
  "quote_char c =
     (let n = char_code c; bs = CHR 0x5C in
      if n = 0x22 then [bs, CHR 0x22] else if n = 0x5C then [bs, bs]
      else if n = 7 then [bs, CHR ''a''] else if n = 8 then [bs, CHR ''b''] else if n = 9 then [bs, CHR ''t'']
      else if n = 10 then [bs, CHR ''n''] else if n = 11 then [bs, CHR ''v''] else if n = 12 then [bs, CHR ''f'']
      else if n = 13 then [bs, CHR ''r'']
      else if n < 32 \<or> n = 127 then [bs, CHR ''x'', hex_digit (n div 16), hex_digit (n mod 16)]
      else [c])"

definition go_quote :: "string \<Rightarrow> string" where
  "go_quote s = [CHR 0x22] @ concat (map quote_char s) @ [CHR 0x22]"

text \<open>\<open>strings.TrimSpace\<close> on ASCII text.\<close>

definition is_space :: "char \<Rightarrow> bool" where
  "is_space c \<longleftrightarrow> char_code c \<in> {9, 10, 11, 12, 13, 32}"

definition trim_space :: "string \<Rightarrow> string" where
  "trim_space s = rev (dropWhile is_space (rev (dropWhile is_space s)))"

definition sq :: string where "sq = [CHR 0x27]"

section \<open>Queries\<close>

definition getVaultToken :: "'w convert_env \<Rightarrow> string \<Rightarrow> string \<Rightarrow> string \<Rightarrow> 'w \<Rightarrow> (string + string) \<times> 'w" where
  "getVaultToken env vaultAddr roleId secretId w =
     (if vaultAddr = [] \<or> roleId = [] \<or> secretId = [] then (Inl ''vault address, role_id, and secret_id required'', w)
      else
        (case ce_sh env
            (''vault write -format=json auth/approle/login role_id='' @ roleId @ '' secret_id='' @ secretId @
             '' 2>/dev/null | jq -r '' @ sq @ ''.auth.client_token'' @ sq @ '' 2>/dev/null'')
            [(''VAULT_ADDR'', vaultAddr)] w of
           (Inl e, w') \<Rightarrow> (Inl (''failed to authenticate with approle: '' @ e), w')
         | (Inr output, w') \<Rightarrow>
             (let token = trim_space output in
              if token = [] \<or> token = ''null'' then (Inl ''authentication failed: no token returned'', w')
              else (Inr token, w'))))"

definition queryVaultFields ::
  "'w convert_env \<Rightarrow> string \<Rightarrow> string \<Rightarrow> string \<Rightarrow> string \<Rightarrow> 'w \<Rightarrow> (string + string list) \<times> 'w" where
  "queryVaultFields env mountPath key vaultAddr vaultToken w =
     (if vaultAddr = [] \<or> vaultToken = [] then (Inl ''vault address and token required'', w)
      else
        (let apiPath = mountPath @ ''/data/'' @ key in
         (case ce_sh env
            (''curl -s -H '' @ sq @ ''X-Vault-Token: '' @ vaultToken @ sq @ '' '' @ vaultAddr @ ''/v1/'' @ apiPath @
             '' 2>/dev/null | jq -r '' @ sq @ ''.data.data | keys[]'' @ sq @ '' 2>/dev/null'') [] w of
            (Inl e, w') \<Rightarrow> (Inl (''failed to query vault: '' @ e), w')
          | (Inr output, w') \<Rightarrow>
              (let validFields = filter (\<lambda>f. f \<noteq> []) (map trim_space (split_on (CHR 0x0A) (trim_space output))) in
               if validFields = [] then (Inl ''no fields found'', w') else (Inr validFields, w')))))"

definition detectMountPath :: "string \<Rightarrow> string" where
  "detectMountPath key = ''devops''"

section \<open>One manifest\<close>

text \<open>The lines that both forms of a secret begin with, after a prefix that may comment them out.\<close>

definition secret_head :: "string \<Rightarrow> string \<Rightarrow> string \<Rightarrow> string \<Rightarrow> string \<Rightarrow> string \<Rightarrow> line list" where
  "secret_head p secretName key mountPath kvVersion refreshInterval =
     [Out (p @ ''  - name: '' @ go_quote secretName),
      Out (p @ ''    key: '' @ go_quote key),
      Out (p @ ''    mountPath: '' @ go_quote mountPath),
      Out (p @ ''    kvVersion: '' @ go_quote kvVersion),
      Out (p @ ''    refreshInterval: '' @ go_quote refreshInterval)]"

definition file_lines :: "string \<Rightarrow> ConvertConfig \<Rightarrow> string \<Rightarrow> string \<Rightarrow> line list" where
  "file_lines p cfg secretName nm =
     [Out (p @ ''      - path: '' @ go_quote (path_Join [cc_OutputDir cfg, secretName, nm])),
      Out (p @ ''        mode: '' @ [CHR 0x22] @ ''0600'' @ [CHR 0x22])]"

definition field_line :: "string \<Rightarrow> string \<Rightarrow> line" where
  "field_line p field =
     (if has_prefix field ''.'' \<or> contains_str field ''-''
      then Out (p @ ''        '' @ field @ '': '' @ sq @ ''{{ index . '' @ go_quote field @ '' }}'' @ sq)
      else Out (p @ ''        '' @ field @ '': '' @ sq @ ''{{ .'' @ field @ '' }}'' @ sq))"

definition data_line :: "RemoteData \<Rightarrow> line" where
  "data_line d =
     (if rd_Property d \<noteq> []
      then Out (''        '' @ rd_SecretKey d @ '': '' @ sq @ ''{{ .'' @ rd_Property d @ '' }}'' @ sq)
      else Out (''        '' @ rd_SecretKey d @ '': '' @ sq @ ''{{ . }}'' @ sq))"

text \<open>The fields of the secret, if they are asked for: the answer, and whether the query failed.\<close>

definition query_fields ::
  "'w convert_env \<Rightarrow> ConvertConfig \<Rightarrow> string \<Rightarrow> string \<Rightarrow> 'w conv \<Rightarrow> string list \<times> bool \<times> 'w conv" where
  "query_fields env cfg mountPath key st =
     (if \<not> cc_QueryVault cfg then ([], False, st)
      else
        (let warn = (\<lambda>e. Warn (''Warning: Failed to query '' @ mountPath @ ''/'' @ key @ '': '' @ e)) in
         (case queryVaultFields env mountPath key (cc_VaultAddr cfg) (cc_VaultToken cfg) (fst st) of
            (Inr fieldNames, w') \<Rightarrow>
              (if fieldNames \<noteq> [] then (fieldNames, False, (w', snd st)) else ([], True, print [warn ''<nil>''] (w', snd st)))
          | (Inl e, w') \<Rightarrow> ([], True, print [warn e] (w', snd st)))))"

definition convert_dataFrom ::
  "'w convert_env \<Rightarrow> ConvertConfig \<Rightarrow> ExternalSecret \<Rightarrow> string \<Rightarrow> string \<Rightarrow> string \<Rightarrow> string \<Rightarrow> 'w conv \<Rightarrow> 'w conv" where
  "convert_dataFrom env cfg es secretName key mountPath refreshInterval st =
     (case query_fields env cfg mountPath key st of
        (fieldNames, queryFailed, st1) \<Rightarrow>
          (let tdata = es_TemplateData es;
               commented = queryFailed \<and> tdata = [];
               p = (if commented then ''# '' else []);
               warning = (if commented then
                 [Out ''# WARNING: Vault query failed - secret commented out, needs manual field mapping''] else []);
               queried = (if fieldNames \<noteq> [] then [Out ''    # Fields queried from Vault''] else []);
               template = (if tdata \<noteq> [] then map (\<lambda>(k, v). Out (p @ ''        '' @ k @ '': '' @ go_quote v)) (ce_range1 env tdata)
                 else if fieldNames \<noteq> [] then map (field_line p) fieldNames
                 else [Out (p @ ''        # TODO: Add field mappings, e.g.: username: '' @ sq @ ''{{ .username }}'' @ sq)]);
               files = (if tdata \<noteq> [] then concat (map (\<lambda>(k, v). file_lines p cfg secretName k) (ce_range2 env tdata))
                 else if fieldNames \<noteq> [] then concat (map (file_lines p cfg secretName) fieldNames)
                 else file_lines p cfg secretName ''field1'')
           in print (warning @ secret_head p secretName key mountPath (cc_KVVersion cfg) refreshInterval @ queried @
                [Out (p @ ''    template:''), Out (p @ ''      data:'')] @ template @ [Out (p @ ''    files:'')] @ files) st1))"

definition convert_data ::
  "ConvertConfig \<Rightarrow> ExternalSecret \<Rightarrow> string \<Rightarrow> string \<Rightarrow> string \<Rightarrow> string \<Rightarrow> 'w conv \<Rightarrow> 'w conv" where
  "convert_data cfg es secretName key mountPath refreshInterval =
     print (secret_head [] secretName key mountPath (cc_KVVersion cfg) refreshInterval @
       [Out ''    template:'', Out ''      data:''] @ map data_line (es_Data es) @
       [Out ''    files:''] @ concat (map (\<lambda>d. file_lines [] cfg secretName (rd_SecretKey d)) (es_Data es)))"

definition convertSingleSecret ::
  "'w convert_env \<Rightarrow> ExternalSecret \<Rightarrow> string \<Rightarrow> ConvertConfig \<Rightarrow> 'w conv \<Rightarrow> string option \<times> 'w conv" where
  "convertSingleSecret env es sourceFile cfg st =
     (let secretName = (if es_TargetName es = [] then es_Name es else es_TargetName es);
          refreshInterval = (if es_RefreshInterval es = [] then ''30m'' else es_RefreshInterval es);
          key = (case es_DataFrom es of k # _ \<Rightarrow> k | [] \<Rightarrow> (case es_Data es of d # _ \<Rightarrow> rd_Key d | [] \<Rightarrow> []));
          mountPath = (if cc_AutoDetectMount cfg \<and> key \<noteq> [] then detectMountPath key else cc_MountPath cfg);
          st1 = print [Out [], Out (''# Converted from: '' @ sourceFile @ '' (secret: '' @ secretName @ '')'')] st
      in if es_DataFrom es \<noteq> [] then (None, convert_dataFrom env cfg es secretName key mountPath refreshInterval st1)
         else if es_Data es \<noteq> [] then (None, convert_data cfg es secretName key mountPath refreshInterval st1)
         else (Some ''no data or dataFrom found in ExternalSecret'', st1))"

section \<open>One file\<close>

definition convert_and_warn ::
  "'w convert_env \<Rightarrow> ConvertConfig \<Rightarrow> string \<Rightarrow> string \<Rightarrow> nat \<Rightarrow> ExternalSecret \<Rightarrow> 'w conv \<Rightarrow> 'w conv" where
  "convert_and_warn env cfg sourceFile what i es st =
     (case convertSingleSecret env es sourceFile cfg st of
        (None, st1) \<Rightarrow> st1
      | (Some e, st1) \<Rightarrow>
          print [Warn (''Warning: failed to convert '' @ what @ '' '' @ decimal i @ '' in '' @ sourceFile @ '': '' @ e)] st1)"

fun convert_items ::
  "'w convert_env \<Rightarrow> ConvertConfig \<Rightarrow> string \<Rightarrow> nat \<Rightarrow> (string + ExternalSecret) list \<Rightarrow> 'w conv \<Rightarrow> 'w conv" where
  "convert_items env cfg sourceFile i [] st = st"
| "convert_items env cfg sourceFile i (Inl e # items) st =
     convert_items env cfg sourceFile (Suc i) items
       (print [Warn (''Warning: failed to parse item '' @ decimal i @ '' in '' @ sourceFile @ '': '' @ e)] st)"
| "convert_items env cfg sourceFile i (Inr es # items) st =
     convert_items env cfg sourceFile (Suc i) items
       (if es_Kind es = ''ExternalSecret'' then convert_and_warn env cfg sourceFile ''item'' i es st else st)"

text \<open>
  The loop over the documents ends only when the decoder reports the end of its input; every other error is skipped.
  A loop that never ends is \<^const>\<open>None\<close>.
\<close>

partial_function (option) convert_docs ::
  "'w convert_env \<Rightarrow> ConvertConfig \<Rightarrow> string \<Rightarrow> (nat \<Rightarrow> string + ExternalSecret) \<Rightarrow> nat \<Rightarrow> nat \<Rightarrow> 'w conv \<Rightarrow>
   (nat \<times> 'w conv) option" where
  "convert_docs env cfg sourceFile docs k count st =
     (case docs k of
        Inl e \<Rightarrow> (if e = ''EOF'' then Some (count, st) else convert_docs env cfg sourceFile docs (Suc k) count st)
      | Inr es \<Rightarrow>
          (if es_Kind es = ''ExternalSecret''
           then convert_docs env cfg sourceFile docs (Suc k) (Suc count) (convert_and_warn env cfg sourceFile ''document'' count es st)
           else convert_docs env cfg sourceFile docs (Suc k) count st))"

definition convertExternalSecret ::
  "'w convert_env \<Rightarrow> string \<Rightarrow> ConvertConfig \<Rightarrow> 'w conv \<Rightarrow> (string option \<times> 'w conv) option" where
  "convertExternalSecret env inputFile cfg st =
     (let sourceFile = (if inputFile = ''-'' then ''stdin'' else inputFile);
          input = (if inputFile = ''-'' then ce_stdin env else ce_read env inputFile)
      in (case input of
            Inl e \<Rightarrow>
              Some (Some ((if inputFile = ''-'' then ''failed to read stdin: '' else ''failed to read file: '') @ e), st)
          | Inr data \<Rightarrow>
              (case ce_list env data of
                 Inr (kind, items) \<Rightarrow>
                   (if kind = ''List'' then Some (None, convert_items env cfg sourceFile 0 items st)
                    else map_option (\<lambda>(count, st1). (if 0 < count then None else Some ''no ExternalSecret documents found in file'', st1))
                           (convert_docs env cfg sourceFile (ce_docs env data) 0 0 st))
               | Inl _ \<Rightarrow>
                   map_option (\<lambda>(count, st1). (if 0 < count then None else Some ''no ExternalSecret documents found in file'', st1))
                     (convert_docs env cfg sourceFile (ce_docs env data) 0 0 st))))"

section \<open>The command\<close>

text \<open>An option that takes a value, as the update it makes.\<close>

definition value_option :: "string \<Rightarrow> (string \<Rightarrow> ConvertConfig \<Rightarrow> ConvertConfig) option" where
  "value_option arg =
     (if arg = ''--mount-path'' then Some (\<lambda>v c. c\<lparr>cc_MountPath := v, cc_AutoDetectMount := False\<rparr>)
      else if arg = ''--kv-version'' then Some (\<lambda>v c. c\<lparr>cc_KVVersion := v\<rparr>)
      else if arg = ''--output-dir'' then Some (\<lambda>v c. c\<lparr>cc_OutputDir := v\<rparr>)
      else if arg = ''--vault-addr'' then Some (\<lambda>v c. c\<lparr>cc_VaultAddr := v\<rparr>)
      else if arg = ''--vault-token'' then Some (\<lambda>v c. c\<lparr>cc_VaultToken := v\<rparr>)
      else if arg = ''--vault-role-id'' then Some (\<lambda>v c. c\<lparr>cc_VaultRoleID := v\<rparr>)
      else if arg = ''--vault-secret-id'' then Some (\<lambda>v c. c\<lparr>cc_VaultSecretID := v\<rparr>)
      else None)"

fun parse_args :: "string list \<Rightarrow> ConvertConfig \<Rightarrow> string list \<Rightarrow> ConvertConfig \<times> string list" where
  "parse_args [] cfg files = (cfg, files)"
| "parse_args [arg] cfg files =
     (if value_option arg \<noteq> None then (cfg, files)
      else if arg = ''--query-vault'' then (cfg\<lparr>cc_QueryVault := True\<rparr>, files)
      else (cfg, if has_prefix arg ''--'' then files else files @ [arg]))"
| "parse_args (arg # v # rest) cfg files =
     (case value_option arg of
        Some upd \<Rightarrow> parse_args rest (upd v cfg) files
      | None \<Rightarrow>
          (if arg = ''--query-vault'' then parse_args (v # rest) (cfg\<lparr>cc_QueryVault := True\<rparr>) files
           else parse_args (v # rest) cfg (if has_prefix arg ''--'' then files else files @ [arg])))"

definition default_config :: "(string \<Rightarrow> string) \<Rightarrow> ConvertConfig" where
  "default_config getenv =
     \<lparr>cc_MountPath = ''secret'', cc_KVVersion = ''v2'', cc_OutputDir = ''./secrets'', cc_AutoDetectMount = True,
      cc_QueryVault = False, cc_VaultAddr = getenv ''VAULT_ADDR'', cc_VaultToken = getenv ''VAULT_TOKEN'',
      cc_VaultRoleID = getenv ''VAULT_ROLE_ID'', cc_VaultSecretID = getenv ''VAULT_SECRET_ID''\<rparr>"

definition usage_lines :: "line list" where
  "usage_lines = map Warn
     [''Usage: secrets-sync convert <external-secret-files...> [options]'',
      [], ''Options:'',
      ''  --mount-path <path>      KV mount path (default: auto-detect)'',
      ''  --kv-version <v1|v2>     KV version (default: v2)'',
      ''  --output-dir <dir>       Output directory for secrets (default: ./secrets)'',
      ''  --query-vault            Query Vault for actual field names (requires vault CLI)'',
      ''  --vault-addr <url>       Vault address (default: $VAULT_ADDR)'',
      ''  --vault-token <token>    Vault token (default: $VAULT_TOKEN)'',
      ''  --vault-role-id <id>     Vault AppRole role_id (default: $VAULT_ROLE_ID)'',
      ''  --vault-secret-id <id>   Vault AppRole secret_id (default: $VAULT_SECRET_ID)'',
      [], ''Example:'',
      ''  secrets-sync convert external-secret.yaml --query-vault'',
      ''  secrets-sync convert external-secret.yaml --query-vault --vault-role-id <id> --vault-secret-id <id>'']"

text \<open>The credentials for \<open>--query-vault\<close>: a token is obtained if only an AppRole is given.\<close>

definition query_credentials :: "'w convert_env \<Rightarrow> ConvertConfig \<Rightarrow> 'w conv \<Rightarrow> ConvertConfig option \<times> 'w conv" where
  "query_credentials env cfg st =
     (if \<not> cc_QueryVault cfg then (Some cfg, st)
      else
        (let need = cc_VaultToken cfg = [] \<and> cc_VaultRoleID cfg \<noteq> [] \<and> cc_VaultSecretID cfg \<noteq> [];
             login = (if need then getVaultToken env (cc_VaultAddr cfg) (cc_VaultRoleID cfg) (cc_VaultSecretID cfg) (fst st)
                      else (Inr (cc_VaultToken cfg), fst st))
         in (case login of
               (Inl e, w') \<Rightarrow> (None, print [Warn (''Error: failed to authenticate with AppRole: '' @ e)] (w', snd st))
             | (Inr token, w') \<Rightarrow>
                 (let cfg1 = cfg\<lparr>cc_VaultToken := token\<rparr> in
                  if cc_VaultAddr cfg1 = [] \<or> cc_VaultToken cfg1 = [] then
                    (None, print
                      [Warn ''Error: --query-vault requires vault credentials'', Warn ''Provide either:'',
                       Warn ''  - VAULT_ADDR and VAULT_TOKEN environment variables'',
                       Warn ''  - --vault-addr and --vault-token flags'',
                       Warn ''  - --vault-addr, --vault-role-id, and --vault-secret-id flags''] (w', snd st))
                  else (Some cfg1, (w', snd st))))))"

definition store_lines :: "ConvertConfig \<Rightarrow> line list" where
  "store_lines cfg =
     (if cc_QueryVault cfg \<and> cc_VaultAddr cfg \<noteq> [] then
        [Out ''secretStore:'', Out (''  address: '' @ go_quote (cc_VaultAddr cfg))] @
        (if cc_VaultRoleID cfg \<noteq> [] \<and> cc_VaultSecretID cfg \<noteq> []
         then [Out (''  authMethod: '' @ go_quote ''approle''), Out (''  roleId: '' @ go_quote ''${VAULT_ROLE_ID}''),
               Out (''  secretId: '' @ go_quote ''${VAULT_SECRET_ID}'')]
         else [Out (''  authMethod: '' @ go_quote ''token''), Out (''  token: '' @ go_quote ''${VAULT_TOKEN}'')]) @
        [Out []]
      else [])"

text \<open>What one file reads of the standard input is not there for the next one; a failed read is taken to fail again.\<close>

definition after_file :: "string \<Rightarrow> 'w convert_env \<Rightarrow> 'w convert_env" where
  "after_file f env =
     (if f = ''-'' then env\<lparr>ce_stdin := (case ce_stdin env of Inl e \<Rightarrow> Inl e | Inr _ \<Rightarrow> Inr [])\<rparr> else env)"

fun convert_files :: "'w convert_env \<Rightarrow> ConvertConfig \<Rightarrow> string list \<Rightarrow> 'w conv \<Rightarrow> 'w conv option" where
  "convert_files env cfg [] st = Some st"
| "convert_files env cfg (f # fs) st =
     (case convertExternalSecret env f cfg st of
        None \<Rightarrow> None
      | Some (None, st1) \<Rightarrow> convert_files (after_file f env) cfg fs st1
      | Some (Some e, st1) \<Rightarrow> convert_files (after_file f env) cfg fs (print [Warn (''Error converting '' @ f @ '': '' @ e)] st1))"

text \<open>The exit code of the command and its output.\<close>

definition runConvert :: "'w convert_env \<Rightarrow> string list \<Rightarrow> 'w \<Rightarrow> (int \<times> 'w conv) option" where
  "runConvert env args w =
     (if args = [] then Some (1, print usage_lines (w, []))
      else
        (case parse_args args (default_config (ce_getenv env)) [] of
           (cfg, files) \<Rightarrow>
             (if files = [] then Some (1, print [Warn ''Error: no input files specified''] (w, []))
              else
                (case query_credentials env cfg (w, []) of
                   (None, st) \<Rightarrow> Some (1, st)
                 | (Some cfg1, st) \<Rightarrow>
                     map_option (\<lambda>st1. (0, st1))
                       (convert_files env cfg1 files
                         (print ([Out ''# Generated configuration from external-secrets'',
                                  Out ''# Review and adjust template fields as needed'', Out []] @
                                 store_lines cfg1 @ [Out ''secrets:'']) st))))))"

end
