(* ===== verification/Convert_Theorems.thy ===== *)
theory Convert_Theorems
  imports Convert "HOL-Library.Multiset"
begin

text \<open>
  What the \<open>convert\<close> command guarantees: when it returns at all, that the files it configures belong to the templates
  it prints, and that a secret it could not query stays commented out.
\<close>

section \<open>Termination\<close>

lemma convert_docs_EOF:
  "docs k = Inl ''EOF'' \<Longrightarrow> convert_docs env cfg sf docs k cnt st = Some (cnt, st)"
  by (subst convert_docs.simps) simp

lemma convert_docs_next:
  assumes "docs k \<noteq> Inl ''EOF''"
  obtains cnt' st' where "convert_docs env cfg sf docs k cnt st = convert_docs env cfg sf docs (Suc k) cnt' st'"
proof -
  note step = convert_docs.simps [of env cfg sf docs k cnt st]
  show thesis
  proof (cases "docs k")
    case (Inl e)
    with assms step show thesis by (intro that [of cnt st]) simp
  next
    case (Inr es)
    show thesis
    proof (cases "es_Kind es = ''ExternalSecret''")
      case True
      with Inr step show thesis
        by (intro that [of "Suc cnt" "convert_and_warn env cfg sf ''document'' cnt es st"]) simp
    next
      case False
      with Inr step show thesis by (intro that [of cnt st]) simp
    qed
  qed
qed

lemma convert_docs_returns:
  "docs (k + n) = Inl ''EOF'' \<Longrightarrow> convert_docs env cfg sf docs k cnt st \<noteq> None"
proof (induction n arbitrary: k cnt st)
  case 0
  then show ?case by (simp add: convert_docs_EOF)
next
  case (Suc n)
  show ?case
  proof (cases "docs k = Inl ''EOF''")
    case True
    then show ?thesis by (simp add: convert_docs_EOF)
  next
    case False
    obtain c s where "convert_docs env cfg sf docs k cnt st = convert_docs env cfg sf docs (Suc k) c s"
      by (rule convert_docs_next [of docs k env cfg sf cnt st, OF False])
    with Suc.IH [of "Suc k"] Suc.prems show ?thesis by simp
  qed
qed

lemma convert_docs_needs_EOF:
  assumes "convert_docs env cfg sf docs k cnt st = Some r"
  shows "\<exists>n \<ge> k. docs n = Inl ''EOF''"
proof (rule convert_docs.raw_induct [where P = "\<lambda>env cfg sf docs k cnt st r. \<exists>n \<ge> k. docs n = Inl ''EOF''", OF _ assms])
  fix f :: "'a convert_env \<Rightarrow> ConvertConfig \<Rightarrow> string \<Rightarrow> (nat \<Rightarrow> string + ExternalSecret) \<Rightarrow> nat \<Rightarrow> nat \<Rightarrow> 'a conv \<Rightarrow> (nat \<times> 'a conv) option"
    and env cfg sf docs k cnt st r
  assume IH: "\<And>env cfg sf docs k cnt st r. f env cfg sf docs k cnt st = Some r \<Longrightarrow> \<exists>n \<ge> k. docs n = Inl ''EOF''"
    and eq: "(case docs k of
        Inl e \<Rightarrow> (if e = ''EOF'' then Some (cnt, st) else f env cfg sf docs (Suc k) cnt st)
      | Inr es \<Rightarrow>
          (if es_Kind es = ''ExternalSecret''
           then f env cfg sf docs (Suc k) (Suc cnt) (convert_and_warn env cfg sf ''document'' cnt es st)
           else f env cfg sf docs (Suc k) cnt st)) = Some r"
  show "\<exists>n \<ge> k. docs n = Inl ''EOF''"
  proof (cases "docs k = Inl ''EOF''")
    case False
    with eq obtain c s where "f env cfg sf docs (Suc k) c s = Some r"
      by (auto split: sum.splits if_splits)
    from IH [OF this] show ?thesis by (meson Suc_leD)
  qed auto
qed

lemma convert_docs_iff: "convert_docs env cfg sf docs 0 0 st = None \<longleftrightarrow> (\<forall>n. docs n \<noteq> Inl ''EOF'')"
proof
  assume none: "convert_docs env cfg sf docs 0 0 st = None"
  show "\<forall>n. docs n \<noteq> Inl ''EOF''"
  proof
    fix n
    show "docs n \<noteq> Inl ''EOF''" using convert_docs_returns [of docs 0 n env cfg sf 0 st] none by auto
  qed
next
  assume "\<forall>n. docs n \<noteq> Inl ''EOF''"
  then show "convert_docs env cfg sf docs 0 0 st = None"
    using convert_docs_needs_EOF [of env cfg sf docs 0 0 st] by (cases "convert_docs env cfg sf docs 0 0 st") auto
qed

text \<open>What a file is read from, and whether it goes to the loop over documents.\<close>

definition input_of :: "'w convert_env \<Rightarrow> string \<Rightarrow> string + string" where
  "input_of env f = (if f = ''-'' then ce_stdin env else ce_read env f)"

definition is_list :: "'w convert_env \<Rightarrow> string \<Rightarrow> bool" where
  "is_list env data = (case ce_list env data of Inr (kind, items) \<Rightarrow> kind = ''List'' | Inl _ \<Rightarrow> False)"

text \<open>
  C24: the conversion of a file ends exactly when its decoder ends.  It runs for ever if and only if the input can be
  read, is not a list, and the decoder never reports the end of the input; in particular when the decoder keeps
  reporting one and the same error.
\<close>

theorem convert_terminates_iff:
  "(convertExternalSecret env f cfg st = None \<longleftrightarrow>
      (\<exists>data. input_of env f = Inr data \<and> \<not> is_list env data \<and> (\<forall>n. ce_docs env data n \<noteq> Inl ''EOF''))) \<and>
   (\<forall>data e. input_of env f = Inr data \<longrightarrow> \<not> is_list env data \<longrightarrow> e \<noteq> ''EOF'' \<longrightarrow> ce_docs env data = (\<lambda>_. Inl e) \<longrightarrow>
      convertExternalSecret env f cfg st = None)"
proof -
  have "convertExternalSecret env f cfg st = None \<longleftrightarrow>
      (\<exists>data. input_of env f = Inr data \<and> \<not> is_list env data \<and> (\<forall>n. ce_docs env data n \<noteq> Inl ''EOF''))"
    by (auto simp: convertExternalSecret_def input_of_def is_list_def Let_def convert_docs_iff
        split: sum.splits prod.splits if_splits)
  then show ?thesis by auto
qed


definition broken_env :: "nat convert_env" where
  "broken_env =
     \<lparr>ce_getenv = (\<lambda>_. []), ce_stdin = Inr ''a: [b'', ce_read = (\<lambda>_. Inl ''no such file''),
      ce_sh = (\<lambda>_ _ w. (Inl ''exit status 127'', Suc w)), ce_list = (\<lambda>_. Inl ''yaml: line 1''),
      ce_docs = (\<lambda>_ _. Inl ''yaml: line 1''), ce_range1 = id, ce_range2 = id\<rparr>"

theorem convert_terminates_iff_witness:
  "convertExternalSecret broken_env ''-'' (default_config (\<lambda>_. [])) (0, []) = None"
  using convert_terminates_iff [of broken_env "''-''" "default_config (\<lambda>_. [])" "(0, [])"]
  by (simp add: broken_env_def input_of_def is_list_def)

section \<open>Files and templates have the same names\<close>

text \<open>
  Reading the output back: the quoted paths of its file entries, and the names of its template entries, which stand
  between the lines \<open>data:\<close> and \<open>files:\<close>.
\<close>

fun path_entry :: "line \<Rightarrow> string list" where
  "path_entry (Out t) = (if has_prefix t ''      - path: '' then [drop 14 t] else [])"
| "path_entry (Warn t) = []"

definition path_entries :: "line list \<Rightarrow> string list" where
  "path_entries ls = concat (map path_entry ls)"

fun entry_name :: "line \<Rightarrow> string" where
  "entry_name (Out t) = takeWhile (\<lambda>c. c \<noteq> CHR '':'') (drop 8 t)"
| "entry_name (Warn t) = []"

definition template_names :: "line list \<Rightarrow> string list" where
  "template_names ls =
     map entry_name (takeWhile (\<lambda>l. l \<noteq> Out ''    files:'') (tl (dropWhile (\<lambda>l. l \<noteq> Out ''      data:'') ls)))"

text \<open>A line before the template; a template entry for a name.\<close>

definition early_line :: "line \<Rightarrow> bool" where
  "early_line l \<longleftrightarrow> l \<noteq> Out ''      data:'' \<and> path_entry l = []"

definition entry_line :: "string \<Rightarrow> line \<Rightarrow> bool" where
  "entry_line n l \<longleftrightarrow> (\<exists>x. l = Out (''        '' @ n @ '': '' @ x))"

lemma entry_line_facts:
  assumes "entry_line n l" and "CHR '':'' \<notin> set n"
  shows "entry_name l = n" and "path_entry l = []" and "l \<noteq> Out ''    files:''"
  using assms by (auto simp: entry_line_def has_prefix_def takeWhile_append)

lemma file_lines_read: "path_entries (file_lines [] cfg nm n) = [go_quote (path_Join [cc_OutputDir cfg, nm, n])]"
  by (simp add: path_entries_def file_lines_def has_prefix_def)

lemma path_entries_append [simp]: "path_entries (a @ b) = path_entries a @ path_entries b"
  by (simp add: path_entries_def)

lemma path_entries_Cons: "path_entries (l # ls) = path_entry l @ path_entries ls"
  by (simp add: path_entries_def)

lemma path_entries_files:
  "path_entries (concat (map (file_lines [] cfg nm) ns)) = map (\<lambda>n. go_quote (path_Join [cc_OutputDir cfg, nm, n])) ns"
  by (induction ns) (simp_all add: file_lines_read, simp add: path_entries_def)

lemma read_back:
  assumes early: "\<forall>l \<in> set pre. early_line l" and entries: "list_all2 entry_line ns es"
    and colon: "\<forall>n \<in> set ns. CHR '':'' \<notin> set n"
    and ls: "ls = pre @ [Out ''    template:'', Out ''      data:''] @ es @ [Out ''    files:''] @ concat (map (file_lines [] cfg nm) ms)"
  shows "template_names ls = ns" and "path_entries ls = map (\<lambda>n. go_quote (path_Join [cc_OutputDir cfg, nm, n])) ms"
proof -
  have facts: "\<forall>l \<in> set es. path_entry l = [] \<and> l \<noteq> Out ''    files:''" and names: "map entry_name es = ns"
    using entries colon
    by (induction rule: list_all2_induct) (auto dest: entry_line_facts)
  have "dropWhile (\<lambda>l. l \<noteq> Out ''      data:'') ls =
      Out ''      data:'' # es @ [Out ''    files:''] @ concat (map (file_lines [] cfg nm) ms)"
    using early unfolding ls by (induction pre) (auto simp: early_line_def)
  moreover have "takeWhile (\<lambda>l. l \<noteq> Out ''    files:'') (es @ Out ''    files:'' # r) = es" for r
    using facts by (induction es) auto
  ultimately show "template_names ls = ns" by (simp add: template_names_def names)
  have "path_entries pre = []" using early by (induction pre) (auto simp: path_entries_def early_line_def)
  moreover have "path_entries es = []" using facts by (induction es) (auto simp: path_entries_def)
  ultimately show "path_entries ls = map (\<lambda>n. go_quote (path_Join [cc_OutputDir cfg, nm, n])) ms"
    unfolding ls by (simp add: path_entries_files path_entries_Cons has_prefix_def)
qed

lemma early_head: "\<forall>l \<in> set (secret_head [] a b c d e). early_line l"
  by (simp add: secret_head_def early_line_def has_prefix_def)

lemma early_print: "early_line (Warn t)" "early_line (Out [])" "early_line (Out (''# '' @ t))"
  by (simp_all add: early_line_def has_prefix_def)

definition declared_names :: "ExternalSecret \<Rightarrow> string list" where
  "declared_names es = (if es_DataFrom es \<noteq> [] then keys (es_TemplateData es) else map rd_SecretKey (es_Data es))"

lemma query_fields_prints:
  assumes "query_fields env cfg m k st = (fs, q, st1)"
  shows "\<exists>ws. snd st1 = snd st @ map Warn ws"
proof (cases "cc_QueryVault cfg")
  case True
  obtain r w' where r: "queryVaultFields env m k (cc_VaultAddr cfg) (cc_VaultToken cfg) (fst st) = (r, w')"
    by (cases "queryVaultFields env m k (cc_VaultAddr cfg) (cc_VaultToken cfg) (fst st)")
  with assms True have "snd st1 = snd st \<or> (\<exists>x. snd st1 = snd st @ [Warn x])"
    by (cases r) (auto simp: query_fields_def print_def Let_def split: if_splits)
  then show ?thesis
  proof
    assume "\<exists>x. snd st1 = snd st @ [Warn x]"
    then obtain x where "snd st1 = snd st @ map Warn [x]" by auto
    then show ?thesis by blast
  qed (intro exI [of _ "[]"], simp)
next
  case False
  with assms show ?thesis by (intro exI [of _ "[]"]) (simp add: query_fields_def)
qed


text \<open>Both forms of a manifest print a head, template entries for some names and file entries for some names.\<close>

lemma convertSingleSecret_layout:
  assumes "convertSingleSecret env es sf cfg st = (r, st')" and "declared_names es \<noteq> []"
    and ranges: "\<forall>m. mset (ce_range1 env m) = mset m \<and> mset (ce_range2 env m) = mset m"
  obtains pre ts ns ms nm where "r = None" and "\<forall>l \<in> set pre. early_line l" and "list_all2 entry_line ns ts"
    and "mset ns = mset (declared_names es)" and "mset ms = mset (declared_names es)"
    and "snd st' = snd st @ pre @ [Out ''    template:'', Out ''      data:''] @ ts @ [Out ''    files:''] @
           concat (map (file_lines [] cfg nm) ms)"
proof -
  define nm where "nm = (if es_TargetName es = [] then es_Name es else es_TargetName es)"
  define ri where "ri = (if es_RefreshInterval es = [] then ''30m'' else es_RefreshInterval es)"
  define key where "key = (case es_DataFrom es of k # _ \<Rightarrow> k | [] \<Rightarrow> (case es_Data es of d # _ \<Rightarrow> rd_Key d | [] \<Rightarrow> []))"
  define mp where "mp = (if cc_AutoDetectMount cfg \<and> key \<noteq> [] then detectMountPath key else cc_MountPath cfg)"
  define intro where "intro = [Out [], Out (''# Converted from: '' @ sf @ '' (secret: '' @ nm @ '')'')]"
  define st1 where "st1 = print intro st"
  note defs = nm_def [symmetric] ri_def [symmetric] key_def [symmetric] mp_def [symmetric] intro_def [symmetric]
  have c: "convertSingleSecret env es sf cfg st =
      (if es_DataFrom es \<noteq> [] then (None, convert_dataFrom env cfg es nm key mp ri st1)
       else if es_Data es \<noteq> [] then (None, convert_data cfg es nm key mp ri st1)
       else (Some ''no data or dataFrom found in ExternalSecret'', st1))"
    by (simp only: convertSingleSecret_def Let_def defs st1_def)
  have i: "\<forall>l \<in> set intro. early_line l" by (simp add: intro_def early_line_def has_prefix_def)
  show thesis
  proof (cases "es_DataFrom es = []")
    case True
    with assms(2) have d: "es_Data es \<noteq> []" by (auto simp: declared_names_def)
    have "list_all2 entry_line (map rd_SecretKey (es_Data es)) (map data_line (es_Data es))"
      by (auto simp: list_all2_map1 list_all2_map2 data_line_def entry_line_def intro!: list_all2_refl)
    moreover have "concat (map (\<lambda>d. file_lines [] cfg nm (rd_SecretKey d)) (es_Data es)) =
        concat (map (file_lines [] cfg nm) (map rd_SecretKey (es_Data es)))" by (simp add: comp_def)
    ultimately show thesis
      using assms(1) c True d i early_head
      by (intro that [of "intro @ secret_head [] nm key mp (cc_KVVersion cfg) ri" "map rd_SecretKey (es_Data es)"
            "map data_line (es_Data es)" "map rd_SecretKey (es_Data es)" nm])
         (auto simp: convert_data_def print_def st1_def declared_names_def)
  next
    case False
    with assms(2) have t: "es_TemplateData es \<noteq> []" by (auto simp: declared_names_def)
    obtain fs q st2 where q: "query_fields env cfg mp key st1 = (fs, q, st2)" using prod_cases3 by blast
    obtain ws where ws: "snd st2 = snd st1 @ map Warn ws" using query_fields_prints [OF q] by blast
    let ?r1 = "ce_range1 env (es_TemplateData es)" and ?r2 = "ce_range2 env (es_TemplateData es)"
    let ?queried = "if fs \<noteq> [] then [Out ''    # Fields queried from Vault''] else []"
    let ?ts = "map (\<lambda>(k, v). Out (''        '' @ k @ '': '' @ go_quote v)) ?r1"
    have m: "mset (map fst ?r1) = mset (declared_names es)" "mset (map fst ?r2) = mset (declared_names es)"
      using ranges False by (simp_all add: declared_names_def keys_def)
    have entries: "list_all2 entry_line (map fst ?r1) ?ts"
      by (auto simp: list_all2_map1 list_all2_map2 entry_line_def intro!: list_all2_refl)
    have files: "concat (map (\<lambda>(k, v). file_lines [] cfg nm k) ?r2) = concat (map (file_lines [] cfg nm) (map fst ?r2))"
      by (simp add: comp_def case_prod_unfold)
    have "r = None" "st' = convert_dataFrom env cfg es nm key mp ri st1" using assms(1) c False by simp_all
    moreover have "convert_dataFrom env cfg es nm key mp ri st1 =
        print (secret_head [] nm key mp (cc_KVVersion cfg) ri @ ?queried @ [Out ''    template:'', Out ''      data:''] @ ?ts @
          [Out ''    files:''] @ concat (map (\<lambda>(k, v). file_lines [] cfg nm k) ?r2)) st2"
      using t by (simp add: convert_dataFrom_def q Let_def)
    ultimately have out: "snd st' = snd st @ (intro @ map Warn ws @ secret_head [] nm key mp (cc_KVVersion cfg) ri @ ?queried) @
        [Out ''    template:'', Out ''      data:''] @ ?ts @ [Out ''    files:''] @ concat (map (file_lines [] cfg nm) (map fst ?r2))"
      unfolding files by (simp only: print_def snd_conv ws st1_def append_assoc)
    have "early_line (Out ''    # Fields queried from Vault'')" by (simp add: early_line_def has_prefix_def)
    then have "\<forall>l \<in> set (intro @ map Warn ws @ secret_head [] nm key mp (cc_KVVersion cfg) ri @ ?queried). early_line l"
      using i early_head early_print(1) by auto
    from that [OF \<open>r = None\<close> this entries m out] show thesis .
  qed
qed

text \<open>
  C23: the files of a converted secret belong to its templates.  For a manifest with names that can be file names, the
  printed template entries are the names it declares, each once, and the base names of the printed paths are the same
  names; this is the contract by which the syncer finds the template of a file.
\<close>

theorem convert_names_match:
  assumes "convertSingleSecret env es sf cfg st = (r, st')" and "declared_names es \<noteq> []"
    and "\<forall>n \<in> set (declared_names es). plain_elem n \<and> n \<noteq> ''..'' \<and> CHR '':'' \<notin> set n"
    and "\<forall>m. mset (ce_range1 env m) = mset m \<and> mset (ce_range2 env m) = mset m"
  shows "r = None \<and>
         (\<exists>ls paths. snd st' = snd st @ ls \<and> path_entries ls = map go_quote paths \<and>
            mset (template_names ls) = mset (declared_names es) \<and>
            mset (map filepath_Base paths) = mset (declared_names es))"
proof -
  from assms(1,2,4) obtain pre ts ns ms nm where l: "r = None" "\<forall>l \<in> set pre. early_line l" "list_all2 entry_line ns ts"
      "mset ns = mset (declared_names es)" "mset ms = mset (declared_names es)"
      "snd st' = snd st @ pre @ [Out ''    template:'', Out ''      data:''] @ ts @ [Out ''    files:''] @
         concat (map (file_lines [] cfg nm) ms)"
    by (rule convertSingleSecret_layout)
  let ?ls = "pre @ [Out ''    template:'', Out ''      data:''] @ ts @ [Out ''    files:''] @ concat (map (file_lines [] cfg nm) ms)"
  let ?paths = "map (\<lambda>n. path_Join [cc_OutputDir cfg, nm, n]) ms"
  have s: "set ns = set (declared_names es)" "set ms = set (declared_names es)"
    using l(4,5) by (metis set_mset_mset)+
  have "\<forall>n \<in> set ns. CHR '':'' \<notin> set n" using assms(3) s(1) by blast
  note rb = read_back [OF l(2,3) this refl, of cfg nm ms]
  have "map filepath_Base ?paths = ms"
    using assms(3) s(2) Base_Join_last by (auto simp: comp_def intro!: map_idI)
  with rb l show ?thesis
    by (intro conjI exI [of _ ?ls] exI [of _ ?paths]) (simp_all add: comp_def)
qed


definition sample_es :: ExternalSecret where
  "sample_es =
     \<lparr>es_APIVersion = ''v1'', es_Kind = ''ExternalSecret'', es_Name = ''db'', es_RefreshInterval = [], es_StoreKind = [],
      es_StoreName = [], es_TargetName = [], es_TemplateData = [],
      es_Data = [\<lparr>rd_SecretKey = ''user'', rd_Key = ''app/db'', rd_Property = ''username''\<rparr>,
                 \<lparr>rd_SecretKey = ''pass'', rd_Key = ''app/db'', rd_Property = []\<rparr>],
      es_DataFrom = []\<rparr>"

theorem convert_names_match_witness:
  "\<exists>ls paths. snd (snd (convertSingleSecret broken_env sample_es ''f.yaml'' (default_config (\<lambda>_. [])) (0, []))) = ls \<and>
     path_entries ls = map go_quote paths \<and> mset (map filepath_Base paths) = {#''user'', ''pass''#}"
proof -
  obtain r st' where r: "convertSingleSecret broken_env sample_es ''f.yaml'' (default_config (\<lambda>_. [])) (0, []) = (r, st')"
    by (cases "convertSingleSecret broken_env sample_es ''f.yaml'' (default_config (\<lambda>_. [])) (0, [])")
  have d: "declared_names sample_es = [''user'', ''pass'']" by (simp add: declared_names_def sample_es_def)
  from convert_names_match [OF r] obtain ls paths where
    "snd st' = [] @ ls" "path_entries ls = map go_quote paths" "mset (map filepath_Base paths) = mset (declared_names sample_es)"
    by (auto simp: d plain_elem_def broken_env_def)
  with r d show ?thesis by auto
qed

section \<open>A secret that could not be queried\<close>

lemma hex_digit_no_newline: "n < 16 \<Longrightarrow> CHR 0x0A \<noteq> hex_digit n"
proof
  assume n: "n < 16" and eq: "CHR 0x0A = hex_digit n"
  have "(of_char (hex_digit n) :: nat) = 10" unfolding eq [symmetric] by simp
  with n show False by (simp add: hex_digit_def split: if_splits)
qed

lemma go_quote_no_newline: "CHR 0x0A \<notin> set (go_quote s)"
proof -
  have "char_code c div 16 < 16" for c
  proof -
    have "(of_char c :: nat) mod 256 < 256" by simp
    then have "char_code c < 16 * 16" by (simp add: char_code_def)
    then show ?thesis by (rule less_mult_imp_div_less)
  qed
  then have "CHR 0x0A \<notin> set (quote_char c)" for c
    by (auto simp: quote_char_def Let_def hex_digit_no_newline) (auto simp: char_code_def)
  then show ?thesis by (simp add: go_quote_def)
qed

text \<open>A comment line of YAML, or an empty one.\<close>

definition comment_line :: "string \<Rightarrow> bool" where
  "comment_line t \<longleftrightarrow> CHR 0x0A \<notin> set t \<and> (t = [] \<or> hd t = CHR ''#'')"

lemma failing_query:
  assumes "\<forall>c x w. \<exists>e. fst (ce_sh env c x w) = Inl e" and "cc_QueryVault cfg"
  shows "\<exists>w e. query_fields env cfg m k st = ([], True, (w, snd st @ [Warn e]))"
proof -
  have "\<exists>e w'. queryVaultFields env m k (cc_VaultAddr cfg) (cc_VaultToken cfg) (fst st) = (Inl e, w')"
  proof (cases "cc_VaultAddr cfg = [] \<or> cc_VaultToken cfg = []")
    case False
    let ?c = "''curl -s -H '' @ sq @ ''X-Vault-Token: '' @ cc_VaultToken cfg @ sq @ '' '' @ cc_VaultAddr cfg @ ''/v1/'' @
       (m @ ''/data/'' @ k) @ '' 2>/dev/null | jq -r '' @ sq @ ''.data.data | keys[]'' @ sq @ '' 2>/dev/null''"
    obtain e w' where "ce_sh env ?c [] (fst st) = (Inl e, w')"
      using assms(1) by (metis prod.collapse)
    with False show ?thesis by (simp add: queryVaultFields_def Let_def)
  qed (auto simp: queryVaultFields_def)
  with assms(2) show ?thesis by (auto simp: query_fields_def print_def)
qed


text \<open>
  A secret whose fields could not be queried is printed as comments only.  When a manifest takes all fields of a
  secret, gives no template, and the query fails, every line printed for it is empty or a comment, so that the
  generated configuration does not contain it; the manifest still counts as converted.
\<close>

theorem failed_query_comments_out:
  assumes "convertSingleSecret env es sf cfg st = (r, st')" and "es_DataFrom es \<noteq> []" and "es_TemplateData es = []"
    and "cc_QueryVault cfg" and "\<forall>c x w. \<exists>e. fst (ce_sh env c x w) = Inl e"
    and "CHR 0x0A \<notin> set (sf @ es_Name es @ es_TargetName es)"
  shows "r = None \<and> (\<exists>ls. snd st' = snd st @ ls \<and> (\<forall>t. Out t \<in> set ls \<longrightarrow> comment_line t))"
proof -
  define nm where "nm = (if es_TargetName es = [] then es_Name es else es_TargetName es)"
  define ri where "ri = (if es_RefreshInterval es = [] then ''30m'' else es_RefreshInterval es)"
  define key where "key = (case es_DataFrom es of k # _ \<Rightarrow> k | [] \<Rightarrow> (case es_Data es of d # _ \<Rightarrow> rd_Key d | [] \<Rightarrow> []))"
  define mp where "mp = (if cc_AutoDetectMount cfg \<and> key \<noteq> [] then detectMountPath key else cc_MountPath cfg)"
  define intro where "intro = [Out [], Out (''# Converted from: '' @ sf @ '' (secret: '' @ nm @ '')'')]"
  define body where "body = [Out ''# WARNING: Vault query failed - secret commented out, needs manual field mapping''] @
    secret_head ''# '' nm key mp (cc_KVVersion cfg) ri @ [Out ''#     template:'', Out ''#       data:''] @
    [Out (''#         # TODO: Add field mappings, e.g.: username: '' @ sq @ ''{{ .username }}'' @ sq), Out ''#     files:''] @
    file_lines ''# '' cfg nm ''field1''"
  note defs = nm_def [symmetric] ri_def [symmetric] key_def [symmetric] mp_def [symmetric] intro_def [symmetric]
  obtain w e where q: "query_fields env cfg mp key (print intro st) = ([], True, (w, snd (print intro st) @ [Warn e]))"
    using failing_query [OF assms(5,4)] by blast
  have "convertSingleSecret env es sf cfg st = (None, convert_dataFrom env cfg es nm key mp ri (print intro st))"
    using assms(2) by (simp only: convertSingleSecret_def Let_def defs if_True simp_thms not_False_eq_True)
  then have "r = None" "st' = convert_dataFrom env cfg es nm key mp ri (print intro st)" using assms(1) by simp_all
  moreover have "convert_dataFrom env cfg es nm key mp ri (print intro st) = print body (w, snd (print intro st) @ [Warn e])"
    using assms(3) by (simp add: convert_dataFrom_def q body_def Let_def)
  ultimately have out: "r = None" "snd st' = snd st @ intro @ [Warn e] @ body" by (simp_all add: print_def)
  have nl: "CHR 0x0A \<notin> set nm" using assms(6) by (simp add: nm_def)
  have "comment_line t" if "Out t \<in> set intro" for t
    using that nl assms(6) by (auto simp: intro_def comment_line_def)
  moreover have "comment_line t" if "Out t \<in> set body" for t
    using that by (auto simp: body_def secret_head_def file_lines_def comment_line_def sq_def go_quote_no_newline)
  ultimately show ?thesis using out by (intro conjI exI [of _ "intro @ [Warn e] @ body"]) auto
qed

theorem failed_query_comments_out_witness:
  "fst (convertSingleSecret broken_env (sample_es\<lparr>es_DataFrom := [''app/db'']\<rparr>) ''f.yaml''
     ((default_config (\<lambda>_. []))\<lparr>cc_QueryVault := True, cc_VaultAddr := ''http://v'', cc_VaultToken := ''t''\<rparr>) (0, [])) = None"
  by (rule conjunct1 [OF failed_query_comments_out [OF prod.collapse [symmetric]]])
     (simp_all add: sample_es_def broken_env_def)

end
