(* ===== verification/Health.thy ===== *)
theory Health
  imports Writer
begin

text \<open>
  \<open>internal/health/status.go\<close> and \<open>internal/health/server.go\<close>: the readiness of the service, which is kept in memory for
  the HTTP endpoints and as a file for the \<open>isready\<close> command.  HTTP itself is the library's: a handler is the
  function from the state to the status code and the body that it sends.
\<close>

section \<open>The status\<close>

record Status =
  st_Ready :: bool
  st_SecretCount :: int
  st_SyncedCount :: int
  st_StatusFile :: string

definition NewStatus :: "string \<Rightarrow> Status" where
  "NewStatus statusFile = \<lparr>st_Ready = False, st_SecretCount = 0, st_SyncedCount = 0, st_StatusFile = statusFile\<rparr>"

datatype status_error = StatusWriteFailed errno

definition SetReady :: "int \<Rightarrow> int \<Rightarrow> Status \<Rightarrow> world \<Rightarrow> (status_error, unit) outcome \<times> Status \<times> world" where
  "SetReady secretCount syncedCount s w =
     (let s1 = s\<lparr>st_Ready := 0 < syncedCount, st_SecretCount := secretCount, st_SyncedCount := syncedCount\<rparr> in
      if st_StatusFile s1 \<noteq> [] then
        (if st_Ready s1 then
           (case os_WriteFile (st_StatusFile s1) ''ready'' 0x1A4 w of
              (Inl e, w1) \<Rightarrow> (Err (StatusWriteFailed e), s1, w1)
            | (Inr _, w1) \<Rightarrow> (Ok (), s1, w1))
         else (Ok (), s1, snd (os_Remove (st_StatusFile s1) w)))
      else (Ok (), s1, w))"

definition IsReady :: "Status \<Rightarrow> bool" where
  "IsReady s = st_Ready s"

definition GetStatus :: "Status \<Rightarrow> bool \<times> int \<times> int" where
  "GetStatus s = (st_Ready s, st_SecretCount s, st_SyncedCount s)"

text \<open>\<open>os.IsNotExist\<close> recognises a missing file only; every other error of \<open>os.Stat\<close> counts as ready.\<close>

definition CheckReadiness :: "string \<Rightarrow> world \<Rightarrow> (string, unit) outcome" where
  "CheckReadiness statusFile w =
     (case os_Stat_call statusFile w of
        (Inl ENOENT, _) \<Rightarrow> Err ''service not ready''
      | _ \<Rightarrow> Ok ())"

section \<open>The HTTP endpoints\<close>

record http_response =
  http_Status :: nat
  http_ContentType :: string
  http_Body :: string

text \<open>JSON as \<open>encoding/json\<close> writes it: the keys of a map sorted, a newline at the end.\<close>

definition json_bool :: "bool \<Rightarrow> string" where
  "json_bool b = (if b then ''true'' else ''false'')"

definition json_int :: "int \<Rightarrow> string" where
  "json_int i = (if i < 0 then CHR ''-'' # decimal (nat (- i)) else decimal (nat i))"

definition json_object :: "(string \<times> string) list \<Rightarrow> string" where
  "json_object kvs =
     ''{'' @ join_with (CHR '','') (map (\<lambda>(k, v). [CHR 0x22] @ k @ [CHR 0x22] @ '':'' @ v) kvs) @ ''}'' @ [CHR 0x0A]"

definition healthHandler :: http_response where
  "healthHandler =
     \<lparr>http_Status = 200, http_ContentType = ''application/json'',
      http_Body = json_object [(''status'', [CHR 0x22] @ ''healthy'' @ [CHR 0x22])]\<rparr>"

definition readyHandler :: "Status \<Rightarrow> http_response" where
  "readyHandler s =
     (case GetStatus s of (ready, secretCount, syncedCount) \<Rightarrow>
       \<lparr>http_Status = (if ready then 200 else 503), http_ContentType = ''application/json'',
        http_Body = json_object
          [(''ready'', json_bool ready), (''secret_count'', json_int secretCount), (''synced_count'', json_int syncedCount)]\<rparr>)"

text \<open>
  The server: where it listens, and whether it was started.  \<open>Start\<close> always succeeds; an error of \<open>ListenAndServe\<close> in its
  goroutine is dropped.
\<close>

record Server =
  srv_addr :: string
  srv_port :: int
  srv_started :: bool
  srv_open :: bool

definition NewServer :: "string \<Rightarrow> int \<Rightarrow> Server" where
  "NewServer addr port = \<lparr>srv_addr = addr, srv_port = port, srv_started = False, srv_open = False\<rparr>"

definition listen_addr :: "Server \<Rightarrow> string" where
  "listen_addr s = srv_addr s @ '':'' @ json_int (srv_port s)"

text \<open>Whether the address can be listened on is the library's answer.\<close>

definition Server_Start :: "(string \<Rightarrow> bool) \<Rightarrow> Server \<Rightarrow> Server" where
  "Server_Start listens s = s\<lparr>srv_started := True, srv_open := listens (listen_addr s)\<rparr>"

definition Server_Stop :: "(string \<Rightarrow> string option) \<Rightarrow> Server \<Rightarrow> string option \<times> Server" where
  "Server_Stop closeError s =
     (if srv_started s then (closeError (listen_addr s), s\<lparr>srv_open := False\<rparr>) else (None, s))"

text \<open>The routes; every other path is answered by the multiplexer itself.\<close>

datatype route = Handled http_response | PrometheusHandler

definition route_of :: "Status \<Rightarrow> string \<Rightarrow> route option" where
  "route_of s path =
     (if path = ''/health'' then Some (Handled healthHandler)
      else if path = ''/ready'' then Some (Handled (readyHandler s))
      else if path = ''/metrics'' then Some PrometheusHandler
      else None)"

section \<open>The three views of readiness agree\<close>

text \<open>A plain name: the file is regular or missing, so no link has to be followed.\<close>

definition plain_file :: "string \<Rightarrow> world \<Rightarrow> bool" where
  "plain_file p w \<longleftrightarrow> p \<noteq> ''/'' \<and> (lookup w p = None \<or> (\<exists>d m u g. lookup w p = Some (Reg d m u g)))"

lemma follow_plain_file: "plain_file p w \<Longrightarrow> follow max_links w p = Some p"
  by (intro follow_plain) (auto simp: plain_file_def)

lemma CheckReadiness_plain:
  assumes "w_faults w = []" and "plain_file p w"
  shows "is_ok (CheckReadiness p w) \<longleftrightarrow> lookup w p \<noteq> None"
  using assms(2)
  by (auto simp: CheckReadiness_def os_Stat_call_def with_fault_none [OF assms(1)] follow_plain_file [OF assms(2)]
      plain_file_def split: option.splits)

lemma write_status:
  assumes "w_faults w = []" and "plain_file p w" and "os_WriteFile p d m w = (Inr u, w')"
  shows "w_faults w' = [] \<and> (\<exists>m' u' g'. lookup w' p = Some (Reg d m' u' g'))"
proof -
  have p: "p \<noteq> ''/''" using assms(2) by (simp add: plain_file_def)
  note f = with_fault_none [OF assms(1)] follow_plain_file [OF assms(2)]
  obtain q v where o: "open_trunc p m w = (q, v)" by (cases "open_trunc p m w")
  with assms(3) obtain x where q: "q = Inr x" by (auto simp: os_WriteFile_def split: sum.splits)
  have v: "x = p \<and> w_faults v = [] \<and> (\<exists>m' u' g'. lookup v p = Some (Reg [] m' u' g'))"
    using o q assms(1,2) p by (auto simp: open_trunc_def f plain_file_def split: if_splits)
  then obtain m' u' g' where l: "lookup v p = Some (Reg [] m' u' g')" by blast
  from v have "next_fault v = (None, v)" by (simp add: next_fault_none)
  with assms(3) o q v l p show ?thesis
    by (auto simp: os_WriteFile_def write_close_def store_bytes_def with_fault_none)
qed

lemma remove_status:
  assumes "w_faults w = []" and "plain_file p w"
  shows "w_faults (snd (os_Remove p w)) = [] \<and> lookup (snd (os_Remove p w)) p = None"
  using assms(2)
  by (auto simp: os_Remove_def with_fault_none [OF assms(1)] plain_file_def del_node_def [symmetric] assms(1))
     (simp add: del_node_def set_nodes_def assms(1))

text \<open>
  C32: the command, the endpoint and the state agree.  If the status file has a plain name and no call fails for an
  outside reason, then after \<open>SetReady\<close> has returned without an error \<open>isready\<close> succeeds, the \<open>/ready\<close> endpoint
  answers 200 and \<open>IsReady\<close> holds in the same cases: exactly when a synchronisation was counted.
\<close>

theorem readiness_agrees:
  assumes "SetReady secretCount syncedCount s w = (Ok u, s', w')" and "w_faults w = []"
    and "plain_file (st_StatusFile s) w" and "st_StatusFile s \<noteq> []"
  shows "IsReady s' = (0 < syncedCount) \<and> is_ok (CheckReadiness (st_StatusFile s') w') = IsReady s' \<and>
         (route_of s' ''/ready'' = Some (Handled (readyHandler s')) \<and>
          http_Status (readyHandler s') = (if IsReady s' then 200 else 503))"
proof -
  have s': "s' = s\<lparr>st_Ready := 0 < syncedCount, st_SecretCount := secretCount, st_SyncedCount := syncedCount\<rparr>"
    using assms(1) by (auto simp: SetReady_def Let_def split: if_splits prod.splits sum.splits)
  have "is_ok (CheckReadiness (st_StatusFile s) w') = (0 < syncedCount)"
  proof (cases "0 < syncedCount")
    case True
    with assms(1,4) have "os_WriteFile (st_StatusFile s) ''ready'' 0x1A4 w = (Inr (), w')"
      by (auto simp: SetReady_def Let_def split: prod.splits sum.splits)
    note a = write_status [OF assms(2,3) this]
    then have "plain_file (st_StatusFile s) w'" using assms(3) by (auto simp: plain_file_def)
    with a True CheckReadiness_plain [of w' "st_StatusFile s"] show ?thesis by auto
  next
    case False
    with assms(1,4) have "w' = snd (os_Remove (st_StatusFile s) w)" by (auto simp: SetReady_def Let_def)
    with remove_status [OF assms(2,3)] have a: "w_faults w' = []" "lookup w' (st_StatusFile s) = None" by simp_all
    then have "plain_file (st_StatusFile s) w'" using assms(3) by (simp add: plain_file_def)
    with a False CheckReadiness_plain [of w' "st_StatusFile s"] show ?thesis by simp
  qed
  then show ?thesis by (simp add: s' IsReady_def route_of_def readyHandler_def GetStatus_def)
qed


text \<open>
  A readiness probe that cannot look at the file says that the service is ready: only a missing file counts as not
  ready.
\<close>

lemma CheckReadiness_error_is_ready:
  "e \<noteq> ENOENT \<Longrightarrow> w_faults w = Some (e, n) # fs \<Longrightarrow> CheckReadiness p w = Ok ()"
  by (cases e) (simp_all add: CheckReadiness_def os_Stat_call_def with_fault_def next_fault_def)

definition status_world :: world where
  "status_world =
     \<lparr>w_nodes = [(''/tmp'', Dir)], w_umask = 0x12, w_uid = 1000, w_gid = 1000, w_pid = 1, w_rand = [], w_faults = [],
      w_hist = []\<rparr>"

theorem readiness_agrees_witness:
  "\<exists>s' w'. SetReady 3 1 (NewStatus ''/tmp/.ready-state'') status_world = (Ok (), s', w') \<and>
     is_ok (CheckReadiness (st_StatusFile s') w') \<and> http_Status (readyHandler s') = 200"
proof -
  have d: "filepath_Dir ''/tmp/.ready-state'' = ''/tmp''" by code_simp
  have p: "plain_file ''/tmp/.ready-state'' status_world" by (simp add: plain_file_def lookup_def status_world_def)
  have "is_dir status_world ''/tmp''"
    by (simp add: is_dir_def max_links_def lookup_def status_world_def numeral_eq_Suc)
  then have "fst (SetReady 3 1 (NewStatus ''/tmp/.ready-state'') status_world) = Ok ()"
    using follow_plain_file [OF p] p
    by (simp add: SetReady_def NewStatus_def Let_def os_WriteFile_def open_trunc_def with_fault_def next_fault_def d
        status_world_def write_close_def lookup_def put_node_def set_nodes_def store_bytes_def update_conv')
  then obtain s' w' where r: "SetReady 3 1 (NewStatus ''/tmp/.ready-state'') status_world = (Ok (), s', w')"
    by (metis prod.collapse)
  have "w_faults status_world = []" by (simp add: status_world_def)
  with readiness_agrees [OF r] p r show ?thesis by (auto simp: NewStatus_def)
qed

end
