(* ===== verification/Writer_Leftovers.thy ===== *)
theory Writer_Leftovers
  imports File_Store Cleanup Health
begin

text \<open>
  The writer on a disk that is in use: temporary files of earlier failed writes may lie around, so a new temporary
  file may find a file under its name.  What then still holds is that every state an observer sees has, at the target,
  the old node or a regular file with the complete new content (with the mode of the leftover, in the one case
  that its name is picked again).  The same for the status file and for the sweep of temporary files.
\<close>

section \<open>The steps on a plain name\<close>

text \<open>A plain name is absent or a regular file (\<^const>\<open>plain_file\<close>); each step keeps its name plain.\<close>

lemma plain_file_same: "lookup w' p = lookup w p \<Longrightarrow> plain_file p w \<Longrightarrow> plain_file p w'"
  by (simp add: plain_file_def)

lemma plain_file_Reg: "p \<noteq> ''/'' \<Longrightarrow> lookup w p = Some (Reg d m u g) \<Longrightarrow> plain_file p w"
  by (auto simp: plain_file_def)

lemma open_trunc_plain:
  assumes "open_trunc p perm w = (r, w')" and "plain_file p w"
  shows "only_touches {p} w w' \<and> plain_file p w' \<and>
    (\<forall>q. r = Inr q \<longrightarrow> q = p \<and> (\<exists>m u g. lookup w' p = Some (Reg [] m u g)))"
  using assms(1) unfolding open_trunc_def
proof (cases rule: with_fault_cases)
  case (failed e)
  then show ?thesis using assms(2) lookup_nodes [OF failed(3)] by (auto intro: only_touches_mono plain_file_same)
next
  case (run w1)
  have p: "p \<noteq> ''/''" and pl: "plain_file p w1"
    using assms(2) plain_file_same [OF lookup_nodes [OF run(3)] assms(2)] by (simp_all add: plain_file_def)
  note f = follow_plain_file [OF pl]
  have t: "only_touches {p} w (put_node p n w1)" for n
    by (rule only_touches_trans [OF only_touches_mono [OF run(2)] only_touches_put]) simp
  from pl consider "lookup w1 p = None" | d m u g where "lookup w1 p = Some (Reg d m u g)" by (auto simp: plain_file_def)
  then show ?thesis
    by cases (use run(1) t p f pl only_touches_mono [OF run(2)] in \<open>auto simp: plain_file_def split: if_splits\<close>)
qed

lemma store_bytes_plain: "plain_file q w \<Longrightarrow> plain_file q (store_bytes q data w)"
  by (auto simp: plain_file_def store_bytes_def)

lemma write_close_plain:
  assumes "write_close q data w = (r, w')" and "plain_file q w"
  shows "plain_file q w'"
proof -
  obtain f w1 where f: "next_fault w = (f, w1)" by (cases "next_fault w")
  have p1: "plain_file q (store_bytes q d w1)" for d
    using plain_file_same [OF next_fault_lookup [OF f] assms(2)] by (rule store_bytes_plain)
  show ?thesis
  proof (cases f)
    case (Some en)
    with assms(1) f p1 show ?thesis by (cases en) (auto simp: write_close_def)
  next
    case None
    with assms(1) f have "with_fault (\<lambda>w2. (Inr (), w2)) (store_bytes q data w1) = (r, w')"
      by (simp add: write_close_def)
    then show ?thesis
      by (cases rule: with_fault_cases) (use p1 lookup_nodes plain_file_same in blast)+
  qed
qed

lemma os_WriteFile_plain:
  assumes "os_WriteFile p data perm w = (r, w')" and "plain_file p w"
  shows "only_touches {p} w w' \<and> plain_file p w' \<and> (\<forall>x. r = Inr x \<longrightarrow> (\<exists>m u g. lookup w' p = Some (Reg data m u g)))"
proof -
  have p: "p \<noteq> ''/''" using assms(2) by (simp add: plain_file_def)
  obtain r1 w1 where o: "open_trunc p perm w = (r1, w1)" by (cases "open_trunc p perm w")
  note o1 = open_trunc_plain [OF o assms(2)]
  show ?thesis
  proof (cases r1)
    case (Inl e)
    with assms(1) o o1 show ?thesis by (auto simp: os_WriteFile_def)
  next
    case (Inr q)
    with o1 obtain m u g where q: "q = p" "lookup w1 p = Some (Reg [] m u g)" by blast
    from assms(1) o Inr q have wc: "write_close p data w1 = (r, w')" by (simp add: os_WriteFile_def)
    note c = write_close_facts [OF wc p q(2)] write_close_plain [OF wc]
    show ?thesis using c o1 only_touches_trans by blast
  qed
qed

lemma discard_plain: "plain_file p w \<Longrightarrow> plain_file p (discard p w)"
proof -
  assume p: "plain_file p w"
  obtain r v where r: "os_Remove p w = (r, v)" by (cases "os_Remove p w")
  from os_Remove_removes [OF r] p have "plain_file p v" unfolding only_removes_def plain_file_def by metis
  with r show ?thesis by (simp add: discard_def)
qed

lemma os_Chown_plain:
  assumes "os_Chown p uid gid w = (r, w')" and "lookup w p = Some (Reg d m u g)" and "p \<noteq> ''/''"
  shows "\<exists>m' u' g'. lookup w' p = Some (Reg d m' u' g')"
  using assms(1) unfolding os_Chown_def
proof (cases rule: with_fault_cases)
  case (failed e)
  then show ?thesis using assms(2) lookup_nodes [OF failed(3)] by simp
next
  case (run w1)
  have l: "lookup w1 p = Some (Reg d m u g)" using lookup_nodes [OF run(3)] assms(2) by simp
  have f: "follow max_links w1 p = Some p" by (rule follow_plain) (simp add: l)
  from run(1) show ?thesis using assms(3) by (auto simp: f l)
qed

lemma fill_temp_plain:
  assumes "fill_temp config content p w = (r, w')" and "plain_file p w"
  shows "only_touches {p} w w' \<and> plain_file p w' \<and> (\<forall>x. r = Ok x \<longrightarrow> (\<exists>m u g. lookup w' p = Some (Reg content m u g))) \<and>
    (\<forall>q. r \<noteq> Panic q)"
proof -
  have p: "p \<noteq> ''/''" using assms(2) by (simp add: plain_file_def)
  obtain r1 w1 where o: "os_WriteFile p content (fc_Mode config) w = (r1, w1)"
    by (cases "os_WriteFile p content (fc_Mode config) w")
  note o1 = os_WriteFile_plain [OF o assms(2)]
  show ?thesis
  proof (cases r1)
    case (Inl e)
    with assms(1) o o1 show ?thesis by (auto simp: fill_temp_def)
  next
    case (Inr y)
    with o1 obtain m u g where l: "lookup w1 p = Some (Reg content m u g)" by blast
    show ?thesis
    proof (cases "0 \<le> fc_Owner config \<or> 0 \<le> fc_Group config")
      case False
      with assms(1) o Inr l o1 show ?thesis by (auto simp: fill_temp_def)
    next
      case True
      let ?uid = "if fc_Owner config < 0 then - 1 else fc_Owner config"
      let ?gid = "if fc_Group config < 0 then - 1 else fc_Group config"
      obtain r2 w2 where c: "os_Chown p ?uid ?gid w1 = (r2, w2)" by (cases "os_Chown p ?uid ?gid w1")
      have t: "only_touches {p} w w2" using o1 os_Chown_facts(1) [OF c p l] only_touches_trans by blast
      from os_Chown_plain [OF c l p] obtain m' u' g' where l2: "lookup w2 p = Some (Reg content m' u' g')" by blast
      note pl = plain_file_Reg [OF p l2]
      show ?thesis
      proof (cases r2)
        case (Inl e)
        with assms(1) o Inr True c have "r = Err (ChownFailed e)" "w' = discard p w2"
          by (auto simp: fill_temp_def Let_def)
        with only_touches_trans [OF t discard_touches] discard_plain [OF pl] show ?thesis by simp
      next
        case (Inr z)
        with assms(1) o \<open>r1 = Inr y\<close> True c have "r = Ok ()" "w' = w2"
          by (auto simp: fill_temp_def Let_def)
        with t l2 pl show ?thesis by auto
      qed
    qed
  qed
qed

lemma commit_temp_plain:
  assumes "commit_temp t p w = (r, w')" and "r \<noteq> Ok ()" and "plain_file t w"
  shows "plain_file t w'"
proof -
  obtain r1 w1 where c: "os_Rename t p w = (r1, w1)" by (cases "os_Rename t p w")
  with assms obtain e where e: "r1 = Inl e" "w' = discard t w1"
    by (auto simp: commit_temp_def split: sum.splits)
  have "w_nodes w1 = w_nodes w"
    using c [unfolded e(1)] unfolding os_Rename_def
    by (rule with_fault_cases) (auto split: if_splits option.splits)
  note lookup_nodes [OF this, of t]
  with assms(3) e(2) discard_plain plain_file_same show ?thesis by blast
qed

section \<open>What an observer sees\<close>

text \<open>
  \<open>evolves P F w w'\<close>: on the way from \<open>w\<close> to \<open>w'\<close>, at every moment, each name in \<open>P\<close> had its node of \<open>w\<close> or one that \<open>F\<close>
  allows.
\<close>

definition node_ok :: "(string \<Rightarrow> node \<Rightarrow> bool) \<Rightarrow> world \<Rightarrow> nodes \<Rightarrow> string \<Rightarrow> bool" where
  "node_ok F w ns p \<longleftrightarrow> map_of ns p = map_of (w_nodes w) p \<or> (\<exists>n. map_of ns p = Some n \<and> F p n)"

definition evolves :: "string set \<Rightarrow> (string \<Rightarrow> node \<Rightarrow> bool) \<Rightarrow> world \<Rightarrow> world \<Rightarrow> bool" where
  "evolves P F w w' \<longleftrightarrow>
     (\<exists>hs. w_hist w' = hs @ w_hist w \<and> (\<forall>ns \<in> set hs. \<forall>p \<in> P. node_ok F w ns p)) \<and>
     (\<forall>p \<in> P. node_ok F w (w_nodes w') p)"

lemma evolves_refl [simp]: "evolves P F w w"
  by (simp add: evolves_def node_ok_def)

lemma evolves_trans [trans]:
  assumes "evolves P F w v" and "evolves P F v u"
  shows "evolves P F w u"
proof -
  from assms obtain hs hs' where h: "w_hist v = hs @ w_hist w" "w_hist u = hs' @ w_hist v"
    "\<forall>ns \<in> set hs. \<forall>p \<in> P. node_ok F w ns p" "\<forall>ns \<in> set hs'. \<forall>p \<in> P. node_ok F v ns p"
    by (auto simp: evolves_def)
  have tr: "node_ok F w ns p" if "p \<in> P" "node_ok F v ns p" for ns p
    using that assms(1) by (auto simp: evolves_def node_ok_def)
  with h(4) have "\<forall>ns \<in> set hs'. \<forall>p \<in> P. node_ok F w ns p" by blast
  with h(3) have "\<forall>ns \<in> set (hs' @ hs). \<forall>p \<in> P. node_ok F w ns p" by auto
  moreover have "\<forall>p \<in> P. node_ok F w (w_nodes u) p" using assms(2) tr by (simp add: evolves_def)
  ultimately show ?thesis unfolding evolves_def using h(1,2) by (metis append.assoc)
qed

lemma evolves_touches: "only_touches T w w' \<Longrightarrow> T \<inter> P = {} \<Longrightarrow> evolves P F w w'"
  unfolding evolves_def only_touches_def node_ok_def by blast

lemma evolves_commit:
  assumes "w_hist w' = w_nodes w' # w_hist w" and "map_of (w_nodes w') = (map_of (w_nodes w))(p \<mapsto> n, t := None)"
    and "t \<notin> P" and "F p n"
  shows "evolves P F w w'"
proof -
  have "node_ok F w (w_nodes w') q" if "q \<in> P" for q
    using that assms(2-4) by (cases "q = p") (auto simp: node_ok_def)
  with assms(1) show ?thesis unfolding evolves_def by (intro conjI exI [of _ "[w_nodes w']"]) auto
qed

lemma evolves_lookup:
  assumes "evolves P F w w'" and "p \<in> P"
  shows "p = ''/'' \<or> lookup w' p = lookup w p \<or> (\<exists>n. lookup w' p = Some n \<and> F p n)"
  using assms by (auto simp: evolves_def node_ok_def lookup_def)

section \<open>One write\<close>

text \<open>The temporary names of all targets are plain; and a name that is neither a target nor used on the way to one.\<close>

definition clean_temps :: "string set \<Rightarrow> world \<Rightarrow> bool" where
  "clean_temps P w \<longleftrightarrow> (\<forall>p \<in> P. \<forall>r. CHR ''/'' \<notin> set r \<longrightarrow> plain_file (temp_name p r) w)"

definition aside :: "string set \<Rightarrow> string \<Rightarrow> bool" where
  "aside P t \<longleftrightarrow> t \<notin> P \<and>
     (\<forall>p \<in> P. t \<notin> set (dir_chain (filepath_Dir p)) \<and> (\<forall>r. CHR ''/'' \<notin> set r \<longrightarrow> t \<noteq> temp_name p r))"

definition harmless :: "string set \<Rightarrow> (string \<Rightarrow> node \<Rightarrow> bool) \<Rightarrow> world \<Rightarrow> world \<Rightarrow> bool" where
  "harmless P F w w' \<longleftrightarrow> evolves P F w w' \<and> (\<forall>t. aside P t \<longrightarrow> lookup w' t = lookup w t)"

lemma harmless_refl: "harmless P F w w"
  by (simp add: harmless_def)

lemma harmless_trans: "harmless P F w v \<Longrightarrow> harmless P F v u \<Longrightarrow> harmless P F w u"
  unfolding harmless_def using evolves_trans by metis

lemma temps_avoid:
  assumes "apart P" and "p \<in> P" and "q \<in> P" and "CHR ''/'' \<notin> set r"
  shows "temp_name p r \<notin> P" and "temp_name p r \<notin> set (dir_chain (filepath_Dir q))"
    and "p \<notin> set (dir_chain (filepath_Dir q))"
  using assms unfolding apart_def by blast+

lemma touches_temps:
  assumes "apart P" and "clean_temps P w" and "p \<in> P" and "CHR ''/'' \<notin> set s"
    and "only_touches (set (dir_chain (filepath_Dir p))) w v" and "only_touches {temp_name p s} v u"
    and "plain_file (temp_name p s) u"
  shows "clean_temps P u" and "harmless P F w u"
proof -
  have l: "lookup u q = lookup w q" if "q \<noteq> temp_name p s" "q \<notin> set (dir_chain (filepath_Dir p))" for q
    using only_touches_lookup [OF assms(5) that(2)] only_touches_lookup [OF assms(6), of q] that(1) by simp
  show "clean_temps P u"
    unfolding clean_temps_def
  proof (intro ballI allI impI)
    fix q r assume q: "q \<in> P" "CHR ''/'' \<notin> set (r :: string)"
    show "plain_file (temp_name q r) u"
    proof (cases "temp_name q r = temp_name p s")
      case False
      have "plain_file (temp_name q r) w" using assms(2) q by (simp add: clean_temps_def)
      with l [OF False temps_avoid(2) [OF assms(1) q(1) assms(3) q(2)]] show ?thesis by (rule plain_file_same)
    qed (use assms(7) in simp)
  qed
  have "set (dir_chain (filepath_Dir p)) \<inter> P = {}" "{temp_name p s} \<inter> P = {}"
    using temps_avoid(1,3) [OF assms(1)] assms(3,4) by auto
  with evolves_trans [OF evolves_touches [OF assms(5)] evolves_touches [OF assms(6)]] have "evolves P F w u" by blast
  moreover have "lookup u t = lookup w t" if "aside P t" for t
    using that assms(3,4) by (intro l) (auto simp: aside_def)
  ultimately show "harmless P F w u" by (simp add: harmless_def)
qed

lemma commit_in_use:
  assumes "apart P" and "clean_temps P u" and "p \<in> P" and "CHR ''/'' \<notin> set s"
    and "commit_temp (temp_name p s) p u = (Ok x, w')" and "lookup u (temp_name p s) = Some n" and "F p n"
  shows "clean_temps P w'" and "harmless P F u w'"
proof -
  let ?t = "temp_name p s"
  have path: "proper_path p" using assms(1,3) by (simp add: apart_def)
  note chain = proper_path_dir_chain [OF path assms(4)]
  have p: "p \<noteq> ''/''" using path by (simp add: proper_path_def)
  from commit_temp_ok [OF assms(5,6) chain(5) chain(6) p] have
    c: "w_hist w' = w_nodes w' # w_hist u" "map_of (w_nodes w') = (map_of (w_nodes u))(p \<mapsto> n, ?t := None)" by auto
  have tP: "?t \<notin> P" by (rule temps_avoid(1) [OF assms(1,3,3,4)])
  have l: "lookup w' q = (if q = ?t then None else lookup u q)" if "q \<noteq> p" for q
    using c(2) that chain(6) by (auto simp: lookup_def)
  show "clean_temps P w'"
    unfolding clean_temps_def
  proof (intro ballI allI impI)
    fix q r assume q: "q \<in> P" "CHR ''/'' \<notin> set (r :: string)"
    have "temp_name q r \<noteq> p" using temps_avoid(1) [OF assms(1) q(1) assms(3) q(2)] assms(3) by metis
    from l [OF this] assms(2) q show "plain_file (temp_name q r) w'" by (auto simp: clean_temps_def plain_file_def)
  qed
  have "evolves P F u w'" by (rule evolves_commit [of w' u p n ?t P F, OF c tP assms(7)])
  moreover have "lookup w' t = lookup u t" if "aside P t" for t
    using that assms(3,4) l [of t] by (auto simp: aside_def)
  ultimately show "harmless P F u w'" by (simp add: harmless_def)
qed

lemma WriteFile_in_use:
  assumes "apart P" and "clean_temps P w" and "fc_Path c \<in> P" and "WriteFile c d w = (r, w')"
    and "\<And>m u g. F (fc_Path c) (Reg d m u g)"
  shows "clean_temps P w' \<and> harmless P F w w' \<and> (\<forall>x. r \<noteq> Panic x)"
proof -
  let ?p = "fc_Path c"
  have path: "proper_path ?p" using assms(1,3) by (simp add: apart_def)
  have temp: "plain_file (temp_name ?p s) v"
    if "CHR ''/'' \<notin> set s" "only_touches (set (dir_chain (filepath_Dir ?p))) w v" for s v
    using only_touches_lookup [OF that(2) temps_avoid(2) [OF assms(1,3,3) that(1)]] assms(2,3) that(1)
    by (intro plain_file_same [of v "temp_name ?p s" w]) (auto simp: clean_temps_def)
  from assms(4) path show ?thesis
  proof (cases rule: WriteFile_prepare)
    case (stop e)
    note t = touches_temps [OF assms(1-3) _ stop(3) only_touches_refl temp [of "[]", OF _ stop(3)]]
    from t stop(1) show ?thesis by simp
  next
    case (go s v)
    let ?t = "temp_name ?p s"
    obtain r4 u where fl: "fill_temp c d ?t v = (r4, u)" by (cases "fill_temp c d ?t v")
    note f = fill_temp_plain [OF fl temp [OF go(1,3)]]
    then have fu: "only_touches {?t} v u" "plain_file ?t u" by blast+
    note u = touches_temps [OF assms(1-3) go(1,3) fu]
    show ?thesis
    proof (cases r4)
      case (Panic q)
      with f show ?thesis by blast
    next
      case (Err e)
      with go(4) fl have "r = Err e" "w' = u" by simp_all
      with u show ?thesis by simp
    next
      case filled: (Ok y)
      with go(4) fl have ct: "commit_temp ?t ?p u = (r, w')" by simp
      show ?thesis
      proof (cases "r = Ok ()")
        case True
        from f filled obtain m ui g where l: "lookup u ?t = Some (Reg d m ui g)" by blast
        note k = commit_in_use [where F = F, OF assms(1) u(1) assms(3) go(1) ct [unfolded True] l assms(5)]
        from k harmless_trans [OF u(2) k(2)] True show ?thesis by simp
      next
        case False
        note ce = commit_temp_err [OF ct False] commit_temp_plain [OF ct False fu(2)]
        note w = touches_temps [OF assms(1-3) go(1,3) only_touches_trans [OF fu(1) ce(1)] ce(3)]
        from False ce(2) obtain e where "r = Err e" by (cases r) auto
        with w show ?thesis by simp
      qed
    qed
  qed
qed

section \<open>The loop of the syncer\<close>

lemma write_each_related:
  assumes "write_each prep wrap wr xs w = (r, w')" and "I w"
    and "\<And>x c d v q v'. x \<in> set xs \<Longrightarrow> prep x = Ok (c, d) \<Longrightarrow> I v \<Longrightarrow> wr c d v = (q, v') \<Longrightarrow> I v' \<and> R v v'"
    and "\<And>v. R v v" and "\<And>a b c. R a b \<Longrightarrow> R b c \<Longrightarrow> R a c"
  shows "I w' \<and> R w w'"
  using assms(1-3)
proof (induction xs arbitrary: w)
  case Nil
  then show ?case using assms(4) by simp
next
  case (Cons x xs)
  show ?case
  proof (cases "prep x")
    case (Ok cd)
    obtain c d q v where cd: "cd = (c, d)" and q: "wr c d w = (q, v)" by (metis prod.exhaust)
    note s = Cons.prems(3) [OF _ Ok [unfolded cd] Cons.prems(2) q]
    show ?thesis
    proof (cases q)
      case (Ok u)
      with Cons.prems(1) \<open>prep x = Ok cd\<close> cd q have rest: "write_each prep wrap wr xs v = (r, w')" by simp
      have tail: "I b \<and> R a b" if "y \<in> set xs" "prep y = Ok (k, e)" "I a" "wr k e a = (z, b)" for y k e a z b
        using Cons.prems(3) [OF _ that(2-4)] that(1) by simp
      have "I w' \<and> R v w'" by (rule Cons.IH [OF rest]) (use s in simp, rule tail)
      with s assms(5) show ?thesis by auto
    qed (use Cons.prems(1) \<open>prep x = Ok cd\<close> cd q s in auto)
  qed (use Cons.prems(1,2) assms(4) in auto)
qed

section \<open>The status file\<close>

lemma touches_aside:
  assumes "only_touches {t} w w'" and "aside P t"
  shows "evolves P F w w'" and "clean_temps P w \<Longrightarrow> clean_temps P w'"
proof -
  show "evolves P F w w'" using assms by (intro evolves_touches) (auto simp: aside_def)
  assume c: "clean_temps P w"
  have "lookup w' (temp_name p r) = lookup w (temp_name p r)" if "p \<in> P" "CHR ''/'' \<notin> set r" for p r
    by (rule only_touches_lookup [OF assms(1)]) (use assms(2) that in \<open>auto simp: aside_def\<close>)
  with c show "clean_temps P w'" by (auto simp: clean_temps_def intro: plain_file_same)
qed

definition status_ok :: "string set \<Rightarrow> string \<Rightarrow> world \<Rightarrow> bool" where
  "status_ok P t w \<longleftrightarrow> t = [] \<or> aside P t \<and> plain_file t w \<and> \<not> contains_str (filepath_Base t) ''.tmp.''"

lemma SetReady_in_use:
  assumes "SetReady n k s w = (r, s', w')" and "status_ok P (st_StatusFile s) w" and "clean_temps P w"
  shows "clean_temps P w' \<and> evolves P F w w' \<and> status_ok P (st_StatusFile s) w' \<and> st_StatusFile s' = st_StatusFile s"
proof -
  let ?t = "st_StatusFile s"
  have s': "st_StatusFile s' = ?t"
    using assms(1) by (auto simp: SetReady_def Let_def split: if_splits prod.splits sum.splits)
  show ?thesis
  proof (cases "?t = []")
    case True
    with assms s' show ?thesis by (auto simp: SetReady_def Let_def)
  next
    case False
    with assms(2) have t: "aside P ?t" "plain_file ?t w" "\<not> contains_str (filepath_Base ?t) ''.tmp.''" by (simp_all add: status_ok_def)
    have "only_touches {?t} w w' \<and> plain_file ?t w'"
    proof (cases "0 < k")
      case True
      obtain q v where q: "os_WriteFile ?t ''ready'' 0x1A4 w = (q, v)" by (cases "os_WriteFile ?t ''ready'' 0x1A4 w")
      with assms(1) True False have "w' = v" by (auto simp: SetReady_def Let_def split: sum.splits)
      with os_WriteFile_plain [OF q t(2)] show ?thesis by simp
    next
      case notready: False
      with assms(1) False have "w' = discard ?t w" by (simp add: SetReady_def Let_def discard_def)
      with discard_touches discard_plain [OF t(2)] show ?thesis by simp
    qed
    with touches_aside(1) [of ?t w w' P F] touches_aside(2) [of ?t w w' P] t assms(3) s' show ?thesis by (simp add: status_ok_def)
  qed
qed

section \<open>The sweep\<close>

text \<open>Every name the sweep removes has \<open>.tmp.\<close> in its last element.\<close>

definition tmp_names :: "string set" where
  "tmp_names = {p. contains_str (filepath_Base p) ''.tmp.''}"

text \<open>At every moment only such names differ, and in the end they are as before or gone.\<close>

definition prunes :: "world \<Rightarrow> world \<Rightarrow> bool" where
  "prunes w w' \<longleftrightarrow> only_touches tmp_names w w' \<and> (\<forall>q. lookup w' q = lookup w q \<or> lookup w' q = None)"

lemma prunes_trans: "prunes w v \<Longrightarrow> prunes v u \<Longrightarrow> prunes w u"
  unfolding prunes_def using only_touches_trans by metis

lemma prunes_same: "only_touches {} w w' \<Longrightarrow> prunes w w'"
  by (auto simp: prunes_def only_touches_lookup intro: only_touches_mono)

lemma remove_matches_prunes: "set fs \<subseteq> tmp_names \<Longrightarrow> prunes w (snd (remove_matches fs k w))"
proof (induction fs arbitrary: k w)
  case Nil
  then show ?case by (simp add: prunes_same)
next
  case (Cons f fs)
  obtain r v where r: "os_Remove f w = (r, v)" by (cases "os_Remove f w")
  have "only_touches {f} w v" using discard_touches [of f w] r by (simp add: discard_def)
  then have "only_touches tmp_names w v" by (rule only_touches_mono) (use Cons.prems in simp)
  with os_Remove_removes [OF r] have "prunes w v" by (auto simp: prunes_def only_removes_def)
  with prunes_trans [OF this Cons.IH] Cons.prems r show ?case by (simp split: sum.split)
qed

lemma tmp_elem:
  assumes "contains_str (filepath_Base p) ''.tmp.''"
  shows "filepath_Base (path_Join [d, filepath_Base p]) = filepath_Base p"
proof -
  let ?n = "filepath_Base p"
  from assms obtain a b where n: "?n = a @ ''.tmp.'' @ b" by (auto simp: contains_str_iff)
  then have long: "5 \<le> length ?n" by simp
  have "?n = after_last_slash (strip_trailing_slashes p)"
    using long by (auto simp: filepath_Base_def Let_def split: if_splits)
  then have "CHR ''/'' \<notin> set ?n"
    by (auto simp: after_last_slash_def dest: set_takeWhileD)
  with long have "plain_elem ?n" "?n \<noteq> ''..''" by (auto simp: plain_elem_def)
  then show ?thesis by (rule Base_Join)
qed

lemma stat_touches: "os_Stat_call d w = (r, v) \<Longrightarrow> only_touches {} w v"
  unfolding os_Stat_call_def by (erule with_fault_cases) (auto split: option.splits)

lemma readdir_touches:
  assumes "os_Readdirnames d w = (r, v)"
  shows "only_touches {} w v \<and> (\<forall>ns. r = Inr ns \<longrightarrow> (\<forall>n \<in> set ns. \<exists>p. n = filepath_Base p))"
  using assms unfolding os_Readdirnames_def by (rule with_fault_cases) (auto split: option.splits)

lemma glob_touches:
  assumes "filepath_Glob_tmp glob d w = (ms, v)" and "\<not> has_meta d"
  shows "only_touches {} w v \<and> (\<exists>fs. ms = Some fs \<and> set fs \<subseteq> tmp_names)"
proof -
  obtain x w1 where st: "os_Stat_call d w = (x, w1)" by (cases "os_Stat_call d w")
  obtain y w2 where rd: "os_Readdirnames d w1 = (y, w2)" by (cases "os_Readdirnames d w1")
  note t1 = stat_touches [OF st] and t2 = readdir_touches [OF rd]
  note t = t1 only_touches_trans [OF t1 conjunct1 [OF t2]]
  show ?thesis
  proof (cases "x = Inr Dir \<and> (\<exists>ns. y = Inr ns)")
    case True
    then obtain ns where ns: "x = Inr Dir" "y = Inr ns" by blast
    have "filepath_Base (path_Join [d, n]) = n" if n: "n \<in> set ns" "contains_str n ''.tmp.''" for n
    proof -
      from n(1) ns(2) t2 obtain p where p: "n = filepath_Base p" by blast
      from tmp_elem [of p d] n(2) show ?thesis unfolding p .
    qed
    then have sub: "set (map (\<lambda>n. path_Join [d, n]) (filter (\<lambda>n. contains_str n ''.tmp.'') (sort ns))) \<subseteq> tmp_names"
      by (auto simp: tmp_names_def)
    have "ms = Some (map (\<lambda>n. path_Join [d, n]) (filter (\<lambda>n. contains_str n ''.tmp.'') (sort ns)))" "v = w2"
      using assms st rd ns by (simp_all add: filepath_Glob_tmp_def)
    with t(2) sub show ?thesis by blast
  next
    case False
    have "ms = Some []" "v = w1 \<or> v = w2"
      using assms st rd False by (auto simp: filepath_Glob_tmp_def split: sum.splits if_splits)
    with t show ?thesis by auto
  qed
qed

lemma clean_dir_prunes:
  assumes "\<not> has_meta d"
  shows "prunes w (snd (clean_dir glob d k w))"
proof -
  obtain x w1 where st: "os_Stat_call d w = (x, w1)" by (cases "os_Stat_call d w")
  obtain ms w2 where g: "filepath_Glob_tmp glob d w1 = (ms, w2)" by (cases "filepath_Glob_tmp glob d w1")
  from glob_touches [OF g assms] obtain fs where fs: "ms = Some fs" "set fs \<subseteq> tmp_names" "only_touches {} w1 w2" by blast
  have c: "snd (clean_dir glob d k w) = w \<or> snd (clean_dir glob d k w) = w1 \<or>
        snd (clean_dir glob d k w) = snd (remove_matches fs k w2)"
    using st g fs(1) by (auto simp: clean_dir_def split: sum.split errno.split)
  note p1 = prunes_same [OF stat_touches [OF st]]
  note p3 = prunes_trans [OF p1 prunes_trans [OF prunes_same [OF fs(3)] remove_matches_prunes [OF fs(2)]]]
  from c p1 p3 [of k] prunes_same [of w w] show ?thesis by auto
qed

lemma clean_dirs_prunes: "\<forall>d \<in> set ds. \<not> has_meta d \<Longrightarrow> prunes w (snd (clean_dirs glob ds k w))"
proof (induction ds arbitrary: k w)
  case Nil
  then show ?case by (simp add: prunes_same)
next
  case (Cons d ds)
  obtain j v where c: "clean_dir glob d k w = (j, v)" by (cases "clean_dir glob d k w")
  from clean_dir_prunes [of d w glob k] Cons.prems c have "prunes w v" by simp
  with prunes_trans [OF this Cons.IH] Cons.prems c show ?case by simp
qed

lemma sweep_in_use:
  assumes "\<forall>d \<in> set ds. \<not> has_meta d" and "\<forall>p \<in> P. p \<notin> tmp_names" and "clean_temps P w" and "status_ok P t w"
  shows "clean_temps P (snd (CleanupOrphanedTempFiles glob ds w)) \<and> evolves P F w (snd (CleanupOrphanedTempFiles glob ds w)) \<and>
    status_ok P t (snd (CleanupOrphanedTempFiles glob ds w))"
proof -
  let ?w = "snd (CleanupOrphanedTempFiles glob ds w)"
  have p: "prunes w ?w" unfolding CleanupOrphanedTempFiles_def by (rule clean_dirs_prunes [OF assms(1)])
  then have l: "lookup ?w q = lookup w q \<or> lookup ?w q = None" for q by (simp add: prunes_def)
  have pl: "plain_file q ?w" if "plain_file q w" for q using that l [of q] by (auto simp: plain_file_def)
  have "evolves P F w ?w" using p assms(2) by (intro evolves_touches [of tmp_names]) (auto simp: prunes_def)
  with assms(3,4) pl show ?thesis by (auto simp: clean_temps_def status_ok_def)
qed

end
