(* ===== verification/Writer_Steps.thy ===== *)
theory Writer_Steps
  imports Writer_Leftovers
begin

text \<open>
  \<open>WriteFile\<close> of \<open>internal/filewriter/writer.go\<close>, one system call at a time.  The goroutines of the scheduler write at the same
  time, and the sweep runs beside them, so what a write guarantees has to hold when other calls come between its own.  A
  writer is a configuration, a content and a phase; a turn makes its next system call.  Run alone it is \<open>WriteFile\<close>,
  and however the turns are interleaved it ends after a fixed number of its own.
\<close>

section \<open>The phases of a write\<close>

datatype phase =
    Checking
  | MakingDirs "string list"
  | Opening string
  | Storing string string
  | Owning string
  | Renaming string
  | Removing string write_error
  | Finished "(write_error, unit) outcome"

definition missing_dirs :: "FileConfig \<Rightarrow> string list" where
  "missing_dirs config =
     (let dir = filepath_Dir (fc_Path config) in if dir = [] \<or> dir = ''.'' then [] else dir_chain dir)"

text \<open>
  A turn.  The name of the temporary file is drawn when no directory is left to make; writing and closing are one turn,
  since closing changes nothing an observer can see.
\<close>

fun writer_turn :: "FileConfig \<Rightarrow> string \<Rightarrow> phase \<Rightarrow> world \<Rightarrow> phase \<times> world" where
  "writer_turn config content Checking w =
     (if MaxSecretSize < length content then (Finished (Err (ContentTooLarge (length content))), w)
      else (case validatePath (fc_Path config) of
          Err e \<Rightarrow> (Finished (Err (InvalidWritePath e)), w)
        | Panic p \<Rightarrow> (Finished (Panic p), w)
        | Ok _ \<Rightarrow>
            (case validateFileType (fc_Path config) w of
               (Err e, w1) \<Rightarrow> (Finished (Err (InvalidFileType e)), w1)
             | (Panic p, w1) \<Rightarrow> (Finished (Panic p), w1)
             | (Ok _, w1) \<Rightarrow> (MakingDirs (missing_dirs config), w1))))"
| "writer_turn config content (MakingDirs []) w =
     (case randomString 8 w of (r, w1) \<Rightarrow> (Opening (temp_name (fc_Path config) r), w1))"
| "writer_turn config content (MakingDirs (d # ds)) w =
     (case mkdir_chain [d] w of
        (Inl e, w1) \<Rightarrow> (Finished (Err (MkdirFailed e)), w1)
      | (Inr _, w1) \<Rightarrow> (MakingDirs ds, w1))"
| "writer_turn config content (Opening tmpFile) w =
     (case open_trunc tmpFile (fc_Mode config) w of
        (Inl e, w1) \<Rightarrow> (Finished (Err (TempWriteFailed e)), w1)
      | (Inr q, w1) \<Rightarrow> (Storing tmpFile q, w1))"
| "writer_turn config content (Storing tmpFile q) w =
     (case write_close q content w of
        (Inl e, w1) \<Rightarrow> (Finished (Err (TempWriteFailed e)), w1)
      | (Inr _, w1) \<Rightarrow>
          (if 0 \<le> fc_Owner config \<or> 0 \<le> fc_Group config then Owning tmpFile else Renaming tmpFile, w1))"
| "writer_turn config content (Owning tmpFile) w =
     (let uid = (if fc_Owner config < 0 then - 1 else fc_Owner config);
          gid = (if fc_Group config < 0 then - 1 else fc_Group config)
      in (case os_Chown tmpFile uid gid w of
            (Inl e, w1) \<Rightarrow> (Removing tmpFile (ChownFailed e), w1)
          | (Inr _, w1) \<Rightarrow> (Renaming tmpFile, w1)))"
| "writer_turn config content (Renaming tmpFile) w =
     (case os_Rename tmpFile (fc_Path config) w of
        (Inl e, w1) \<Rightarrow> (Removing tmpFile (RenameFailed e), w1)
      | (Inr _, w1) \<Rightarrow> (Finished (Ok ()), w1))"
| "writer_turn config content (Removing tmpFile e) w = (Finished (Err e), discard tmpFile w)"
| "writer_turn config content (Finished r) w = (Finished r, w)"

text \<open>A writer that runs alone for \<open>n\<close> turns.\<close>

fun run_writer :: "nat \<Rightarrow> FileConfig \<Rightarrow> string \<Rightarrow> phase \<Rightarrow> world \<Rightarrow> phase \<times> world" where
  "run_writer 0 config content ph w = (ph, w)"
| "run_writer (Suc n) config content ph w =
     (case writer_turn config content ph w of (ph', w') \<Rightarrow> run_writer n config content ph' w')"

text \<open>How many turns a writer can still need.\<close>

fun turns_left :: "FileConfig \<Rightarrow> phase \<Rightarrow> nat" where
  "turns_left config Checking = length (missing_dirs config) + 7"
| "turns_left config (MakingDirs ds) = length ds + 6"
| "turns_left config (Opening t) = 5"
| "turns_left config (Storing t q) = 4"
| "turns_left config (Owning t) = 3"
| "turns_left config (Renaming t) = 2"
| "turns_left config (Removing t e) = 1"
| "turns_left config (Finished r) = 0"

section \<open>A writer alone is \<open>WriteFile\<close>\<close>

text \<open>What is left of \<open>WriteFile\<close> in each phase.\<close>

definition after_fill ::
  "FileConfig \<Rightarrow> string \<Rightarrow> (write_error, unit) outcome \<times> world \<Rightarrow> (write_error, unit) outcome \<times> world" where
  "after_fill config tmpFile s =
     (case s of (Ok _, w) \<Rightarrow> commit_temp tmpFile (fc_Path config) w | (Err e, w) \<Rightarrow> (Err e, w) | (Panic p, w) \<Rightarrow> (Panic p, w))"

definition own_temp :: "FileConfig \<Rightarrow> string \<Rightarrow> world \<Rightarrow> (write_error, unit) outcome \<times> world" where
  "own_temp config tmpFile w =
     (let uid = (if fc_Owner config < 0 then - 1 else fc_Owner config);
          gid = (if fc_Group config < 0 then - 1 else fc_Group config)
      in (case os_Chown tmpFile uid gid w of
            (Inl e, w1) \<Rightarrow> (Err (ChownFailed e), discard tmpFile w1)
          | (Inr _, w1) \<Rightarrow> (Ok (), w1)))"

fun rest_of :: "FileConfig \<Rightarrow> string \<Rightarrow> phase \<Rightarrow> world \<Rightarrow> (write_error, unit) outcome \<times> world" where
  "rest_of config content Checking w = WriteFile config content w"
| "rest_of config content (MakingDirs ds) w =
     (case mkdir_chain ds w of
        (Inl e, w1) \<Rightarrow> (Err (MkdirFailed e), w1)
      | (Inr _, w1) \<Rightarrow>
          (case randomString 8 w1 of (r, w2) \<Rightarrow>
             after_fill config (temp_name (fc_Path config) r)
               (fill_temp config content (temp_name (fc_Path config) r) w2)))"
| "rest_of config content (Opening t) w = after_fill config t (fill_temp config content t w)"
| "rest_of config content (Storing t q) w =
     (case write_close q content w of
        (Inl e, w1) \<Rightarrow> (Err (TempWriteFailed e), w1)
      | (Inr _, w1) \<Rightarrow>
          after_fill config t (if 0 \<le> fc_Owner config \<or> 0 \<le> fc_Group config then own_temp config t w1 else (Ok (), w1)))"
| "rest_of config content (Owning t) w = after_fill config t (own_temp config t w)"
| "rest_of config content (Renaming t) w = commit_temp t (fc_Path config) w"
| "rest_of config content (Removing t e) w = (Err e, discard t w)"
| "rest_of config content (Finished r) w = (r, w)"

lemma mkdir_chain_split:
  "mkdir_chain (d # ds) w = (case mkdir_chain [d] w of (Inl e, w1) \<Rightarrow> (Inl e, w1) | (Inr _, w1) \<Rightarrow> mkdir_chain ds w1)"
  by (auto split: option.split node.split prod.split)

lemma ensureDir_missing: "ensureDir (filepath_Dir (fc_Path config)) w = mkdir_chain (missing_dirs config) w"
  by (simp add: ensureDir_def missing_dirs_def os_MkdirAll_def Let_def)

lemma turn_rest:
  assumes "writer_turn config content ph w = (ph', w')"
  shows "rest_of config content ph' w' = rest_of config content ph w"
proof (cases ph)
  case Checking
  obtain x w1 where v: "validateFileType (fc_Path config) w = (x, w1)" by (cases "validateFileType (fc_Path config) w")
  with assms Checking show ?thesis
    by (auto simp: WriteFile_def after_fill_def ensureDir_missing Let_def split: if_split_asm outcome.splits sum.split prod.split)
next
  case (MakingDirs ds)
  show ?thesis
  proof (cases ds)
    case (Cons d ds')
    with assms MakingDirs show ?thesis by (auto simp del: mkdir_chain.simps simp: mkdir_chain_split [of d ds'] split: sum.splits prod.splits)
  qed (use assms MakingDirs in \<open>auto split: prod.splits\<close>)
next
  case (Opening t)
  with assms show ?thesis
    by (auto simp: fill_temp_def os_WriteFile_def after_fill_def own_temp_def Let_def split: sum.splits prod.splits)
next
  case (Storing t q)
  with assms show ?thesis by (auto simp: after_fill_def split: sum.splits prod.splits)
next
  case (Owning t)
  with assms show ?thesis by (auto simp: after_fill_def own_temp_def Let_def split: sum.splits prod.splits)
next
  case (Renaming t)
  with assms show ?thesis by (auto simp: commit_temp_def split: sum.splits prod.splits)
qed (use assms in auto)

lemma turn_decreases:
  assumes "writer_turn config content ph w = (ph', w')"
  shows "turns_left config ph' \<le> turns_left config ph - 1"
  using assms by (cases "(config, content, ph, w)" rule: writer_turn.cases)
    (auto simp: Let_def split: if_split_asm outcome.splits sum.splits prod.splits simp del: mkdir_chain.simps)

lemma no_turns_left: "turns_left config ph = 0 \<Longrightarrow> \<exists>r. ph = Finished r"
  by (cases ph) auto

lemma run_writer_rest:
  assumes "turns_left config ph \<le> n"
  shows "\<exists>r w'. run_writer n config content ph w = (Finished r, w') \<and> rest_of config content ph w = (r, w')"
  using assms
proof (induction n arbitrary: ph w)
  case 0
  then obtain r where "ph = Finished r" using no_turns_left by auto
  then show ?case by simp
next
  case (Suc n)
  obtain ph1 w1 where t: "writer_turn config content ph w = (ph1, w1)" by (rule prod.exhaust)
  have "turns_left config ph1 \<le> n" using turn_decreases [OF t] Suc.prems by simp
  from Suc.IH [OF this, of w1] turn_rest [OF t] t show ?case by simp
qed

text \<open>
  The stepwise writer implements \<open>WriteFile\<close>.  Run alone, with at least as many turns as there are directories on
  the way to the target plus seven, it has finished with the result of \<open>WriteFile\<close> and has left the same disk, history
  included, whatever the arguments, the disk and the faults are.
\<close>

lemma writer_refines_WriteFile:
  assumes "length (missing_dirs config) + 7 \<le> n"
  shows "run_writer n config content Checking w =
    (Finished (fst (WriteFile config content w)), snd (WriteFile config content w))"
proof -
  have "turns_left config Checking \<le> n" using assms by simp
  from run_writer_rest [OF this, of content w] show ?thesis by auto
qed

end
