(* ===== verification/Syncer_Steps.thy ===== *)
theory Syncer_Steps
  imports Syncer_Theorems Writer_Steps
begin

text \<open>
  \<open>SyncSecret\<close> of \<open>internal/syncer/syncer.go\<close>, one access to shared state at a time.  All jobs share one syncer, so its map
  of clients, the clients themselves (\<open>SetNamespace\<close> changes a client that others use), the circuit breaker, the server and
  the disk change between the accesses of one synchronisation.  Clients are objects in a store here, and the pool maps
  credential names to their addresses.  Run alone, a stepwise synchronisation is \<open>SyncSecret\<close>.
\<close>

section \<open>The shared state\<close>

record 'w shared =
  sh_clients :: "Client list"
  sh_pool :: "(string \<times> nat) list"
  sh_vault :: 'w
  sh_disk :: world

text \<open>The same state with the clients in the pool itself, as \<open>SyncSecret\<close> has it.\<close>

definition deref :: "Client list \<Rightarrow> (string \<times> nat) list \<Rightarrow> (string \<times> Client) list" where
  "deref clients pool = map (\<lambda>(n, a). (n, clients ! a)) pool"

definition flat :: "'w shared \<Rightarrow> 'w sync_state" where
  "flat sh = \<lparr>sy_pool = deref (sh_clients sh) (sh_pool sh), sy_vault = sh_vault sh, sy_disk = sh_disk sh\<rparr>"

definition pool_ok :: "Client list \<Rightarrow> (string \<times> nat) list \<Rightarrow> bool" where
  "pool_ok clients pool \<longleftrightarrow> distinct (map fst pool) \<and> distinct (map snd pool) \<and> (\<forall>(n, a) \<in> set pool. a < length clients)"

section \<open>The phases of a synchronisation\<close>

text \<open>The local variables of the retry loop.\<close>

record retry_vars =
  rt_left :: nat
  rt_attempt :: nat
  rt_backoff :: int
  rt_lastErr :: "vault_error option"

definition first_attempt :: "RetryConfig \<Rightarrow> retry_vars" where
  "first_attempt config =
     \<lparr>rt_left = nat (rc_MaxRetries config + 1), rt_attempt = 0, rt_backoff = rc_InitialBackoff config, rt_lastErr = None\<rparr>"

definition next_attempt :: "vault_error \<Rightarrow> retry_vars \<Rightarrow> retry_vars" where
  "next_attempt e rt = rt\<lparr>rt_left := rt_left rt - 1, rt_attempt := Suc (rt_attempt rt), rt_lastErr := Some e\<rparr>"

definition after_pause :: "(f64 \<Rightarrow> int) \<Rightarrow> RetryConfig \<Rightarrow> retry_vars \<Rightarrow> retry_vars" where
  "after_pause oor config rt =
     (if 0 < rt_attempt rt then rt\<lparr>rt_backoff := next_backoff oor config (rt_backoff rt)\<rparr> else rt)"

datatype sync_phase =
    Looking
  | Creating CredentialSet
  | Pooling nat
  | Attempting nat retry_vars
  | Naming nat retry_vars
  | Reading nat retry_vars
  | Reporting nat retry_vars "vault_error + response"
  | Rendering_data SecretData
  | Next_file "(string \<times> string) list" "File list"
  | In_file "(string \<times> string) list" "File list" FileConfig string phase
  | Synced "(sync_error, unit) outcome"

definition read_path :: "Secret \<Rightarrow> string" where
  "read_path s = secret_path (sec_MountPath s) (sec_Key s) (sec_KVVersion s)"

definition read_namespace :: "Config \<Rightarrow> Secret \<Rightarrow> string" where
  "read_namespace cfg s = ResolveNamespace s (ss_Namespace (cfg_SecretStore cfg))"

definition named :: "string \<Rightarrow> Client \<Rightarrow> Client" where
  "named namespace c = (if namespace \<noteq> [] then SetNamespace namespace c else c)"

text \<open>The end of \<open>FetchSecret\<close>: the breaker, when there is one, hears of the result, and the answer is unpacked.\<close>

definition conclude_read :: "'w vault_api \<Rightarrow> Secret \<Rightarrow> Client \<Rightarrow> vault_error + response \<Rightarrow> 'w \<Rightarrow> (vault_error + SecretData) \<times> 'w" where
  "conclude_read api s c r w =
     (case (cl_breaker c, r) of
        (None, Inl e) \<Rightarrow> (Inl (Wrapped InRead e), w)
      | (Some b, Inl e) \<Rightarrow> (Inl (Wrapped InRead (Wrapped InBreaker e)), br_Report api b False w)
      | (None, Inr x) \<Rightarrow> (unpack_secret (sec_KVVersion s) (sec_Key s) x, w)
      | (Some b, Inr x) \<Rightarrow> (unpack_secret (sec_KVVersion s) (sec_Key s) x, br_Report api b True w))"

text \<open>
  A turn.  It makes one access to the state that others share and whatever local work follows; the pause between two
  attempts belongs to the turn that tries again, since any number of turns of others may come before that.
\<close>

fun sync_turn ::
  "('w, 't) sync_env \<Rightarrow> (nat \<Rightarrow> bool) \<Rightarrow> Config \<Rightarrow> Secret \<Rightarrow> sync_phase \<Rightarrow> 'w shared \<Rightarrow> sync_phase \<times> 'w shared" where
  "sync_turn env cancelled cfg s Looking sh =
     (let credName = ResolveCredentials s in
      (case GetCredentials (cfg_SecretStore cfg) credName of
         None \<Rightarrow> (Synced (Err (CredsUnknown credName)), sh)
       | Some creds \<Rightarrow>
           (case map_of (sh_pool sh) credName of
              Some a \<Rightarrow> (Attempting a (first_attempt (sv_retry env)), sh)
            | None \<Rightarrow> (Creating creds, sh))))"
| "sync_turn env cancelled cfg s (Creating creds) sh =
     (case sv_factory env creds (sh_vault sh) of
        (Inl e, w) \<Rightarrow> (Synced (Err (ClientCreation (ResolveCredentials s) e)), sh\<lparr>sh_vault := w\<rparr>)
      | (Inr client, w) \<Rightarrow>
          (Pooling (length (sh_clients sh)), sh\<lparr>sh_vault := w, sh_clients := sh_clients sh @ [client]\<rparr>))"
| "sync_turn env cancelled cfg s (Pooling a) sh =
     (Attempting a (first_attempt (sv_retry env)), sh\<lparr>sh_pool := AList.update (ResolveCredentials s) a (sh_pool sh)\<rparr>)"
| "sync_turn env cancelled cfg s (Attempting a rt) sh =
     (if rt_left rt = 0 then
        (Synced (Err (FetchFailed (RetriesExhausted (rc_MaxRetries (sv_retry env)) (rt_lastErr rt)))), sh)
      else if 0 < rt_attempt rt \<and> cancelled (rt_attempt rt) then (Synced (Err (FetchFailed ContextCancelled)), sh)
      else
        let rt' = after_pause (sv_oor env) (sv_retry env) rt in
        (case cl_breaker (sh_clients sh ! a) of
           None \<Rightarrow> (Naming a rt', sh)
         | Some b \<Rightarrow>
             (case br_Admit (sv_api env) b (sh_vault sh) of
                (Some e, w) \<Rightarrow>
                  (Attempting a (next_attempt (Wrapped InRead (Wrapped InBreaker (BreakerOpen e))) rt'), sh\<lparr>sh_vault := w\<rparr>)
              | (None, w) \<Rightarrow> (Naming a rt', sh\<lparr>sh_vault := w\<rparr>))))"
| "sync_turn env cancelled cfg s (Naming a rt) sh =
     (Reading a rt, sh\<lparr>sh_clients := (sh_clients sh)[a := named (read_namespace cfg s) (sh_clients sh ! a)]\<rparr>)"
| "sync_turn env cancelled cfg s (Reading a rt) sh =
     (case api_call (\<lambda>ses. api_Read (sv_api env) ses (read_path s)) SecretPtr (sh_clients sh ! a) (sh_vault sh) of
        (r, _, w) \<Rightarrow> (Reporting a rt r, sh\<lparr>sh_vault := w\<rparr>))"
| "sync_turn env cancelled cfg s (Reporting a rt r) sh =
     (case conclude_read (sv_api env) s (sh_clients sh ! a) r (sh_vault sh) of
        (Inl e, w) \<Rightarrow> (Attempting a (next_attempt e rt), sh\<lparr>sh_vault := w\<rparr>)
      | (Inr data, w) \<Rightarrow> (Rendering_data data, sh\<lparr>sh_vault := w\<rparr>))"
| "sync_turn env cancelled cfg s (Rendering_data data) sh =
     (case render_secret env s data of
        Err e \<Rightarrow> (Synced (Err e), sh)
      | Panic p \<Rightarrow> (Synced (Panic p), sh)
      | Ok rendered \<Rightarrow> (Next_file rendered (sec_Files s), sh))"
| "sync_turn env cancelled cfg s (Next_file rendered []) sh = (Synced (Ok ()), sh)"
| "sync_turn env cancelled cfg s (Next_file rendered (f # fs)) sh =
     (case prepare_file (file_to_template (keys (sec_TemplateData s)) (sec_Files s)) rendered f of
        Err e \<Rightarrow> (Synced (Err e), sh)
      | Panic p \<Rightarrow> (Synced (Panic p), sh)
      | Ok (fc, content) \<Rightarrow> (In_file rendered fs fc content Checking, sh))"
| "sync_turn env cancelled cfg s (In_file rendered fs fc content ph) sh =
     (case ph of
        Finished (Ok _) \<Rightarrow> (Next_file rendered fs, sh)
      | Finished (Err e) \<Rightarrow> (Synced (Err (WriteFailure (fc_Path fc) e)), sh)
      | Finished (Panic p) \<Rightarrow> (Synced (Panic p), sh)
      | _ \<Rightarrow> (case writer_turn fc content ph (sh_disk sh) of
                (ph', d) \<Rightarrow> (In_file rendered fs fc content ph', sh\<lparr>sh_disk := d\<rparr>)))"
| "sync_turn env cancelled cfg s (Synced r) sh = (Synced r, sh)"

lemma sync_turn_write:
  "\<forall>r. ph \<noteq> Finished r \<Longrightarrow> writer_turn fc content ph (sh_disk sh) = (ph', d) \<Longrightarrow>
   sync_turn env cancelled cfg s (In_file rendered fs fc content ph) sh = (In_file rendered fs fc content ph', sh\<lparr>sh_disk := d\<rparr>)"
  by (cases ph) (simp_all del: writer_turn.simps)

fun run_sync ::
  "nat \<Rightarrow> ('w, 't) sync_env \<Rightarrow> (nat \<Rightarrow> bool) \<Rightarrow> Config \<Rightarrow> Secret \<Rightarrow> sync_phase \<Rightarrow> 'w shared \<Rightarrow> sync_phase \<times> 'w shared" where
  "run_sync 0 env cancelled cfg s ph sh = (ph, sh)"
| "run_sync (Suc n) env cancelled cfg s ph sh =
     (case sync_turn env cancelled cfg s ph sh of (ph', sh') \<Rightarrow> run_sync n env cancelled cfg s ph' sh')"

section \<open>How many turns\<close>

definition path_turns :: "string \<Rightarrow> nat" where
  "path_turns p = length (missing_dirs \<lparr>fc_Path = p, fc_Mode = 0, fc_Owner = 0, fc_Group = 0\<rparr>) + 9"

definition files_turns :: "File list \<Rightarrow> nat" where
  "files_turns fs = sum_list (map (\<lambda>f. path_turns (file_Path f)) fs)"

fun sync_left :: "RetryConfig \<Rightarrow> Secret \<Rightarrow> sync_phase \<Rightarrow> nat" where
  "sync_left config s Looking = 4 * nat (rc_MaxRetries config + 1) + files_turns (sec_Files s) + 6"
| "sync_left config s (Creating creds) = 4 * nat (rc_MaxRetries config + 1) + files_turns (sec_Files s) + 5"
| "sync_left config s (Pooling a) = 4 * nat (rc_MaxRetries config + 1) + files_turns (sec_Files s) + 4"
| "sync_left config s (Attempting a rt) = 4 * rt_left rt + files_turns (sec_Files s) + 3"
| "sync_left config s (Naming a rt) = 4 * (rt_left rt - 1) + files_turns (sec_Files s) + 6"
| "sync_left config s (Reading a rt) = 4 * (rt_left rt - 1) + files_turns (sec_Files s) + 5"
| "sync_left config s (Reporting a rt r) = 4 * (rt_left rt - 1) + files_turns (sec_Files s) + 4"
| "sync_left config s (Rendering_data data) = files_turns (sec_Files s) + 2"
| "sync_left config s (Next_file rendered fs) = files_turns fs + 1"
| "sync_left config s (In_file rendered fs fc content ph) = turns_left fc ph + files_turns fs + 2"
| "sync_left config s (Synced r) = 0"

lemma missing_dirs_path: "length (missing_dirs fc) + 9 = path_turns (fc_Path fc)"
  by (simp add: path_turns_def missing_dirs_def)

lemma sync_turn_decreases:
  assumes "sync_turn env cancelled cfg s ph sh = (ph', sh')"
  shows "sync_left (sv_retry env) s ph' \<le> sync_left (sv_retry env) s ph - 1"
proof (cases ph)
  case (Next_file rendered fs)
  show ?thesis
  proof (cases fs)
    case (Cons f gs)
    let ?prep = "prepare_file (file_to_template (keys (sec_TemplateData s)) (sec_Files s)) rendered f"
    show ?thesis
    proof (cases ?prep)
      case (Ok x)
      then obtain fc c where p: "?prep = Ok (fc, c)" by (cases x) simp
      then have "length (missing_dirs fc) + 9 = path_turns (file_Path f)"
        using missing_dirs_path [of fc] prepare_file_Ok(1) by fastforce
      moreover have "ph' = In_file rendered gs fc c Checking" using assms Next_file Cons p by simp
      ultimately show ?thesis using Next_file Cons by (simp add: files_turns_def)
    qed (use assms Next_file Cons in auto)
  qed (use assms Next_file in auto)
next
  case (In_file rendered fs fc content wp)
  show ?thesis
  proof (cases "\<exists>r. wp = Finished r")
    case False
    obtain wp' d where t: "writer_turn fc content wp (sh_disk sh) = (wp', d)" by (rule prod.exhaust)
    with assms In_file False sync_turn_write [OF _ t] have "ph' = In_file rendered fs fc content wp'" by auto
    with turn_decreases [OF t] no_turns_left [of fc wp] False In_file show ?thesis by (cases "turns_left fc wp") auto
  qed (use assms In_file in \<open>auto split: outcome.splits\<close>)
qed (use assms in \<open>auto simp: Let_def next_attempt_def after_pause_def first_attempt_def
       split: if_splits option.splits sum.splits outcome.splits prod.splits\<close>)

lemma no_sync_left: "sync_left config s ph = 0 \<Longrightarrow> \<exists>r. ph = Synced r"
  by (cases ph) auto

section \<open>A synchronisation alone is \<open>SyncSecret\<close>\<close>

subsection \<open>The store of clients\<close>

lemma deref_lookup: "map_of (deref clients pool) n = map_option ((!) clients) (map_of pool n)"
  by (induction pool) (auto simp: deref_def)

lemma deref_other: "a \<notin> snd ` set pool \<Longrightarrow> deref (clients[a := c]) pool = deref clients pool"
  by (induction pool) (auto simp: deref_def)

lemma deref_set:
  assumes "pool_ok clients pool" and "map_of pool n = Some a"
  shows "deref (clients[a := c]) pool = AList.update n c (deref clients pool)"
  using assms
proof (induction pool)
  case (Cons x pool)
  obtain m b where x: "x = (m, b)" by (cases x)
  have ok: "pool_ok clients pool" "b \<notin> snd ` set pool" "b < length clients" using Cons.prems(1) x by (auto simp: pool_ok_def)
  show ?case
  proof (cases "m = n")
    case True
    with Cons.prems(2) x have "b = a" by simp
    moreover have "deref (clients[a := c]) pool = deref clients pool"
      using ok(2) \<open>b = a\<close> by (simp add: deref_other)
    ultimately show ?thesis using True x ok(3) by (simp add: deref_def)
  next
    case False
    with Cons.prems(2) x have p: "map_of pool n = Some a" by simp
    then have "a \<noteq> b" using ok(2) map_of_SomeD by force
    with False Cons.IH [OF ok(1) p] x show ?thesis by (simp add: deref_def)
  qed
qed simp

lemma deref_grow: "pool_ok clients pool \<Longrightarrow> deref (clients @ [c]) pool = deref clients pool"
  by (auto simp: deref_def pool_ok_def nth_append)

lemma update_new: "map_of al n = None \<Longrightarrow> AList.update n v al = al @ [(n, v)]"
  by (induction al) (auto split: if_splits)

lemma deref_new:
  "map_of pool n = None \<Longrightarrow> deref clients (AList.update n a pool) = AList.update n (clients ! a) (deref clients pool)"
  using update_new [of "deref clients pool" n] by (simp add: update_new deref_lookup) (simp add: deref_def)

lemma pool_ok_new:
  assumes "pool_ok clients pool" and "map_of pool n = None" and "a < length clients" and "a \<notin> snd ` set pool"
  shows "pool_ok clients (AList.update n a pool)"
  using assms by (auto simp: pool_ok_def update_new map_of_eq_None_iff)

subsection \<open>What is left to do\<close>

text \<open>The part of \<open>SyncSecret\<close> after the fetch, and the retry loop from the middle.\<close>

definition write_rest ::
  "Secret \<Rightarrow> (string \<times> string) list \<Rightarrow> File list \<Rightarrow> 'w sync_state \<Rightarrow> (sync_error, unit) outcome \<times> 'w sync_state" where
  "write_rest s rendered fs st =
     (case write_each (prepare_file (file_to_template (keys (sec_TemplateData s)) (sec_Files s)) rendered)
              (\<lambda>fc. WriteFailure (fc_Path fc)) WriteFile fs (sy_disk st) of
        (q, d) \<Rightarrow> (q, st\<lparr>sy_disk := d\<rparr>))"

definition render_rest ::
  "('w, 't) sync_env \<Rightarrow> Secret \<Rightarrow> SecretData \<Rightarrow> 'w sync_state \<Rightarrow> (sync_error, unit) outcome \<times> 'w sync_state" where
  "render_rest env s data st =
     (case render_secret env s data of
        Err e \<Rightarrow> (Err e, st) | Panic p \<Rightarrow> (Panic p, st) | Ok rendered \<Rightarrow> write_rest s rendered (sec_Files s) st)"

definition after_fetch ::
  "('w, 't) sync_env \<Rightarrow> Secret \<Rightarrow> 'w sync_state \<Rightarrow> (vault_error + SecretData) \<times> Client \<times> 'w \<Rightarrow>
   (sync_error, unit) outcome \<times> 'w sync_state" where
  "after_fetch env s st x =
     (case x of (r, client, w) \<Rightarrow>
        (let st1 = st\<lparr>sy_pool := AList.update (ResolveCredentials s) client (sy_pool st), sy_vault := w\<rparr> in
         (case r of Inl e \<Rightarrow> (Err (FetchFailed e), st1) | Inr data \<Rightarrow> render_rest env s data st1)))"

definition retry_rest ::
  "('w, 't) sync_env \<Rightarrow> (nat \<Rightarrow> bool) \<Rightarrow> Config \<Rightarrow> Secret \<Rightarrow> retry_vars \<Rightarrow> Client \<Rightarrow> 'w \<Rightarrow>
   (vault_error + SecretData) \<times> Client \<times> 'w" where
  "retry_rest env cancelled cfg s rt c w =
     (case retry_loop (sv_oor env) (sv_retry env) cancelled
             (\<lambda>(c, w). FetchSecret (sv_api env) (sec_MountPath s) (sec_Key s) (sec_KVVersion s) (read_namespace cfg s) c w)
             (rt_left rt) (rt_attempt rt) (rt_backoff rt) (rt_lastErr rt) (c, w) of
        (r, ws, c', w') \<Rightarrow> (r, c', w'))"

definition conclude_rest ::
  "('w, 't) sync_env \<Rightarrow> (nat \<Rightarrow> bool) \<Rightarrow> Config \<Rightarrow> Secret \<Rightarrow> retry_vars \<Rightarrow> vault_error + response \<Rightarrow> Client \<Rightarrow> 'w \<Rightarrow>
   (vault_error + SecretData) \<times> Client \<times> 'w" where
  "conclude_rest env cancelled cfg s rt r c w =
     (case conclude_read (sv_api env) s c r w of
        (Inr d, w') \<Rightarrow> (Inr d, c, w')
      | (Inl e, w') \<Rightarrow> retry_rest env cancelled cfg s (next_attempt e rt) c w')"

definition read_rest ::
  "('w, 't) sync_env \<Rightarrow> (nat \<Rightarrow> bool) \<Rightarrow> Config \<Rightarrow> Secret \<Rightarrow> retry_vars \<Rightarrow> Client \<Rightarrow> 'w \<Rightarrow>
   (vault_error + SecretData) \<times> Client \<times> 'w" where
  "read_rest env cancelled cfg s rt c w =
     (case api_call (\<lambda>ses. api_Read (sv_api env) ses (read_path s)) SecretPtr c w of
        (r, _, w') \<Rightarrow> conclude_rest env cancelled cfg s rt r c w')"

lemma SyncSecret_rest:
  assumes "GetCredentials (cfg_SecretStore cfg) (ResolveCredentials s) = Some creds"
    and "getOrCreateClient (sv_factory env) (ResolveCredentials s) creds (sy_pool st) (sy_vault st) = (Inr c, pool, w)"
  shows "SyncSecret env cancelled cfg s st =
    after_fetch env s (st\<lparr>sy_pool := pool\<rparr>) (retry_rest env cancelled cfg s (first_attempt (sv_retry env)) c w)"
  using assms
  by (simp add: SyncSecret_def FetchSecretWithRetry_def with_retry_def retry_rest_def first_attempt_def read_namespace_def
      after_fetch_def render_rest_def write_rest_def write_files_def Let_def split: prod.split sum.split outcome.split)

lemma FetchSecret_read:
  "FetchSecret (sv_api env) (sec_MountPath s) (sec_Key s) (sec_KVVersion s) ns c w =
     (case cl_breaker c of
        Some b \<Rightarrow>
          (case br_Admit (sv_api env) b w of
             (Some e, w1) \<Rightarrow> (Inl (Wrapped InRead (Wrapped InBreaker (BreakerOpen e))), c, w1)
           | (None, w1) \<Rightarrow>
               (case api_call (\<lambda>ses. api_Read (sv_api env) ses (read_path s)) SecretPtr (named ns c) w1 of
                  (r, _, w2) \<Rightarrow> (case conclude_read (sv_api env) s (named ns c) r w2 of (q, w3) \<Rightarrow> (q, named ns c, w3))))
      | None \<Rightarrow>
          (case api_call (\<lambda>ses. api_Read (sv_api env) ses (read_path s)) SecretPtr (named ns c) w of
             (r, _, w2) \<Rightarrow> (case conclude_read (sv_api env) s (named ns c) r w2 of (q, w3) \<Rightarrow> (q, named ns c, w3))))"
  by (auto simp: FetchSecret_def executeWithBreaker_def read_request_def api_call_def conclude_read_def named_def read_path_def
      SetNamespace_def Let_def split: option.split sum.split prod.split)

lemma retry_rest_end:
  "rt_left rt = 0 \<Longrightarrow> retry_rest env cancelled cfg s rt c w =
     (Inl (RetriesExhausted (rc_MaxRetries (sv_retry env)) (rt_lastErr rt)), c, w)"
  "0 < rt_left rt \<Longrightarrow> 0 < rt_attempt rt \<Longrightarrow> cancelled (rt_attempt rt) \<Longrightarrow>
     retry_rest env cancelled cfg s rt c w = (Inl ContextCancelled, c, w)"
  by (cases "rt_left rt"; simp add: retry_rest_def)+

lemma retry_rest_step:
  assumes "0 < rt_left rt" and "\<not> (0 < rt_attempt rt \<and> cancelled (rt_attempt rt))"
  shows "retry_rest env cancelled cfg s rt c w =
    (case FetchSecret (sv_api env) (sec_MountPath s) (sec_Key s) (sec_KVVersion s) (read_namespace cfg s) c w of
       (Inr d, c', w') \<Rightarrow> (Inr d, c', w')
     | (Inl e, c', w') \<Rightarrow>
         retry_rest env cancelled cfg s (next_attempt e (after_pause (sv_oor env) (sv_retry env) rt)) c' w')"
proof -
  obtain n where n: "rt_left rt = Suc n" using assms(1) by (cases "rt_left rt") auto
  obtain r c' w' where f: "FetchSecret (sv_api env) (sec_MountPath s) (sec_Key s) (sec_KVVersion s) (read_namespace cfg s) c w = (r, c', w')"
    using prod_cases3 by blast
  show ?thesis
    using assms(2) unfolding retry_rest_def n retry_loop.simps
    by (auto simp: f n next_attempt_def after_pause_def Let_def split: sum.split prod.split)
qed

lemma retry_rest_attempt:
  assumes "0 < rt_left rt" and "\<not> (0 < rt_attempt rt \<and> cancelled (rt_attempt rt))"
  shows "retry_rest env cancelled cfg s rt c w =
    (let rt' = after_pause (sv_oor env) (sv_retry env) rt; c1 = named (read_namespace cfg s) c in
     (case cl_breaker c of
        None \<Rightarrow> read_rest env cancelled cfg s rt' c1 w
      | Some b \<Rightarrow>
          (case br_Admit (sv_api env) b w of
             (Some e, w1) \<Rightarrow> retry_rest env cancelled cfg s (next_attempt (Wrapped InRead (Wrapped InBreaker (BreakerOpen e))) rt') c w1
           | (None, w1) \<Rightarrow> read_rest env cancelled cfg s rt' c1 w1)))"
  unfolding retry_rest_step [where cancelled = cancelled and rt = rt, OF assms] FetchSecret_read read_rest_def conclude_rest_def
  by (auto simp: Let_def split: option.split sum.split prod.split)

text \<open>What is left of \<open>SyncSecret\<close> in each phase, and what the phase knows of the store.\<close>

fun rest_of_sync ::
  "('w, 't) sync_env \<Rightarrow> (nat \<Rightarrow> bool) \<Rightarrow> Config \<Rightarrow> Secret \<Rightarrow> sync_phase \<Rightarrow> 'w shared \<Rightarrow>
   (sync_error, unit) outcome \<times> 'w sync_state" where
  "rest_of_sync env cancelled cfg s (Pooling a) sh =
     after_fetch env s (flat sh)
       (retry_rest env cancelled cfg s (first_attempt (sv_retry env)) (sh_clients sh ! a) (sh_vault sh))"
| "rest_of_sync env cancelled cfg s (Attempting a rt) sh =
     after_fetch env s (flat sh) (retry_rest env cancelled cfg s rt (sh_clients sh ! a) (sh_vault sh))"
| "rest_of_sync env cancelled cfg s (Naming a rt) sh =
     after_fetch env s (flat sh)
       (read_rest env cancelled cfg s rt (named (read_namespace cfg s) (sh_clients sh ! a)) (sh_vault sh))"
| "rest_of_sync env cancelled cfg s (Reading a rt) sh =
     after_fetch env s (flat sh) (read_rest env cancelled cfg s rt (sh_clients sh ! a) (sh_vault sh))"
| "rest_of_sync env cancelled cfg s (Reporting a rt r) sh =
     after_fetch env s (flat sh) (conclude_rest env cancelled cfg s rt r (sh_clients sh ! a) (sh_vault sh))"
| "rest_of_sync env cancelled cfg s (Rendering_data data) sh = render_rest env s data (flat sh)"
| "rest_of_sync env cancelled cfg s (Next_file rendered fs) sh = write_rest s rendered fs (flat sh)"
| "rest_of_sync env cancelled cfg s (In_file rendered fs fc content ph) sh =
     (case rest_of fc content ph (sh_disk sh) of
        (Ok _, d) \<Rightarrow> write_rest s rendered fs (flat (sh\<lparr>sh_disk := d\<rparr>))
      | (Err e, d) \<Rightarrow> (Err (WriteFailure (fc_Path fc) e), flat (sh\<lparr>sh_disk := d\<rparr>))
      | (Panic p, d) \<Rightarrow> (Panic p, flat (sh\<lparr>sh_disk := d\<rparr>)))"
| "rest_of_sync env cancelled cfg s (Synced r) sh = (r, flat sh)"
| "rest_of_sync env cancelled cfg s ph sh = SyncSecret env cancelled cfg s (flat sh)"

fun phase_fits :: "Config \<Rightarrow> Secret \<Rightarrow> sync_phase \<Rightarrow> 'w shared \<Rightarrow> bool" where
  "phase_fits cfg s (Creating creds) sh \<longleftrightarrow>
     GetCredentials (cfg_SecretStore cfg) (ResolveCredentials s) = Some creds \<and> map_of (sh_pool sh) (ResolveCredentials s) = None"
| "phase_fits cfg s (Pooling a) sh \<longleftrightarrow>
     map_of (sh_pool sh) (ResolveCredentials s) = None \<and> a < length (sh_clients sh) \<and> a \<notin> snd ` set (sh_pool sh)"
| "phase_fits cfg s (Attempting a rt) sh \<longleftrightarrow> map_of (sh_pool sh) (ResolveCredentials s) = Some a"
| "phase_fits cfg s (Naming a rt) sh \<longleftrightarrow> map_of (sh_pool sh) (ResolveCredentials s) = Some a"
| "phase_fits cfg s (Reading a rt) sh \<longleftrightarrow> map_of (sh_pool sh) (ResolveCredentials s) = Some a"
| "phase_fits cfg s (Reporting a rt r) sh \<longleftrightarrow> map_of (sh_pool sh) (ResolveCredentials s) = Some a"
| "phase_fits cfg s ph sh \<longleftrightarrow> True"

lemma flat_simps [simp]:
  "flat (sh\<lparr>sh_vault := w\<rparr>) = (flat sh)\<lparr>sy_vault := w\<rparr>"
  "flat (sh\<lparr>sh_disk := d\<rparr>) = (flat sh)\<lparr>sy_disk := d\<rparr>"
  "sy_pool (flat sh) = deref (sh_clients sh) (sh_pool sh)"
  "sy_vault (flat sh) = sh_vault sh"
  "sy_disk (flat sh) = sh_disk sh"
  "(flat sh)\<lparr>sy_pool := deref (sh_clients sh) (sh_pool sh)\<rparr> = flat sh"
  "(flat sh)\<lparr>sy_vault := sh_vault sh\<rparr> = flat sh"
  by (simp_all add: flat_def)

lemma after_fetch_state [simp]:
  "after_fetch env s (st\<lparr>sy_pool := AList.update (ResolveCredentials s) c (sy_pool st)\<rparr>) x = after_fetch env s st x"
  "after_fetch env s (st\<lparr>sy_vault := w\<rparr>) x = after_fetch env s st x"
  by (simp_all add: after_fetch_def split: prod.split)

lemma after_fetch_done:
  assumes "map_of (sh_pool sh) (ResolveCredentials s) = Some a"
  shows "after_fetch env s (flat sh) (r, sh_clients sh ! a, w) =
    (case r of Inl e \<Rightarrow> (Err (FetchFailed e), flat (sh\<lparr>sh_vault := w\<rparr>)) | Inr data \<Rightarrow> render_rest env s data (flat (sh\<lparr>sh_vault := w\<rparr>)))"
proof -
  have "AList.update (ResolveCredentials s) (sh_clients sh ! a) (deref (sh_clients sh) (sh_pool sh)) = deref (sh_clients sh) (sh_pool sh)"
    using assms by (intro update_triv) (simp add: deref_lookup)
  then have "(flat sh)\<lparr>sy_pool := AList.update (ResolveCredentials s) (sh_clients sh ! a) (deref (sh_clients sh) (sh_pool sh)), sy_vault := w\<rparr> =
      (flat sh)\<lparr>sy_vault := w\<rparr>" by (simp add: flat_def)
  then show ?thesis by (simp add: after_fetch_def split: sum.split)
qed

lemma looking_turn:
  assumes "sync_turn env cancelled cfg s Looking sh = (ph', sh')"
  shows "sh' = sh \<and> rest_of_sync env cancelled cfg s ph' sh = SyncSecret env cancelled cfg s (flat sh) \<and> phase_fits cfg s ph' sh"
proof (cases "GetCredentials (cfg_SecretStore cfg) (ResolveCredentials s)")
  case None
  with assms show ?thesis by (auto simp: SyncSecret_def)
next
  case (Some creds)
  show ?thesis
  proof (cases "map_of (sh_pool sh) (ResolveCredentials s)")
    case None
    with assms Some show ?thesis by auto
  next
    case a: (Some a)
    then have "getOrCreateClient (sv_factory env) (ResolveCredentials s) creds (sy_pool (flat sh)) (sy_vault (flat sh)) =
        (Inr (sh_clients sh ! a), sy_pool (flat sh), sh_vault sh)"
      by (simp add: getOrCreateClient_def deref_lookup)
    with SyncSecret_rest [OF Some this] assms Some a show ?thesis by auto
  qed
qed

lemma creating_turn:
  assumes "sync_turn env cancelled cfg s (Creating creds) sh = (ph', sh')" and "pool_ok (sh_clients sh) (sh_pool sh)"
    and "phase_fits cfg s (Creating creds) sh"
  shows "rest_of_sync env cancelled cfg s ph' sh' = SyncSecret env cancelled cfg s (flat sh) \<and> phase_fits cfg s ph' sh' \<and>
    pool_ok (sh_clients sh') (sh_pool sh')"
proof -
  let ?n = "ResolveCredentials s"
  have g: "GetCredentials (cfg_SecretStore cfg) ?n = Some creds" and m: "map_of (sh_pool sh) ?n = None" using assms(3) by simp_all
  obtain r w where f: "sv_factory env creds (sh_vault sh) = (r, w)" by (rule prod.exhaust)
  show ?thesis
  proof (cases r)
    case (Inl e)
    with assms(1,2) f g m show ?thesis
      by (auto simp: SyncSecret_def getOrCreateClient_def deref_lookup)
  next
    case (Inr c)
    then have "getOrCreateClient (sv_factory env) ?n creds (sy_pool (flat sh)) (sy_vault (flat sh)) =
        (Inr c, AList.update ?n c (sy_pool (flat sh)), w)"
      using f m by (simp add: getOrCreateClient_def deref_lookup)
    note s = SyncSecret_rest [OF g this]
    have sh': "ph' = Pooling (length (sh_clients sh))" "sh' = sh\<lparr>sh_vault := w, sh_clients := sh_clients sh @ [c]\<rparr>"
      using assms(1) f Inr by simp_all
    have "flat sh' = (flat sh)\<lparr>sy_vault := w\<rparr>" using deref_grow [OF assms(2)] by (simp add: flat_def sh')
    with s m assms(2) show ?thesis by (auto simp: sh' pool_ok_def simp del: flat_simps)
  qed
qed

lemma pooling_turn:
  assumes "sync_turn env cancelled cfg s (Pooling a) sh = (ph', sh')" and "pool_ok (sh_clients sh) (sh_pool sh)"
    and "phase_fits cfg s (Pooling a) sh"
  shows "rest_of_sync env cancelled cfg s ph' sh' = rest_of_sync env cancelled cfg s (Pooling a) sh \<and> phase_fits cfg s ph' sh' \<and>
    pool_ok (sh_clients sh') (sh_pool sh')"
proof -
  let ?n = "ResolveCredentials s"
  have sh': "ph' = Attempting a (first_attempt (sv_retry env))" "sh' = sh\<lparr>sh_pool := AList.update ?n a (sh_pool sh)\<rparr>"
    using assms(1) by auto
  have "flat sh' = (flat sh)\<lparr>sy_pool := AList.update ?n (sh_clients sh ! a) (sy_pool (flat sh))\<rparr>"
    using deref_new [of "sh_pool sh" ?n "sh_clients sh" a] assms(3) by (simp add: flat_def sh'(2))
  with assms(2,3) show ?thesis by (simp add: sh' pool_ok_new update_conv' del: flat_simps)
qed

lemma attempting_turn:
  assumes "sync_turn env cancelled cfg s (Attempting a rt) sh = (ph', sh')" and "phase_fits cfg s (Attempting a rt) sh"
  shows "rest_of_sync env cancelled cfg s ph' sh' = rest_of_sync env cancelled cfg s (Attempting a rt) sh \<and>
    phase_fits cfg s ph' sh' \<and> sh_clients sh' = sh_clients sh \<and> sh_pool sh' = sh_pool sh"
proof -
  have m: "map_of (sh_pool sh) (ResolveCredentials s) = Some a" using assms(2) by simp
  consider "rt_left rt = 0" | "0 < rt_left rt" "0 < rt_attempt rt \<and> cancelled (rt_attempt rt)"
    | "0 < rt_left rt" "\<not> (0 < rt_attempt rt \<and> cancelled (rt_attempt rt))" by blast
  then show ?thesis
  proof cases
    case 1
    then have "sh' = sh" "\<exists>e. ph' = Synced (Err (FetchFailed e)) \<and>
        retry_rest env cancelled cfg s rt (sh_clients sh ! a) (sh_vault sh) = (Inl e, sh_clients sh ! a, sh_vault sh)"
      using assms(1) by (auto simp: retry_rest_end)
    with m show ?thesis by (auto simp: after_fetch_done [OF m])
  next
    case 2
    then have "sh' = sh" "\<exists>e. ph' = Synced (Err (FetchFailed e)) \<and>
        retry_rest env cancelled cfg s rt (sh_clients sh ! a) (sh_vault sh) = (Inl e, sh_clients sh ! a, sh_vault sh)"
      using assms(1) by (auto simp: retry_rest_end)
    with m show ?thesis by (auto simp: after_fetch_done [OF m])
  next
    case 3
    have l: "rt_left rt \<noteq> 0" using 3 by simp
    from assms(1) m show ?thesis
      unfolding sync_turn.simps if_not_P [OF l] if_not_P [OF 3(2)]
      by (auto simp: retry_rest_attempt [where rt = rt and cancelled = cancelled, OF 3] Let_def split: option.splits prod.splits)
  qed
qed

lemma naming_turn:
  assumes "sync_turn env cancelled cfg s (Naming a rt) sh = (ph', sh')" and "pool_ok (sh_clients sh) (sh_pool sh)"
    and "phase_fits cfg s (Naming a rt) sh"
  shows "rest_of_sync env cancelled cfg s ph' sh' = rest_of_sync env cancelled cfg s (Naming a rt) sh \<and>
    phase_fits cfg s ph' sh' \<and> pool_ok (sh_clients sh') (sh_pool sh')"
proof -
  let ?n = "ResolveCredentials s" and ?c = "named (read_namespace cfg s) (sh_clients sh ! a)"
  have m: "map_of (sh_pool sh) ?n = Some a" using assms(3) by simp
  then have a: "a < length (sh_clients sh)" using assms(2) map_of_SomeD by (fastforce simp: pool_ok_def)
  have sh': "ph' = Reading a rt" "sh' = sh\<lparr>sh_clients := (sh_clients sh)[a := ?c]\<rparr>" using assms(1) by auto
  have "flat sh' = (flat sh)\<lparr>sy_pool := AList.update ?n ?c (sy_pool (flat sh))\<rparr>"
    using deref_set [OF assms(2) m] by (simp add: flat_def sh'(2))
  with assms(2) m a show ?thesis by (simp add: sh' pool_ok_def del: flat_simps)
qed

lemma reading_turn:
  assumes "sync_turn env cancelled cfg s (Reading a rt) sh = (ph', sh')" and "phase_fits cfg s (Reading a rt) sh"
  shows "rest_of_sync env cancelled cfg s ph' sh' = rest_of_sync env cancelled cfg s (Reading a rt) sh \<and>
    phase_fits cfg s ph' sh' \<and> sh_clients sh' = sh_clients sh \<and> sh_pool sh' = sh_pool sh"
  using assms by (auto simp: read_rest_def split: prod.splits)

lemma reporting_turn:
  assumes "sync_turn env cancelled cfg s (Reporting a rt r) sh = (ph', sh')" and "phase_fits cfg s (Reporting a rt r) sh"
  shows "rest_of_sync env cancelled cfg s ph' sh' = rest_of_sync env cancelled cfg s (Reporting a rt r) sh \<and>
    phase_fits cfg s ph' sh' \<and> sh_clients sh' = sh_clients sh \<and> sh_pool sh' = sh_pool sh"
proof -
  have m: "map_of (sh_pool sh) (ResolveCredentials s) = Some a" using assms(2) by simp
  obtain q w where c: "conclude_read (sv_api env) s (sh_clients sh ! a) r (sh_vault sh) = (q, w)" by (rule prod.exhaust)
  with assms(1) m show ?thesis by (cases q) (auto simp: conclude_rest_def after_fetch_done [OF m])
qed

lemma file_turn:
  assumes "sync_turn env cancelled cfg s (In_file rendered fs fc content ph) sh = (ph', sh')"
  shows "rest_of_sync env cancelled cfg s ph' sh' = rest_of_sync env cancelled cfg s (In_file rendered fs fc content ph) sh \<and>
    phase_fits cfg s ph' sh' \<and> sh_clients sh' = sh_clients sh \<and> sh_pool sh' = sh_pool sh"
proof (cases "\<exists>r. ph = Finished r")
  case True
  with assms show ?thesis by (auto split: outcome.splits)
next
  case False
  obtain wp d where t: "writer_turn fc content ph (sh_disk sh) = (wp, d)" by (rule prod.exhaust)
  with assms False sync_turn_write [OF _ t] have r: "ph' = In_file rendered fs fc content wp" "sh' = sh\<lparr>sh_disk := d\<rparr>" by auto
  show ?thesis by (simp add: r turn_rest [OF t] split: outcome.split prod.split)
qed

lemma next_file_turn:
  assumes "sync_turn env cancelled cfg s (Next_file rendered fs) sh = (ph', sh')"
  shows "sh' = sh \<and> rest_of_sync env cancelled cfg s ph' sh = rest_of_sync env cancelled cfg s (Next_file rendered fs) sh \<and>
    phase_fits cfg s ph' sh"
proof (cases fs)
  case (Cons f gs)
  let ?prep = "prepare_file (file_to_template (keys (sec_TemplateData s)) (sec_Files s)) rendered f"
  show ?thesis
  proof (cases ?prep)
    case (Ok x)
    obtain fc c where x: "x = (fc, c)" by (rule prod.exhaust)
    with assms Cons Ok show ?thesis by (auto simp: write_rest_def split: outcome.split prod.split)
  qed (use assms Cons in \<open>auto simp: write_rest_def\<close>)
qed (use assms in \<open>auto simp: write_rest_def\<close>)

lemma sync_turn_rest:
  assumes "sync_turn env cancelled cfg s ph sh = (ph', sh')" and "pool_ok (sh_clients sh) (sh_pool sh)" and "phase_fits cfg s ph sh"
  shows "rest_of_sync env cancelled cfg s ph' sh' = rest_of_sync env cancelled cfg s ph sh \<and> phase_fits cfg s ph' sh' \<and>
    pool_ok (sh_clients sh') (sh_pool sh')"
proof (cases ph)
  case Looking
  with looking_turn [OF assms(1) [unfolded Looking]] assms(2) show ?thesis by simp
next
  case (Creating creds)
  with creating_turn assms show ?thesis by simp
next
  case (Pooling a)
  with pooling_turn assms show ?thesis by metis
next
  case (Attempting a rt)
  with attempting_turn assms show ?thesis by metis
next
  case (Naming a rt)
  with naming_turn assms show ?thesis by metis
next
  case (Reading a rt)
  with reading_turn assms show ?thesis by metis
next
  case (Reporting a rt r)
  with reporting_turn assms show ?thesis by metis
next
  case (Rendering_data data)
  with assms show ?thesis by (auto simp: render_rest_def split: outcome.splits)
next
  case (Next_file rendered fs)
  with next_file_turn [OF assms(1) [unfolded Next_file]] assms(2) show ?thesis by simp
next
  case (In_file rendered fs fc content wp)
  with file_turn assms show ?thesis by metis
next
  case (Synced r)
  with assms show ?thesis by auto
qed

lemma run_sync_rest:
  assumes "sync_left (sv_retry env) s ph \<le> n" and "pool_ok (sh_clients sh) (sh_pool sh)" and "phase_fits cfg s ph sh"
  shows "\<exists>r sh'. run_sync n env cancelled cfg s ph sh = (Synced r, sh') \<and> pool_ok (sh_clients sh') (sh_pool sh') \<and>
    rest_of_sync env cancelled cfg s ph sh = (r, flat sh')"
  using assms
proof (induction n arbitrary: ph sh)
  case 0
  then obtain r where "ph = Synced r" using no_sync_left [of "sv_retry env" s ph] by auto
  with 0 show ?case by auto
next
  case (Suc n)
  obtain ph1 sh1 where t: "sync_turn env cancelled cfg s ph sh = (ph1, sh1)" by (rule prod.exhaust)
  have "sync_left (sv_retry env) s ph1 \<le> n" using sync_turn_decreases [OF t] Suc.prems(1) by simp
  with Suc.IH [of ph1 sh1] sync_turn_rest [OF t Suc.prems(2,3)] t show ?case by simp
qed

text \<open>
  The stepwise synchronisation implements \<open>SyncSecret\<close>.  Run alone, with as many turns as the number of attempts and the
  files ask for, it has ended with the result of \<open>SyncSecret\<close> and has left the same pool of clients, the same vault
  state and the same disk, whatever the configuration, the server and the faults of the disk are.
\<close>

lemma stepwise_sync_refines:
  assumes "sync_left (sv_retry env) s Looking \<le> n" and "pool_ok (sh_clients sh) (sh_pool sh)"
    and "run_sync n env cancelled cfg s Looking sh = (ph, sh')"
  shows "ph = Synced (fst (SyncSecret env cancelled cfg s (flat sh))) \<and> flat sh' = snd (SyncSecret env cancelled cfg s (flat sh))"
proof -
  have "phase_fits cfg s Looking sh" by simp
  from run_sync_rest [OF assms(1,2) this, of cancelled] assms(3) show ?thesis by auto
qed

definition sample_shared :: "nat shared" where
  "sample_shared = \<lparr>sh_clients = [], sh_pool = [], sh_vault = 0, sh_disk = sample_world\<rparr>"

end
