(* ===== verification/Writer_Turns.thy ===== *)
theory Writer_Turns
  imports Writer_Steps
begin

text \<open>
  What one turn of a writer does to the disk: it touches only the directories on the way and the writer's own temporary file,
  or it is the rename that puts the complete file in place.  The names of temporary files, as the random bytes give them.
\<close>

section \<open>Random names\<close>

text \<open>The names that successive draws give.\<close>

definition drawn_name :: "8 word list \<Rightarrow> nat \<Rightarrow> string" where
  "drawn_name rand k = map (\<lambda>b. letters ! (unat b mod length letters)) (take 8 (drop (8 * k) rand))"

lemma drawn_name_chars: "c \<in> set (drawn_name rand k) \<Longrightarrow> c \<in> set letters"
proof -
  assume "c \<in> set (drawn_name rand k)"
  then obtain b :: "8 word" where c: "c = letters ! (unat b mod length letters)" by (auto simp: drawn_name_def)
  have "length letters = 36" by (simp add: letters_def)
  then show ?thesis unfolding c by (intro nth_mem) simp
qed

lemma drawn_name_free: "CHR ''/'' \<notin> set (drawn_name rand k)" "CHR ''.'' \<notin> set (drawn_name rand k)"
  using drawn_name_chars [of _ rand k] by (auto simp: letters_def)

lemma draw:
  assumes "randomString 8 w = (r, w')" and "w_rand w = drop (8 * k) rand" and "8 * Suc k \<le> length rand"
  shows "r = drawn_name rand k \<and> w' = w\<lparr>w_rand := drop (8 * Suc k) rand\<rparr>"
proof -
  have "\<not> length (w_rand w) < 8" using assms(2,3) by simp
  with assms(1) have "r = map (\<lambda>b. letters ! (unat b mod length letters)) (take 8 (w_rand w))" "w' = w\<lparr>w_rand := drop 8 (w_rand w)\<rparr>"
    by (simp_all add: randomString_def)
  then show ?thesis by (simp add: drawn_name_def assms(2) add.commute)
qed

lemma takeWhile_upto: "c \<notin> set xs \<Longrightarrow> takeWhile (\<lambda>x. x \<noteq> c) (xs @ c # ys) = xs"
  by (induction xs) auto

text \<open>Temporary files of different targets have different names, since a drawn name has no dot.\<close>

lemma temp_name_inj:
  assumes "temp_name p r = temp_name q s" and "CHR ''.'' \<notin> set r" and "CHR ''.'' \<notin> set s"
  shows "p = q \<and> r = s"
proof -
  have split: "a = b \<and> x = y" if e: "a @ CHR ''.'' # x = b @ CHR ''.'' # y" and n: "CHR ''.'' \<notin> set x" "CHR ''.'' \<notin> set y"
    for a b x y :: string
  proof -
    have "rev x @ CHR ''.'' # rev a = rev y @ CHR ''.'' # rev b" using arg_cong [OF e, of rev] by simp
    then have "takeWhile (\<lambda>c. c \<noteq> CHR ''.'') (rev x @ CHR ''.'' # rev a) = takeWhile (\<lambda>c. c \<noteq> CHR ''.'') (rev y @ CHR ''.'' # rev b)"
      by (rule arg_cong)
    then have "rev x = rev y" using n by (simp only: takeWhile_upto set_rev not_False_eq_True)
    with e show ?thesis by simp
  qed
  have "(p @ ''.tmp'') @ CHR ''.'' # r = (q @ ''.tmp'') @ CHR ''.'' # s"
    using assms(1) by (simp add: temp_name_def)
  from split [OF this assms(2,3)] show ?thesis by simp
qed

section \<open>The random bytes are only read by the draw\<close>

lemma next_fault_rand: "next_fault w = (f, w') \<Longrightarrow> w_rand w' = w_rand w"
  by (auto simp: next_fault_def split: list.splits)

lemma put_del_rand [simp]: "w_rand (put_node p n w) = w_rand w" "w_rand (del_node p w) = w_rand w" "w_rand (set_nodes ns w) = w_rand w"
  by (simp_all add: put_node_def del_node_def set_nodes_def)

lemma with_fault_rand:
  assumes "with_fault f w = (r, w')" and "\<And>v r v'. f v = (r, v') \<Longrightarrow> w_rand v' = w_rand v"
  shows "w_rand w' = w_rand w"
  using assms by (auto simp: with_fault_def next_fault_rand split: prod.splits option.splits)

lemma mkdir_chain_rand: "mkdir_chain ds w = (r, w') \<Longrightarrow> w_rand w' = w_rand w"
  by (induction ds arbitrary: w) (auto simp: next_fault_rand split: if_splits option.splits node.splits prod.splits)

lemma os_rand:
  "os_Lstat p w = (r1, w') \<Longrightarrow> w_rand w' = w_rand w"
  "open_trunc p m w = (r2, w') \<Longrightarrow> w_rand w' = w_rand w"
  "os_Chown p u g w = (r3, w') \<Longrightarrow> w_rand w' = w_rand w"
  "os_Rename p q w = (r4, w') \<Longrightarrow> w_rand w' = w_rand w"
  "os_Remove p w = (r5, w') \<Longrightarrow> w_rand w' = w_rand w"
  "os_Stat_call p w = (r6, w') \<Longrightarrow> w_rand w' = w_rand w"
  "os_Readdirnames p w = (r7, w') \<Longrightarrow> w_rand w' = w_rand w"
  unfolding os_Lstat_def open_trunc_def os_Chown_def os_Rename_def os_Remove_def os_Stat_call_def os_Readdirnames_def
  by (erule with_fault_rand; auto split: option.splits node.splits if_splits)+

lemma write_close_rand: "write_close q d w = (r, w') \<Longrightarrow> w_rand w' = w_rand w"
proof -
  assume c: "write_close q d w = (r, w')"
  obtain f w1 where f: "next_fault w = (f, w1)" by (cases "next_fault w")
  have s: "w_rand (store_bytes q x w1) = w_rand w" for x
    using next_fault_rand [OF f] by (auto simp: store_bytes_def split: option.split node.split)
  have t: "with_fault (\<lambda>w2. (Inr (), w2)) (store_bytes q d w1) = (r, w') \<Longrightarrow> w_rand w' = w_rand w"
    by (frule with_fault_rand) (auto simp: s)
  with c f s show ?thesis by (auto simp: write_close_def split: option.splits prod.splits)
qed

lemma validateFileType_rand: "validateFileType p w = (r, w') \<Longrightarrow> w_rand w' = w_rand w"
proof -
  assume v: "validateFileType p w = (r, w')"
  obtain x w1 where l: "os_Lstat p w = (x, w1)" by (cases "os_Lstat p w")
  from v l have "w' = w1" by (auto simp: validateFileType_def split: sum.splits errno.splits node.splits)
  with os_rand(1) [OF l] show ?thesis by simp
qed

lemma discard_rand [simp]: "w_rand (discard p w) = w_rand w"
  using os_rand(5) [of p w] by (cases "os_Remove p w") (simp add: discard_def)

lemma turn_rand:
  assumes "writer_turn c d ph w = (ph', w')" and "ph \<noteq> MakingDirs []"
  shows "w_rand w' = w_rand w"
proof (cases ph)
  case Checking
  with assms(1) validateFileType_rand show ?thesis
    by (auto split: if_split_asm outcome.splits prod.splits)
next
  case (MakingDirs ds)
  with assms obtain e es where "ds = e # es" by (cases ds) auto
  with MakingDirs assms(1) mkdir_chain_rand show ?thesis
    by (auto simp del: mkdir_chain.simps split: sum.splits prod.splits)
qed (use assms(1) os_rand write_close_rand in \<open>auto simp: Let_def split: sum.splits prod.splits\<close>)

lemma remove_matches_rand: "w_rand (snd (remove_matches fs k w)) = w_rand w"
  by (induction fs arbitrary: k w) (auto simp: os_rand(5) split: prod.splits sum.split)

lemma clean_dir_rand: "w_rand (snd (clean_dir glob d k w)) = w_rand w"
proof -
  obtain x w1 where st: "os_Stat_call d w = (x, w1)" by (cases "os_Stat_call d w")
  obtain ms w2 where g: "filepath_Glob_tmp glob d w1 = (ms, w2)" by (cases "filepath_Glob_tmp glob d w1")
  have "w_rand w2 = w_rand w1"
    using g os_rand(6,7) by (auto simp: filepath_Glob_tmp_def split: if_splits prod.splits sum.splits node.splits)
  with os_rand(6) [OF st] st g show ?thesis
    by (auto simp: clean_dir_def remove_matches_rand split: sum.split errno.split option.split)
qed

lemma sweep_rand: "w_rand (snd (CleanupOrphanedTempFiles glob ds w)) = w_rand w"
proof -
  have "w_rand (snd (clean_dirs glob ds k w)) = w_rand w" for k
  proof (induction ds arbitrary: k w)
    case (Cons d ds)
    show ?case using clean_dir_rand [of glob d k w] by (cases "clean_dir glob d k w") (simp add: Cons.IH)
  qed simp
  then show ?thesis by (simp add: CleanupOrphanedTempFiles_def)
qed

section \<open>One turn\<close>

fun temp_of :: "phase \<Rightarrow> string option" where
  "temp_of (Opening t) = Some t"
| "temp_of (Storing t q) = Some t"
| "temp_of (Owning t) = Some t"
| "temp_of (Renaming t) = Some t"
| "temp_of (Removing t e) = Some t"
| "temp_of _ = None"

fun unnamed :: "phase \<Rightarrow> bool" where
  "unnamed Checking = True"
| "unnamed (MakingDirs ds) = True"
| "unnamed _ = False"

text \<open>What the temporary file of a writer holds in each phase; the sweep may have removed it.\<close>

definition gone_or :: "node \<Rightarrow> string \<Rightarrow> world \<Rightarrow> bool" where
  "gone_or n t w \<longleftrightarrow> lookup w t = None \<or> lookup w t = Some n"

definition plain_node :: "FileConfig \<Rightarrow> string \<Rightarrow> world \<Rightarrow> node" where
  "plain_node c d w0 = Reg d (created_mode (fc_Mode c) w0) (w_uid w0) (w_gid w0)"

fun phase_ok :: "world \<Rightarrow> FileConfig \<Rightarrow> string \<Rightarrow> phase \<Rightarrow> world \<Rightarrow> bool" where
  "phase_ok w0 c d (MakingDirs ds) w \<longleftrightarrow> set ds \<subseteq> set (dir_chain (filepath_Dir (fc_Path c)))"
| "phase_ok w0 c d (Opening t) w \<longleftrightarrow> lookup w t = None"
| "phase_ok w0 c d (Storing t q) w \<longleftrightarrow> q = t \<and> gone_or (plain_node c [] w0) t w"
| "phase_ok w0 c d (Owning t) w \<longleftrightarrow> gone_or (plain_node c d w0) t w"
| "phase_ok w0 c d (Renaming t) w \<longleftrightarrow> gone_or (written c d w0) t w"
| "phase_ok w0 c d ph w \<longleftrightarrow> True"

lemma phase_ok_frame:
  assumes "phase_ok w0 c d ph w" and "\<And>t. temp_of ph = Some t \<Longrightarrow> lookup w' t = lookup w t \<or> lookup w' t = None"
  shows "phase_ok w0 c d ph w'"
  using assms by (cases ph) (auto simp: gone_or_def)

lemma same_ids_nodes: "same_ids w0 w \<Longrightarrow> created_mode m w = created_mode m w0 \<and> w_uid w = w_uid w0 \<and> w_gid w = w_gid w0"
  by (simp add: same_ids_def created_mode_def)

text \<open>A turn that does not rename touches only the directories on the way and the temporary file.\<close>

definition own_names :: "FileConfig \<Rightarrow> phase \<Rightarrow> string set" where
  "own_names c ph = set (dir_chain (filepath_Dir (fc_Path c))) \<union> set_option (temp_of ph)"

lemma only_touches_own: "only_touches {t} w w' \<Longrightarrow> temp_of ph = Some t \<Longrightarrow> only_touches (own_names c ph) w w'"
  by (rule only_touches_mono) (auto simp: own_names_def)

lemma store_turn:
  assumes "write_close t d w = (r, w')" and "t \<noteq> ''/''" and "gone_or (Reg [] m u g) t w"
  shows "only_touches {t} w w' \<and> (\<forall>x. r = Inr x \<longrightarrow> gone_or (Reg d m u g) t w')"
proof (cases "lookup w t = None")
  case False
  with assms(3) have "lookup w t = Some (Reg [] m u g)" by (simp add: gone_or_def)
  from write_close_facts [OF assms(1,2) this] show ?thesis by (auto simp: gone_or_def)
next
  case True
  obtain f w1 where f: "next_fault w = (f, w1)" by (cases "next_fault w")
  have l: "lookup w1 t = None" using next_fault_lookup [OF f] True by simp
  then have s: "store_bytes t x w1 = w1" for x by (simp add: store_bytes_def)
  note t1 = only_touches_fault [OF f, of "{t}"]
  show ?thesis
  proof (cases f)
    case (Some en)
    with assms(1) f s t1 show ?thesis by (cases en) (auto simp: write_close_def)
  next
    case None
    with assms(1) f s have "with_fault (\<lambda>w2. (Inr (), w2)) w1 = (r, w')" by (simp add: write_close_def)
    then show ?thesis
    proof (cases rule: with_fault_cases)
      case (failed e)
      with only_touches_trans [OF t1 only_touches_mono [OF failed(2)]] show ?thesis by simp
    next
      case (run w2)
      with only_touches_trans [OF t1 only_touches_mono [OF run(2)]] l lookup_nodes [OF run(3)] show ?thesis
        by (simp add: gone_or_def)
    qed
  qed
qed

lemma own_turn:
  assumes "os_Chown t uid gid w = (r, w')" and "t \<noteq> ''/''" and "gone_or (Reg d m u g) t w"
  shows "only_touches {t} w w' \<and> (\<forall>x. r = Inr x \<longrightarrow> gone_or (Reg d m (new_id uid u) (new_id gid g)) t w')"
proof (cases "lookup w t = None")
  case False
  with assms(3) have "lookup w t = Some (Reg d m u g)" by (simp add: gone_or_def)
  from os_Chown_facts [OF assms(1,2) this] show ?thesis by (auto simp: gone_or_def)
next
  case True
  show ?thesis
    using assms(1) unfolding os_Chown_def
  proof (cases rule: with_fault_cases)
    case (failed e)
    then show ?thesis by (auto intro: only_touches_mono)
  next
    case (run w1)
    have l: "lookup w1 t = None" using lookup_nodes [OF run(3)] True by simp
    have f: "follow max_links w1 t = Some t" by (rule follow_plain) (simp add: l)
    from run(1) show ?thesis using only_touches_mono [OF run(2)] by (auto simp: f l)
  qed
qed

lemma rename_error_touches: "os_Rename t p w = (Inl e, w') \<Longrightarrow> only_touches {} w w'"
  unfolding os_Rename_def by (erule with_fault_cases) (auto split: if_splits option.splits)

lemma rename_gone:
  assumes "os_Rename t p w = (r, w')" and "lookup w t = None"
  shows "\<exists>e. r = Inl e"
  using assms(1) unfolding os_Rename_def
proof (cases rule: with_fault_cases)
  case (run w1)
  have "lookup w1 t = None" using lookup_nodes [OF run(3)] assms(2) by simp
  with run(1) show ?thesis by (auto split: if_splits)
qed simp

text \<open>What a turn does; \<open>w0\<close> is the disk at the beginning.\<close>

definition turn_ok :: "world \<Rightarrow> FileConfig \<Rightarrow> string \<Rightarrow> phase \<Rightarrow> world \<Rightarrow> phase \<Rightarrow> world \<Rightarrow> bool" where
  "turn_ok w0 c d ph w ph' w' \<longleftrightarrow> phase_ok w0 c d ph' w' \<and> (temp_of ph' = None \<or> temp_of ph' = temp_of ph) \<and>
     (unnamed ph' \<longrightarrow> unnamed ph) \<and>
     (only_touches (own_names c ph) w w' \<and> (ph' = Finished (Ok ()) \<longrightarrow> ph = Finished (Ok ())) \<or>
      (\<exists>t. ph = Renaming t \<and> ph' = Finished (Ok ()) \<and> w_hist w' = w_nodes w' # w_hist w \<and> same_ids w w' \<and>
         map_of (w_nodes w') = (map_of (w_nodes w))(fc_Path c \<mapsto> written c d w0, t := None)))"

lemma turn_ok_cases:
  assumes "turn_ok w0 c d ph w ph' w'"
  obtains (touch) "only_touches (own_names c ph) w w'" and "ph' = Finished (Ok ()) \<longrightarrow> ph = Finished (Ok ())"
  | (commit) t where "ph = Renaming t" and "w_hist w' = w_nodes w' # w_hist w" and "same_ids w w'"
      and "map_of (w_nodes w') = (map_of (w_nodes w))(fc_Path c \<mapsto> written c d w0, t := None)"
  using assms unfolding turn_ok_def by blast

lemma turn_okI:
  assumes "only_touches T w w'" and "T \<subseteq> own_names c ph" and "phase_ok w0 c d ph' w'"
    and "temp_of ph' = None \<or> temp_of ph' = temp_of ph" and "unnamed ph' \<longrightarrow> unnamed ph" and "ph' \<noteq> Finished (Ok ())"
  shows "turn_ok w0 c d ph w ph' w'"
  using assms only_touches_mono [OF assms(1,2)] by (simp add: turn_ok_def)

lemma checking_turn:
  assumes "writer_turn c d Checking w = (ph', w')"
  shows "turn_ok w0 c d Checking w ph' w'"
proof -
  obtain x w1 where v: "validateFileType (fc_Path c) w = (x, w1)" by (cases "validateFileType (fc_Path c) w")
  have t: "only_touches {} w w1" using validateFileType_touches [OF v] by simp
  have m: "set (missing_dirs c) \<subseteq> set (dir_chain (filepath_Dir (fc_Path c)))"
    by (simp add: missing_dirs_def Let_def)
  from assms v have "(w' = w \<or> w' = w1) \<and> (ph' = MakingDirs (missing_dirs c) \<or> (\<exists>r. ph' = Finished r \<and> r \<noteq> Ok ()))"
    by (auto split: if_split_asm outcome.splits)
  with t m show ?thesis by (auto intro: turn_okI)
qed

lemma dirs_turn:
  assumes "writer_turn c d (MakingDirs (e # es)) w = (ph', w')" and "phase_ok w0 c d (MakingDirs (e # es)) w"
    and "proper_path (fc_Path c)"
  shows "turn_ok w0 c d (MakingDirs (e # es)) w ph' w'"
proof -
  obtain r w1 where m: "mkdir_chain [e] w = (r, w1)" by (cases "mkdir_chain [e] w")
  have "''/'' \<notin> set [e]" using assms(2) proper_path_dir_chain(3) [OF assms(3), of "[]"] by auto
  note t = mkdir_chain_touches [OF m this]
  have s: "set [e] \<subseteq> own_names c (MakingDirs (e # es))" using assms(2) by (auto simp: own_names_def)
  from assms(1) m have "w' = w1" "ph' = MakingDirs es \<or> (\<exists>x. ph' = Finished (Err x))"
    by (auto split: sum.splits simp del: mkdir_chain.simps)
  with t s assms(2) show ?thesis by (auto intro: turn_okI)
qed

lemma temp_turn:
  assumes "writer_turn c d ph w = (ph', w')" and "phase_ok w0 c d ph w" and "same_ids w0 w" and "temp_of ph = Some t"
    and "t \<noteq> ''/''" and "t \<noteq> fc_Path c" and "fc_Path c \<noteq> ''/''"
  shows "turn_ok w0 c d ph w ph' w'"
proof -
  note ids = same_ids_nodes [OF assms(3)]
  have own: "{t} \<subseteq> own_names c ph" using assms(4) by (simp add: own_names_def)
  show ?thesis
  proof (cases ph)
    case (Opening u)
    with assms(4) have [simp]: "u = t" by simp
    obtain r w1 where o: "open_trunc t (fc_Mode c) w = (r, w1)" by (cases "open_trunc t (fc_Mode c) w")
    have "lookup w t = None" using assms(2) Opening by simp
    note f = open_trunc_fresh [OF o this assms(5)]
    from assms(1) Opening o f ids have "w' = w1" and "(\<exists>x. ph' = Finished (Err x)) \<or> ph' = Storing t t \<and> phase_ok w0 c d ph' w1"
      by (auto simp: gone_or_def plain_node_def split: sum.splits)
    with f(1) own assms(4) show ?thesis by (auto intro: turn_okI)
  next
    case (Storing u q)
    with assms(2,4) have [simp]: "u = t" "q = t" by simp_all
    obtain r w1 where o: "write_close t d w = (r, w1)" by (cases "write_close t d w")
    have "gone_or (Reg [] (created_mode (fc_Mode c) w0) (w_uid w0) (w_gid w0)) t w"
      using assms(2) Storing by (simp add: plain_node_def)
    note f = store_turn [OF o assms(5) this]
    have n: "plain_node c d w0 = written c d w0" if "\<not> (0 \<le> fc_Owner c \<or> 0 \<le> fc_Group c)"
      using that by (simp add: plain_node_def written_def final_owner_def final_group_def)
    from assms(1) Storing o f n have "w' = w1" and
      "(\<exists>x. ph' = Finished (Err x)) \<or> (ph' = Owning t \<or> ph' = Renaming t) \<and> phase_ok w0 c d ph' w1"
      by (auto simp: plain_node_def split: sum.splits if_split_asm)
    with f own assms(4) show ?thesis by (auto intro: turn_okI)
  next
    case (Owning u)
    with assms(4) have [simp]: "u = t" by simp
    let ?uid = "if fc_Owner c < 0 then - 1 else fc_Owner c" and ?gid = "if fc_Group c < 0 then - 1 else fc_Group c"
    obtain r w1 where o: "os_Chown t ?uid ?gid w = (r, w1)" by (rule prod.exhaust)
    have "gone_or (Reg d (created_mode (fc_Mode c) w0) (w_uid w0) (w_gid w0)) t w"
      using assms(2) Owning by (simp add: plain_node_def)
    note f = own_turn [OF o assms(5) this]
    have n: "Reg d (created_mode (fc_Mode c) w0) (new_id ?uid (w_uid w0)) (new_id ?gid (w_gid w0)) = written c d w0"
      by (simp add: written_def final_owner_def final_group_def)
    from assms(1) Owning o have "w' = w1" and
      "(\<exists>x. ph' = Removing t x) \<or> ph' = Renaming t \<and> r = Inr ()"
      by (auto simp: Let_def split: sum.splits)
    with f n own assms(4) show ?thesis by (auto intro: turn_okI)
  next
    case (Renaming u)
    with assms(4) have [simp]: "u = t" by simp
    obtain r w1 where o: "os_Rename t (fc_Path c) w = (r, w1)" by (rule prod.exhaust)
    show ?thesis
    proof (cases r)
      case (Inl e)
      with assms(1) Renaming o have "w' = w1" "ph' = Removing t (RenameFailed e)" by simp_all
      with rename_error_touches [OF o [unfolded Inl]] own assms(4) show ?thesis
        by (auto intro!: turn_okI [of "{}"])
    next
      case (Inr x)
      with assms(1) Renaming o have r: "w' = w1" "ph' = Finished (Ok ())" by simp_all
      have l: "lookup w t = Some (written c d w0)"
        using rename_gone [OF o] Inr assms(2) Renaming by (auto simp: gone_or_def)
      have "commit_temp t (fc_Path c) w = (Ok (), w1)" using o Inr by (simp add: commit_temp_def)
      from commit_temp_ok [OF this l assms(6,5,7)] r Renaming show ?thesis by (auto simp: turn_ok_def)
    qed
  next
    case (Removing u e)
    with assms(1,4) have "w' = discard t w" "ph' = Finished (Err e)" by simp_all
    with own show ?thesis by (auto intro!: turn_okI [OF discard_touches])
  qed (use assms(4) in simp_all)
qed

end
