(* ===== verification/Writer_Concurrent.thy ===== *)
theory Writer_Concurrent
  imports Writer_Turns
begin

text \<open>
  Any number of writers at the same time, to the same or to different targets, with the sweep between their steps.
\<close>

section \<open>A pool of writers\<close>

record writer =
  wr_config :: FileConfig
  wr_content :: string
  wr_phase :: phase

datatype pool_event = Turn nat | Swept "string list"

definition pool_step :: "(string \<Rightarrow> world \<Rightarrow> string list option) \<Rightarrow> pool_event \<Rightarrow> writer list \<times> world \<Rightarrow> writer list \<times> world" where
  "pool_step glob e s =
     (case (e, s) of
        (Turn i, ws, w) \<Rightarrow>
          (if length ws \<le> i then (ws, w)
           else (case writer_turn (wr_config (ws ! i)) (wr_content (ws ! i)) (wr_phase (ws ! i)) w of
                   (ph, w') \<Rightarrow> (ws[i := (ws ! i)\<lparr>wr_phase := ph\<rparr>], w')))
      | (Swept dirs, ws, w) \<Rightarrow> (ws, snd (CleanupOrphanedTempFiles glob dirs w)))"

definition pool_run ::
  "(string \<Rightarrow> world \<Rightarrow> string list option) \<Rightarrow> pool_event list \<Rightarrow> writer list \<times> world \<Rightarrow> writer list \<times> world" where
  "pool_run glob evs s = fold (pool_step glob) evs s"

section \<open>The invariant of the pool\<close>

text \<open>What the writers of a pool can put under a name, and that a node has been seen under a name since the beginning.\<close>

definition pool_node :: "writer list \<Rightarrow> world \<Rightarrow> string \<Rightarrow> node \<Rightarrow> bool" where
  "pool_node ws w0 p n \<longleftrightarrow> (\<exists>x \<in> set ws. fc_Path (wr_config x) = p \<and> n = written (wr_config x) (wr_content x) w0)"

definition seen :: "world \<Rightarrow> world \<Rightarrow> string \<Rightarrow> node \<Rightarrow> bool" where
  "seen w0 w p n \<longleftrightarrow> (\<exists>hs. w_hist w = hs @ w_hist w0 \<and> (\<exists>ns \<in> set hs. map_of ns p = Some n))"

definition pool_paths :: "writer list \<Rightarrow> string set" where
  "pool_paths ws = (\<lambda>x. fc_Path (wr_config x)) ` set ws"

text \<open>
  The names still to be drawn are free, and those in use were drawn and belong to one writer each; \<open>rand\<close> are the random
  bytes at the beginning, of which \<open>k\<close> names have been drawn.
\<close>

definition names_ok :: "string set \<Rightarrow> 8 word list \<Rightarrow> nat \<Rightarrow> writer list \<Rightarrow> world \<Rightarrow> bool" where
  "names_ok P rand k ws w \<longleftrightarrow> w_rand w = drop (8 * k) rand \<and>
     k + length (filter (\<lambda>x. unnamed (wr_phase x)) ws) \<le> length ws \<and>
     (\<forall>x \<in> set ws. \<forall>t. temp_of (wr_phase x) = Some t \<longrightarrow> (\<exists>j < k. t = temp_name (fc_Path (wr_config x)) (drawn_name rand j))) \<and>
     (\<forall>p \<in> P. \<forall>j. k \<le> j \<longrightarrow> j < length ws \<longrightarrow> lookup w (temp_name p (drawn_name rand j)) = None) \<and>
     (\<forall>i < length ws. \<forall>j < length ws. i \<noteq> j \<longrightarrow> temp_of (wr_phase (ws ! i)) = temp_of (wr_phase (ws ! j)) \<longrightarrow>
        temp_of (wr_phase (ws ! i)) = None)"

definition writer_ok :: "world \<Rightarrow> writer \<Rightarrow> world \<Rightarrow> bool" where
  "writer_ok w0 x w \<longleftrightarrow> phase_ok w0 (wr_config x) (wr_content x) (wr_phase x) w \<and>
     (wr_phase x = Finished (Ok ()) \<longrightarrow> seen w0 w (fc_Path (wr_config x)) (written (wr_config x) (wr_content x) w0))"

definition pool_inv :: "string set \<Rightarrow> world \<Rightarrow> writer list \<times> world \<Rightarrow> bool" where
  "pool_inv P w0 s \<longleftrightarrow> (case s of (ws, w) \<Rightarrow>
     (\<exists>k. names_ok P (w_rand w0) k ws w) \<and> (\<forall>x \<in> set ws. writer_ok w0 x w) \<and> same_ids w0 w \<and>
     evolves P (pool_node ws w0) w0 w)"

lemma seen_mono: "seen w0 w p n \<Longrightarrow> w_hist w' = hs @ w_hist w \<Longrightarrow> seen w0 w' p n"
  unfolding seen_def by (metis append.assoc set_append UnI2)

lemma evolves_hist: "evolves P F w w' \<Longrightarrow> \<exists>hs. w_hist w' = hs @ w_hist w"
  by (auto simp: evolves_def)

lemma seen_evolves: "seen w0 w p n \<Longrightarrow> evolves P F w w' \<Longrightarrow> seen w0 w' p n"
  using evolves_hist seen_mono by metis

text \<open>A step of somebody else keeps what holds of a writer, if it leaves its temporary file alone or removes it.\<close>

lemma writer_ok_frame:
  assumes "writer_ok w0 x w" and "evolves P F w w'"
    and "\<And>t. temp_of (wr_phase x) = Some t \<Longrightarrow> lookup w' t = lookup w t \<or> lookup w' t = None"
  shows "writer_ok w0 x w'"
  using assms phase_ok_frame [of w0 "wr_config x" "wr_content x" "wr_phase x" w w'] seen_evolves [OF _ assms(2)]
  by (auto simp: writer_ok_def)

text \<open>The next \<open>n\<close> names that will be drawn are different, and none is in use for a target in \<open>P\<close>.\<close>

definition names_free :: "string set \<Rightarrow> nat \<Rightarrow> world \<Rightarrow> bool" where
  "names_free P n w \<longleftrightarrow> 8 * n \<le> length (w_rand w) \<and>
     (\<forall>i < n. \<forall>j < n. drawn_name (w_rand w) i = drawn_name (w_rand w) j \<longrightarrow> i = j) \<and>
     (\<forall>p \<in> P. \<forall>j < n. lookup w (temp_name p (drawn_name (w_rand w) j)) = None)"

lemma names_free_mono: "names_free P n w \<Longrightarrow> m \<le> n \<Longrightarrow> names_free P m w"
  by (simp add: names_free_def)

definition unseen :: "world \<Rightarrow> writer list \<Rightarrow> bool" where
  "unseen w ws \<longleftrightarrow> names_free (pool_paths ws) (length ws) w"

lemma pool_inv_start:
  assumes "\<forall>x \<in> set ws. wr_phase x = Checking" and "names_free P (length ws) w0"
  shows "pool_inv P w0 (ws, w0)"
proof -
  have "filter (\<lambda>x. unnamed (wr_phase x)) ws = ws" using assms(1) by (simp add: filter_id_conv)
  then have "names_ok P (w_rand w0) 0 ws w0"
    using assms by (auto simp: names_ok_def names_free_def)
  then show ?thesis using assms(1) by (auto simp: pool_inv_def writer_ok_def same_ids_def)
qed

text \<open>A sweep only removes temporary names.\<close>

lemma pool_swept:
  assumes "pool_inv P w0 (ws, w)" and "\<forall>d \<in> set ds. \<not> has_meta d" and "\<forall>p \<in> P. p \<notin> tmp_names"
  shows "pool_inv P w0 (ws, snd (CleanupOrphanedTempFiles glob ds w))"
proof -
  let ?w = "snd (CleanupOrphanedTempFiles glob ds w)"
  have p: "prunes w ?w" unfolding CleanupOrphanedTempFiles_def by (rule clean_dirs_prunes [OF assms(2)])
  then have l: "lookup ?w q = lookup w q \<or> lookup ?w q = None" for q by (simp add: prunes_def)
  have e: "evolves P (pool_node ws w0) w ?w"
    using p assms(3) by (intro evolves_touches [of tmp_names]) (auto simp: prunes_def)
  from assms(1) obtain k where k: "names_ok P (w_rand w0) k ws w" by (auto simp: pool_inv_def)
  have "names_ok P (w_rand w0) k ws ?w"
    using k l sweep_rand [of glob ds w] unfolding names_ok_def by metis
  moreover have "same_ids w ?w" using p by (auto simp: prunes_def intro: same_ids_touches)
  moreover have "writer_ok w0 x ?w" if "x \<in> set ws" for x
    using assms(1) that l by (intro writer_ok_frame [OF _ e]) (auto simp: pool_inv_def)
  ultimately show ?thesis using assms(1) e by (auto simp: pool_inv_def intro: evolves_trans same_ids_trans)
qed

lemma turn_ok_frame:
  assumes "turn_ok w0 c d ph w ph' w'" and "q \<notin> own_names c ph" and "q \<noteq> fc_Path c"
  shows "lookup w' q = lookup w q"
  using assms only_touches_lookup [of "own_names c ph" w w' q]
  by (auto simp: turn_ok_def lookup_def own_names_def)

lemma turn_ok_evolves:
  assumes "turn_ok w0 c d ph w ph' w'" and "own_names c ph \<inter> P = {}" and "F (fc_Path c) (written c d w0)"
  shows "evolves P F w w' \<and> same_ids w w'"
  using assms(1)
proof (cases rule: turn_ok_cases)
  case touch
  with evolves_touches assms(2) same_ids_touches show ?thesis by blast
next
  case t: (commit t)
  have "t \<notin> P" using assms(2) t(1) by (auto simp: own_names_def)
  from evolves_commit [where F = F, OF t(2,4) this assms(3)] t(3) show ?thesis by blast
qed

text \<open>A turn of a writer keeps what the invariant says of it.\<close>

lemma turn_ok_self:
  assumes "turn_ok w0 (wr_config x) (wr_content x) (wr_phase x) w ph' w'" and "writer_ok w0 x w" and "w_hist w = hs @ w_hist w0"
    and "evolves P F w w'" and "\<And>t. wr_phase x = Renaming t \<Longrightarrow> t \<noteq> fc_Path (wr_config x)"
  shows "writer_ok w0 (x\<lparr>wr_phase := ph'\<rparr>) w'"
proof -
  let ?p = "fc_Path (wr_config x)" and ?n = "written (wr_config x) (wr_content x) w0"
  have "seen w0 w' ?p ?n" if f: "ph' = Finished (Ok ())"
    using assms(1)
  proof (cases rule: turn_ok_cases)
    case touch
    with f assms(2) seen_evolves [OF _ assms(4)] show ?thesis by (simp add: writer_ok_def)
  next
    case t: (commit t)
    have "map_of (w_nodes w') ?p = Some ?n" using t(4) assms(5) [OF t(1)] by simp
    with t(2) assms(3) show ?thesis by (auto simp: seen_def)
  qed
  with assms(1) show ?thesis by (auto simp: writer_ok_def turn_ok_def)
qed

lemma image_update:
  assumes "i < length ws" and "f y = f (ws ! i)"
  shows "f ` set (ws[i := y]) = f ` set ws"
proof -
  have "map f (ws[i := y]) = map f ws" using assms by (simp add: map_update list_update_same_conv)
  then show ?thesis by (metis image_set)
qed

lemma pool_node_update: "i < length ws \<Longrightarrow> pool_node (ws[i := (ws ! i)\<lparr>wr_phase := ph\<rparr>]) w0 = pool_node ws w0"
proof -
  assume i: "i < length ws"
  let ?f = "\<lambda>x. (fc_Path (wr_config x), written (wr_config x) (wr_content x) w0)"
  have "pool_node us w0 q n \<longleftrightarrow> (q, n) \<in> ?f ` set us" for us q n by (auto simp: pool_node_def)
  moreover have "?f ` set (ws[i := (ws ! i)\<lparr>wr_phase := ph\<rparr>]) = ?f ` set ws" by (rule image_update [OF i]) simp
  ultimately show ?thesis by (intro ext) simp
qed

lemma count_update:
  assumes "i < length xs" and "P y \<Longrightarrow> P (xs ! i)"
  shows "length (filter P (xs[i := y])) \<le> length (filter P xs)"
    and "P (xs ! i) \<Longrightarrow> \<not> P y \<Longrightarrow> Suc (length (filter P (xs[i := y]))) \<le> length (filter P xs)"
proof -
  let ?A = "{j. j < length xs \<and> P (xs ! j)}" and ?B = "{j. j < length (xs[i := y]) \<and> P (xs[i := y] ! j)}"
  have sub: "?B \<subseteq> ?A" using assms by (auto simp: nth_list_update split: if_split_asm)
  then show "length (filter P (xs[i := y])) \<le> length (filter P xs)"
    unfolding length_filter_conv_card by (intro card_mono) auto
  assume "P (xs ! i)" "\<not> P y"
  with assms(1) have "i \<in> ?A" "i \<notin> ?B" by simp_all
  with sub have "?B \<subset> ?A" by blast
  then show "Suc (length (filter P (xs[i := y]))) \<le> length (filter P xs)"
    unfolding length_filter_conv_card Suc_le_eq by (intro psubset_card_mono) auto
qed

lemma names_ok_parts:
  assumes "names_ok P rand k ws w"
  shows "w_rand w = drop (8 * k) rand" and "k + length (filter (\<lambda>x. unnamed (wr_phase x)) ws) \<le> length ws"
    and "x \<in> set ws \<Longrightarrow> temp_of (wr_phase x) = Some t \<Longrightarrow> \<exists>j < k. t = temp_name (fc_Path (wr_config x)) (drawn_name rand j)"
    and "p \<in> P \<Longrightarrow> k \<le> j \<Longrightarrow> j < length ws \<Longrightarrow> lookup w (temp_name p (drawn_name rand j)) = None"
    and "i < length ws \<Longrightarrow> j < length ws \<Longrightarrow> i \<noteq> j \<Longrightarrow> temp_of (wr_phase (ws ! i)) = temp_of (wr_phase (ws ! j)) \<Longrightarrow>
      temp_of (wr_phase (ws ! i)) = None"
  using assms by (auto simp: names_ok_def)

lemma names_turn:
  assumes "names_ok P rand k ws w" and "i < length ws" and "temp_of ph = None \<or> temp_of ph = temp_of (wr_phase (ws ! i))"
    and "unnamed ph \<longrightarrow> unnamed (wr_phase (ws ! i))" and "w_rand w' = w_rand w"
    and "\<And>p j. p \<in> P \<Longrightarrow> k \<le> j \<Longrightarrow> j < length ws \<Longrightarrow>
      lookup w' (temp_name p (drawn_name rand j)) = lookup w (temp_name p (drawn_name rand j))"
  shows "names_ok P rand k (ws[i := (ws ! i)\<lparr>wr_phase := ph\<rparr>]) w'"
proof -
  let ?y = "(ws ! i)\<lparr>wr_phase := ph\<rparr>" and ?ws = "ws[i := (ws ! i)\<lparr>wr_phase := ph\<rparr>]"
  note n = names_ok_parts [OF assms(1)]
  have "length (filter (\<lambda>x. unnamed (wr_phase x)) ?ws) \<le> length (filter (\<lambda>x. unnamed (wr_phase x)) ws)"
    using assms(2,4) by (intro count_update(1)) auto
  then have c: "k + length (filter (\<lambda>x. unnamed (wr_phase x)) ?ws) \<le> length ws" using n(2) by simp
  have t: "\<exists>j < k. t = temp_name (fc_Path (wr_config x)) (drawn_name rand j)"
    if "x \<in> set ?ws" "temp_of (wr_phase x) = Some t" for x t
  proof (cases "x = ?y")
    case True
    with that(2) assms(3) have "temp_of (wr_phase (ws ! i)) = Some t" by auto
    with n(3) [of "ws ! i" t] assms(2) True show ?thesis by simp
  next
    case False
    with that(1) have "x \<in> set ws" by (auto dest: set_update_subset_insert [THEN subsetD])
    with n(3) that(2) show ?thesis by blast
  qed
  have d: "temp_of (wr_phase (?ws ! j)) = None"
    if "j < length ws" "l < length ws" "j \<noteq> l" "temp_of (wr_phase (?ws ! j)) = temp_of (wr_phase (?ws ! l))" for j l
    using that n(5) [of j l] assms(2,3) by (cases "j = i"; cases "l = i") auto
  show ?thesis
    unfolding names_ok_def length_list_update
    using n(1,4) c t d assms(5,6) by auto
qed

lemma names_free_inj:
  "names_free P n w \<Longrightarrow> i < n \<Longrightarrow> j < n \<Longrightarrow> drawn_name (w_rand w) i = drawn_name (w_rand w) j \<Longrightarrow> i = j"
  unfolding names_free_def by blast

lemma names_draw:
  assumes "names_ok P rand k ws w" and "i < length ws" and "unnamed (wr_phase (ws ! i))" and "names_free P (length ws) w0" and "w_rand w0 = rand"
    and "w_rand w' = drop (8 * Suc k) rand" and "w_nodes w' = w_nodes w"
  shows "names_ok P rand (Suc k) (ws[i := (ws ! i)\<lparr>wr_phase := Opening (temp_name (fc_Path (wr_config (ws ! i))) (drawn_name rand k))\<rparr>]) w'"
proof -
  let ?t = "temp_name (fc_Path (wr_config (ws ! i))) (drawn_name rand k)"
  let ?y = "(ws ! i)\<lparr>wr_phase := Opening ?t\<rparr>" and ?ws = "ws[i := (ws ! i)\<lparr>wr_phase := Opening ?t\<rparr>]"
  note n = names_ok_parts [OF assms(1)]
  have c: "Suc k + length (filter (\<lambda>x. unnamed (wr_phase x)) ?ws) \<le> length ws"
    using count_update(2) [of i ws "\<lambda>x. unnamed (wr_phase x)" ?y] n(2) assms(2,3) by simp
  then have k: "k < length ws" by simp
  have t: "\<exists>j < Suc k. t = temp_name (fc_Path (wr_config x)) (drawn_name rand j)"
    if "x \<in> set ?ws" "temp_of (wr_phase x) = Some t" for x t
  proof (cases "x = ?y")
    case True
    with that(2) show ?thesis by auto
  next
    case False
    with that(1) have "x \<in> set ws" by (auto dest: set_update_subset_insert [THEN subsetD])
    with n(3) that(2) less_SucI show ?thesis by metis
  qed
  have new: "temp_of (wr_phase (ws ! l)) \<noteq> Some ?t" if "l < length ws" for l
  proof
    assume "temp_of (wr_phase (ws ! l)) = Some ?t"
    with n(3) [of "ws ! l"] that obtain j where j: "j < k" "?t = temp_name (fc_Path (wr_config (ws ! l))) (drawn_name rand j)" by auto
    from temp_name_inj [OF j(2)] drawn_name_free have "drawn_name rand k = drawn_name rand j" by blast
    with names_free_inj [OF assms(4), of k j] assms(5) j(1) k show False by simp
  qed
  have d: "temp_of (wr_phase (?ws ! j)) = None"
    if "j < length ws" "l < length ws" "j \<noteq> l" "temp_of (wr_phase (?ws ! j)) = temp_of (wr_phase (?ws ! l))" for j l
    using that n(5) [of j l] new [of j] new [of l] assms(2) by (cases "j = i"; cases "l = i") auto
  have l: "lookup w' q = lookup w q" for q by (rule lookup_nodes [OF assms(7)])
  have f: "lookup w' (temp_name p (drawn_name rand j)) = None" if "p \<in> P" "Suc k \<le> j" "j < length ws" for p j
    using n(4) [of p j] that by (simp add: l)
  show ?thesis
    unfolding names_ok_def length_list_update
    using c assms(6) t f d by blast
qed

lemma temp_placed:
  assumes "names_ok P rand k ws w" and "apart P" and "x \<in> set ws" and "pool_paths ws \<subseteq> P" and "temp_of (wr_phase x) = Some t"
  shows "t \<notin> P" and "t \<noteq> ''/''" and "q \<in> P \<Longrightarrow> t \<notin> set (dir_chain (filepath_Dir q))"
    and "p \<in> P \<Longrightarrow> k \<le> j \<Longrightarrow> j < length ws \<Longrightarrow> names_free P (length ws) w0 \<Longrightarrow> w_rand w0 = rand \<Longrightarrow> temp_name p (drawn_name rand j) \<noteq> t"
proof -
  let ?p = "fc_Path (wr_config x)"
  obtain l where l: "l < k" "t = temp_name ?p (drawn_name rand l)" using names_ok_parts(3) [OF assms(1,3,5)] by blast
  have p: "?p \<in> P" using assms(3,4) by (auto simp: pool_paths_def)
  then have "proper_path ?p" using assms(2) by (simp add: apart_def)
  note c = proper_path_dir_chain [OF this drawn_name_free(1)]
  note a = temps_avoid(1,2) [OF assms(2) p _ drawn_name_free(1)]
  show "t \<notin> P" using a(1) p l(2) by simp
  show "t \<noteq> ''/''" using c(6) l(2) by simp
  show "t \<notin> set (dir_chain (filepath_Dir q))" if "q \<in> P" using a(2) [OF that] l(2) by simp
  assume j: "p \<in> P" "k \<le> j" "j < length ws" "names_free P (length ws) w0" "w_rand w0 = rand"
  show "temp_name p (drawn_name rand j) \<noteq> t"
  proof
    assume "temp_name p (drawn_name rand j) = t"
    with l(2) have "temp_name p (drawn_name rand j) = temp_name ?p (drawn_name rand l)" by simp
    from temp_name_inj [OF this] drawn_name_free have "drawn_name rand j = drawn_name rand l" by blast
    with names_free_inj [OF j(4), of j l] j l(1) show False by simp
  qed
qed

lemma any_turn:
  assumes "writer_turn c d ph w = (ph', w')" and "ph \<noteq> MakingDirs []" and "phase_ok w0 c d ph w" and "same_ids w0 w"
    and "proper_path (fc_Path c)" and "\<And>t. temp_of ph = Some t \<Longrightarrow> t \<noteq> ''/'' \<and> t \<noteq> fc_Path c"
  shows "turn_ok w0 c d ph w ph' w'"
proof (cases "temp_of ph")
  case (Some t)
  with temp_turn [OF assms(1,3,4)] assms(5,6) show ?thesis by (auto simp: proper_path_def)
next
  case None
  show ?thesis
  proof (cases ph)
    case Checking
    with assms(1) checking_turn show ?thesis by simp
  next
    case (MakingDirs ds)
    with assms(2) obtain e es where "ds = e # es" by (cases ds) auto
    with dirs_turn assms(1,3,5) MakingDirs show ?thesis by simp
  next
    case (Finished r)
    with assms(1) show ?thesis by (auto simp: turn_ok_def)
  qed (use None in simp_all)
qed

lemma pool_turn:
  assumes "pool_inv P w0 (ws, w)" and "apart P" and "names_free P (length ws) w0" and "i < length ws"
    and "writer_turn (wr_config (ws ! i)) (wr_content (ws ! i)) (wr_phase (ws ! i)) w = (ph, w')" and "pool_paths ws \<subseteq> P"
  shows "pool_inv P w0 (ws[i := (ws ! i)\<lparr>wr_phase := ph\<rparr>], w')"
proof -
  let ?x = "ws ! i" and ?rand = "w_rand w0" and ?ws = "ws[i := (ws ! i)\<lparr>wr_phase := ph\<rparr>]"
  let ?c = "wr_config ?x" and ?d = "wr_content ?x" and ?F = "pool_node ws w0"
  from assms(1) obtain k where k: "names_ok P ?rand k ws w" and ok: "\<And>x. x \<in> set ws \<Longrightarrow> writer_ok w0 x w"
    and ids: "same_ids w0 w" and ev: "evolves P ?F w0 w" by (auto simp: pool_inv_def)
  have x: "?x \<in> set ws" using assms(4) by simp
  then have p: "fc_Path ?c \<in> P" using assms(6) by (auto simp: pool_paths_def)
  then have path: "proper_path (fc_Path ?c)" using assms(2) by (simp add: apart_def)
  have F: "?F (fc_Path ?c) (written ?c ?d w0)" using x by (auto simp: pool_node_def)
  obtain hs where hs: "w_hist w = hs @ w_hist w0" using evolves_hist [OF ev] by blast
  have finish: "pool_inv P w0 (?ws, w')" if g: "\<exists>k. names_ok P ?rand k ?ws w'" "evolves P ?F w w'" "same_ids w w'"
    "writer_ok w0 (?x\<lparr>wr_phase := ph\<rparr>) w'"
    "\<And>j t. j < length ws \<Longrightarrow> j \<noteq> i \<Longrightarrow> temp_of (wr_phase (ws ! j)) = Some t \<Longrightarrow> lookup w' t = lookup w t"
  proof -
    have "writer_ok w0 y w'" if y: "y \<in> set ?ws" for y
    proof -
      from y obtain j where j: "j < length ws" "y = ?ws ! j" by (auto simp: in_set_conv_nth)
      show ?thesis
      proof (cases "j = i")
        case False
        with j have "y = ws ! j" by simp
        with writer_ok_frame [OF ok g(2), of y] g(5) [OF j(1) False] j(1) show ?thesis by auto
      qed (use j g(4) assms(4) in simp)
    qed
    with g(1-3) ids ev show ?thesis
      by (auto simp: pool_inv_def pool_node_update [OF assms(4)] intro: evolves_trans same_ids_trans)
  qed
  show ?thesis
  proof (cases "wr_phase ?x = MakingDirs []")
    case True
    have "?x \<in> set (filter (\<lambda>x. unnamed (wr_phase x)) ws)" using x True by simp
    then have "0 < length (filter (\<lambda>x. unnamed (wr_phase x)) ws)" by (rule length_pos_if_in_set)
    with names_ok_parts(2) [OF k] have kl: "k < length ws" by linarith
    obtain r w1 where r: "randomString 8 w = (r, w1)" by (cases "randomString 8 w")
    have "8 * Suc k \<le> length ?rand" using kl assms(3) by (simp add: names_free_def)
    note dr = draw [OF r names_ok_parts(1) [OF k] this]
    let ?t = "temp_name (fc_Path ?c) (drawn_name ?rand k)"
    have ph: "ph = Opening ?t" "w' = w1" using assms(5) True r dr by simp_all
    have w1: "w_nodes w1 = w_nodes w" "w_rand w1 = drop (8 * Suc k) ?rand" using dr by simp_all
    have l: "lookup w1 q = lookup w q" for q by (rule lookup_nodes [OF w1(1)])
    have t: "only_touches {} w w1" using randomString_facts(2) [OF r] .
    have free: "lookup w ?t = None" by (rule names_ok_parts(4) [OF k p order_refl kl])
    show ?thesis
    proof (rule finish)
      show "\<exists>k. names_ok P ?rand k ?ws w'"
        using names_draw [OF k assms(4) _ assms(3) refl w1(2,1)] True ph by auto
      show "evolves P ?F w w'" using evolves_touches [OF t] ph by simp
      show "same_ids w w'" using same_ids_touches [OF t] ph by simp
      show "writer_ok w0 (?x\<lparr>wr_phase := ph\<rparr>) w'" using free l by (simp add: writer_ok_def ph)
    qed (simp add: ph l)
  next
    case False
    note place = temp_placed [OF k assms(2) x assms(6)]
    have tp: "t \<noteq> ''/'' \<and> t \<noteq> fc_Path ?c" if "temp_of (wr_phase ?x) = Some t" for t
      using place(1,2) [OF that] p by auto
    have "phase_ok w0 ?c ?d (wr_phase ?x) w" using ok [OF x] by (simp add: writer_ok_def)
    note tk = any_turn [OF assms(5) False this ids path tp]
    have own: "own_names ?c (wr_phase ?x) \<inter> P = {}"
      using temps_avoid(3) [OF assms(2) _ p, of _ "[]"] place(1) by (auto simp: own_names_def)
    note e = turn_ok_evolves [where F = ?F, OF tk own F]
    have temp: "lookup w' t = lookup w t"
      if "t \<notin> P" "t \<notin> set (dir_chain (filepath_Dir (fc_Path ?c)))" "temp_of (wr_phase ?x) \<noteq> Some t" for t
      using that p by (intro turn_ok_frame [OF tk]) (auto simp: own_names_def)
    show ?thesis
    proof (rule finish)
      have "lookup w' (temp_name q (drawn_name ?rand j)) = lookup w (temp_name q (drawn_name ?rand j))"
        if j: "q \<in> P" "k \<le> j" "j < length ws" for q j
        using temps_avoid(1,2) [OF assms(2) j(1) p drawn_name_free(1)] place(4) [OF _ j assms(3) refl] by (intro temp) auto
      then show "\<exists>k. names_ok P ?rand k ?ws w'"
        using names_turn [OF k assms(4) _ _ turn_rand [OF assms(5) False]] tk by (auto simp: turn_ok_def)
      show "evolves P ?F w w'" "same_ids w w'" using e by simp_all
      show "writer_ok w0 (?x\<lparr>wr_phase := ph\<rparr>) w'"
        by (rule turn_ok_self [OF tk ok [OF x] hs]) (use e tp in auto)
      show "lookup w' t = lookup w t" if j: "j < length ws" "j \<noteq> i" "temp_of (wr_phase (ws ! j)) = Some t" for j t
      proof (rule temp)
        note pl = temp_placed [OF k assms(2) nth_mem [OF j(1)] assms(6) j(3)]
        show "t \<notin> P" "t \<notin> set (dir_chain (filepath_Dir (fc_Path ?c)))" using pl(1,3) p by auto
        show "temp_of (wr_phase ?x) \<noteq> Some t" using names_ok_parts(5) [OF k j(1) assms(4) j(2)] j(3) by auto
      qed
    qed
  qed
qed

section \<open>Runs\<close>

definition static_part :: "writer list \<Rightarrow> (FileConfig \<times> string) list" where
  "static_part ws = map (\<lambda>x. (wr_config x, wr_content x)) ws"

lemma static_part_update: "i < length ws \<Longrightarrow> static_part (ws[i := (ws ! i)\<lparr>wr_phase := ph\<rparr>]) = static_part ws"
  by (simp add: static_part_def map_update list_update_same_conv)

lemma static_part_facts:
  assumes "static_part ws = static_part vs"
  shows "length ws = length vs" and "pool_paths ws = pool_paths vs" and "pool_node ws w0 = pool_node vs w0"
    and "i < length vs \<Longrightarrow> wr_config (ws ! i) = wr_config (vs ! i) \<and> wr_content (ws ! i) = wr_content (vs ! i)"
proof -
  let ?f = "\<lambda>x. (wr_config x, wr_content x)"
  show l: "length ws = length vs" using arg_cong [OF assms, of length] by (simp add: static_part_def)
  have e: "?f ` set ws = ?f ` set vs" using arg_cong [OF assms, of set] by (simp add: static_part_def)
  have "pool_paths us = (\<lambda>y. fc_Path (fst y)) ` ?f ` set us" for us by (auto simp: pool_paths_def image_image)
  with e show "pool_paths ws = pool_paths vs" by simp
  have n: "pool_node us w0 q n \<longleftrightarrow> (\<exists>y \<in> ?f ` set us. fc_Path (fst y) = q \<and> n = written (fst y) (snd y) w0)" for us q n
    by (auto simp: pool_node_def)
  show "pool_node ws w0 = pool_node vs w0" by (intro ext) (simp only: n e)
  show "wr_config (ws ! i) = wr_config (vs ! i) \<and> wr_content (ws ! i) = wr_content (vs ! i)" if "i < length vs"
    using arg_cong [OF assms, of "\<lambda>l. l ! i"] that l by (simp add: static_part_def)
qed

lemma pool_step_static: "pool_step glob e (ws, w) = (ws', w') \<Longrightarrow> static_part ws' = static_part ws"
  by (auto simp: pool_step_def static_part_update split: pool_event.splits if_split_asm prod.splits)

definition plain_sweeps :: "pool_event list \<Rightarrow> bool" where
  "plain_sweeps evs \<longleftrightarrow> (\<forall>ds. Swept ds \<in> set evs \<longrightarrow> (\<forall>d \<in> set ds. \<not> has_meta d))"

lemma pool_run_inv:
  assumes "pool_inv P w0 (ws, w)" and "apart P" and "names_free P (length ws) w0" and "\<forall>p \<in> P. p \<notin> tmp_names"
    and "plain_sweeps evs" and "pool_run glob evs (ws, w) = (ws', w')" and "pool_paths ws \<subseteq> P"
  shows "pool_inv P w0 (ws', w') \<and> static_part ws' = static_part ws"
  using assms
proof (induction evs arbitrary: ws w)
  case Nil
  then show ?case by (simp add: pool_run_def)
next
  case (Cons e evs)
  obtain us u where st: "pool_step glob e (ws, w) = (us, u)" by (rule prod.exhaust)
  have inv: "pool_inv P w0 (us, u)"
  proof (cases e)
    case (Turn i)
    show ?thesis
    proof (cases "i < length ws")
      case True
      obtain ph u' where t: "writer_turn (wr_config (ws ! i)) (wr_content (ws ! i)) (wr_phase (ws ! i)) w = (ph, u')"
        by (rule prod.exhaust)
      from pool_turn [OF Cons.prems(1-3) True t Cons.prems(7)] t st Turn True show ?thesis by (simp add: pool_step_def)
    qed (use Cons.prems(1) st Turn in \<open>simp add: pool_step_def\<close>)
  next
    case (Swept ds)
    then have ds: "\<forall>d \<in> set ds. \<not> has_meta d" using Cons.prems(5) by (simp add: plain_sweeps_def)
    from pool_swept [OF Cons.prems(1) ds Cons.prems(4), of glob] st Swept show ?thesis by (simp add: pool_step_def)
  qed
  note s = pool_step_static [OF st]
  have "pool_run glob evs (us, u) = (ws', w')" using Cons.prems(6) st by (simp add: pool_run_def)
  from Cons.IH [OF inv _ _ _ _ this] Cons.prems(2-5,7) static_part_facts(1,2) [OF s] s show ?case
    by (simp add: plain_sweeps_def)
qed

text \<open>
  C9: concurrent writes are atomic.  Take any number of writers, with the same or different targets, on any disk, and
  let their system calls and any sweeps be interleaved in any way, with any of them failing.  If the targets do not get
  into each other's way, none looks like a temporary file, and the random bytes give the writers different names that are
  not in use, then every state of the disk since the start has at each target its old node or the complete file of one of the
  writers, with its content, mode and owner; and a writer that has reported success has had its file there.
\<close>

theorem concurrent_writers_atomic:
  assumes "\<forall>x \<in> set ws0. wr_phase x = Checking" and "apart (pool_paths ws0)" and "\<forall>p \<in> pool_paths ws0. p \<notin> tmp_names"
    and "unseen w0 ws0" and "plain_sweeps evs" and "pool_run glob evs (ws0, w0) = (ws, w)"
  shows "\<exists>hs. w_hist w = hs @ w_hist w0 \<and>
           (\<forall>p \<in> pool_paths ws0. \<forall>ns \<in> set (w_nodes w # hs).
              map_of ns p = map_of (w_nodes w0) p \<or>
              (\<exists>x \<in> set ws0. fc_Path (wr_config x) = p \<and> map_of ns p = Some (written (wr_config x) (wr_content x) w0))) \<and>
           (\<forall>i < length ws0. wr_phase (ws ! i) = Finished (Ok ()) \<longrightarrow>
              (\<exists>ns \<in> set hs. map_of ns (fc_Path (wr_config (ws0 ! i))) =
                 Some (written (wr_config (ws0 ! i)) (wr_content (ws0 ! i)) w0)))"
proof -
  note free = assms(4) [unfolded unseen_def]
  from pool_run_inv [OF pool_inv_start [OF assms(1) free] assms(2) free assms(3,5,6) order_refl] have
    inv: "pool_inv (pool_paths ws0) w0 (ws, w)" and st: "static_part ws = static_part ws0" by simp_all
  note f = static_part_facts [OF st]
  from inv have ev: "evolves (pool_paths ws0) (pool_node ws0 w0) w0 w" and ok: "\<And>x. x \<in> set ws \<Longrightarrow> writer_ok w0 x w"
    by (auto simp: pool_inv_def f(2,3))
  from ev obtain hs where hs: "w_hist w = hs @ w_hist w0"
    and n: "\<forall>ns \<in> set (w_nodes w # hs). \<forall>p \<in> pool_paths ws0. node_ok (pool_node ws0 w0) w0 ns p"
    by (auto simp: evolves_def)
  have "\<exists>ns \<in> set hs. map_of ns (fc_Path (wr_config (ws0 ! i))) = Some (written (wr_config (ws0 ! i)) (wr_content (ws0 ! i)) w0)"
    if i: "i < length ws0" "wr_phase (ws ! i) = Finished (Ok ())" for i
    using ok [of "ws ! i"] i f(1) f(4) [OF i(1)] hs by (auto simp: writer_ok_def seen_def)
  moreover have "map_of ns p = map_of (w_nodes w0) p \<or>
      (\<exists>x \<in> set ws0. fc_Path (wr_config x) = p \<and> map_of ns p = Some (written (wr_config x) (wr_content x) w0))"
    if "p \<in> pool_paths ws0" "ns \<in> set (w_nodes w # hs)" for p ns
    using n that unfolding node_ok_def pool_node_def by blast
  ultimately show ?thesis using hs by blast
qed

text \<open>
  No writer waits for another.  Whatever the other writers, the sweep and the faults do, a writer has ended after as
  many turns of its own as there are directories on the way to its target plus seven.
\<close>

theorem concurrent_writer_ends:
  assumes "i < length ws0" and "length (missing_dirs (wr_config (ws0 ! i))) + 7 \<le> length (filter (\<lambda>e. e = Turn i) evs)"
    and "wr_phase (ws0 ! i) = Checking" and "pool_run glob evs (ws0, w0) = (ws, w)"
  shows "\<exists>r. wr_phase (ws ! i) = Finished r"
proof -
  have "turns_left (wr_config (ws0 ! i)) (wr_phase (ws0 ! i)) \<le> length (filter (\<lambda>e. e = Turn i) evs)"
    using assms(2,3) by simp
  with assms(1,4) show ?thesis
  proof (induction evs arbitrary: ws0 w0)
    case Nil
    with no_turns_left show ?case by (simp add: pool_run_def)
  next
    case (Cons e evs)
    obtain us u where st: "pool_step glob e (ws0, w0) = (us, u)" by (rule prod.exhaust)
    note s = static_part_facts(1,4) [OF pool_step_static [OF st]]
    have "turns_left (wr_config (us ! i)) (wr_phase (us ! i)) \<le> length (filter (\<lambda>e. e = Turn i) evs)"
    proof (cases "e = Turn i")
      case True
      obtain ph u' where t: "writer_turn (wr_config (ws0 ! i)) (wr_content (ws0 ! i)) (wr_phase (ws0 ! i)) w0 = (ph, u')"
        by (rule prod.exhaust)
      from turn_decreases [OF t] t st True Cons.prems(1,3) show ?thesis by (auto simp: pool_step_def)
    next
      case False
      then have "us ! i = ws0 ! i"
        using st by (auto simp: pool_step_def split: pool_event.splits if_split_asm prod.splits)
      with False Cons.prems(3) show ?thesis by simp
    qed
    moreover have "pool_run glob evs (us, u) = (ws, w)" using Cons.prems(2) st by (simp add: pool_run_def)
    ultimately show ?case using Cons.IH [of us u] Cons.prems(1) s(1) by simp
  qed
qed

section \<open>Two writers on one target\<close>

definition pool_world :: world where
  "pool_world = sample_world\<lparr>w_rand := [1, 2, 3, 4, 5, 6, 7, 8, 9, 10, 11, 12, 13, 14, 15, 16]\<rparr>"

definition two_writers :: "writer list" where
  "two_writers = [\<lparr>wr_config = sample_fc, wr_content = ''one'', wr_phase = Checking\<rparr>,
                  \<lparr>wr_config = sample_fc, wr_content = ''two'', wr_phase = Checking\<rparr>]"

definition two_turns :: "pool_event list" where
  "two_turns = concat (replicate 8 [Turn 0, Turn 1])"

lemma all_less_two: "(\<forall>i < 2. P i) \<longleftrightarrow> P 0 \<and> P (Suc 0)"
  by (auto simp: less_2_cases_iff)

lemma two_paths: "pool_paths two_writers = {''/out/pw''}"
  by (simp add: pool_paths_def two_writers_def sample_fc_def)

lemma two_ready:
  "apart (pool_paths two_writers)" "\<forall>p \<in> pool_paths two_writers. p \<notin> tmp_names" "unseen pool_world two_writers"
proof -
  have c: "dir_chain (filepath_Dir ''/out/pw'') = [''/out'']" "filepath_Base ''/out/pw'' = ''pw''" "proper_path ''/out/pw''"
    by code_simp+
  show "apart (pool_paths two_writers)" by (simp add: two_paths apart_def c temp_name_def)
  show "\<forall>p \<in> pool_paths two_writers. p \<notin> tmp_names" by (simp add: two_paths tmp_names_def c has_prefix_def)
  have d: "drawn_name (w_rand pool_world) 0 = ''bcdefghi''" "drawn_name (w_rand pool_world) (Suc 0) = ''jklmnopq''" by code_simp+
  have l: "length two_writers = 2" "length (w_rand pool_world) = 16" by (simp_all add: two_writers_def pool_world_def)
  show "unseen pool_world two_writers"
    by (simp add: unseen_def names_free_def two_paths l d all_less_two)
       (simp add: pool_world_def lookup_def sample_world_def temp_name_def)
qed

theorem concurrent_writers_atomic_witness:
  "\<exists>ws w hs. pool_run (\<lambda>_ _. None) two_turns (two_writers, pool_world) = (ws, w) \<and> w_hist w = hs \<and>
     (\<forall>ns \<in> set (w_nodes w # hs). map_of ns ''/out/pw'' = Some (Reg ''old'' 0x180 0 0) \<or>
        map_of ns ''/out/pw'' = Some (Reg ''one'' 0x180 1000 0) \<or> map_of ns ''/out/pw'' = Some (Reg ''two'' 0x180 1000 0))"
proof -
  obtain ws w where r: "pool_run (\<lambda>_ _. None) two_turns (two_writers, pool_world) = (ws, w)" by (rule prod.exhaust)
  have ph: "\<forall>x \<in> set two_writers. wr_phase x = Checking" by (simp add: two_writers_def)
  have sw: "plain_sweeps two_turns" by (simp add: plain_sweeps_def two_turns_def)
  have n: "written sample_fc ''one'' pool_world = Reg ''one'' 0x180 1000 0" "written sample_fc ''two'' pool_world = Reg ''two'' 0x180 1000 0"
    by code_simp+
  have w: "w_hist pool_world = []" "map_of (w_nodes pool_world) ''/out/pw'' = Some (Reg ''old'' 0x180 0 0)"
    by (simp_all add: pool_world_def sample_world_def)
  have m: "map_of ns p = Some (Reg ''one'' 0x180 1000 0) \<or> map_of ns p = Some (Reg ''two'' 0x180 1000 0)"
    if "\<exists>x \<in> set two_writers. fc_Path (wr_config x) = p \<and> map_of ns p = Some (written (wr_config x) (wr_content x) pool_world)"
    for ns :: nodes and p
    using that n by (auto simp: two_writers_def)
  have p: "''/out/pw'' \<in> pool_paths two_writers" by (simp add: two_paths)
  from concurrent_writers_atomic [OF ph two_ready sw r] obtain hs where h0: "w_hist w = hs @ w_hist pool_world"
    and h: "\<forall>p \<in> pool_paths two_writers. \<forall>ns \<in> set (w_nodes w # hs). map_of ns p = map_of (w_nodes pool_world) p \<or>
      (\<exists>x \<in> set two_writers. fc_Path (wr_config x) = p \<and> map_of ns p = Some (written (wr_config x) (wr_content x) pool_world))"
    by blast
  note a = bspec [OF h p, unfolded w]
  have hs: "w_hist w = hs" using h0 w(1) by simp
  have "\<forall>ns \<in> set (w_nodes w # hs). map_of ns ''/out/pw'' = Some (Reg ''old'' 0x180 0 0) \<or>
      map_of ns ''/out/pw'' = Some (Reg ''one'' 0x180 1000 0) \<or> map_of ns ''/out/pw'' = Some (Reg ''two'' 0x180 1000 0)"
    using a m by blast
  with r hs show ?thesis by blast
qed

theorem concurrent_writer_ends_witness:
  "\<exists>r. wr_phase (fst (pool_run (\<lambda>_ _. None) two_turns (two_writers, pool_world)) ! 1) = Finished r"
proof -
  obtain ws w where r: "pool_run (\<lambda>_ _. None) two_turns (two_writers, pool_world) = (ws, w)" by (rule prod.exhaust)
  have "length (missing_dirs (wr_config (two_writers ! 1))) + 7 \<le> length (filter (\<lambda>e. e = Turn 1) two_turns)" by code_simp
  from concurrent_writer_ends [OF _ this _ r] show ?thesis using r by (simp add: two_writers_def)
qed

end
