(* ===== verification/Syncer_Concurrent.thy ===== *)
theory Syncer_Concurrent
  imports Syncer_Steps Writer_Concurrent
begin

text \<open>
  Any number of synchronisations at the same time, as the goroutines of the jobs make them: one syncer, and with it one map of
  clients, one server and one disk, with the sweep in between.  The theory is about what a synchronisation reads, and with
  whose credentials and namespace.
\<close>

section \<open>Synchronisations in parallel\<close>

record task =
  tk_cfg :: Config
  tk_secret :: Secret
  tk_cancelled :: "nat \<Rightarrow> bool"
  tk_phase :: sync_phase

definition task_turn :: "('w, 't) sync_env \<Rightarrow> task \<Rightarrow> 'w shared \<Rightarrow> sync_phase \<times> 'w shared" where
  "task_turn env x sh = sync_turn env (tk_cancelled x) (tk_cfg x) (tk_secret x) (tk_phase x) sh"

definition syncs_step ::
  "('w, 't) sync_env \<Rightarrow> (string \<Rightarrow> world \<Rightarrow> string list option) \<Rightarrow> pool_event \<Rightarrow> task list \<times> 'w shared \<Rightarrow> task list \<times> 'w shared" where
  "syncs_step env glob e s =
     (case (e, s) of
        (Turn i, ts, sh) \<Rightarrow>
          (if length ts \<le> i then (ts, sh)
           else (case task_turn env (ts ! i) sh of (ph, sh') \<Rightarrow> (ts[i := (ts ! i)\<lparr>tk_phase := ph\<rparr>], sh')))
      | (Swept dirs, ts, sh) \<Rightarrow> (ts, sh\<lparr>sh_disk := snd (CleanupOrphanedTempFiles glob dirs (sh_disk sh))\<rparr>))"

definition syncs_run ::
  "('w, 't) sync_env \<Rightarrow> (string \<Rightarrow> world \<Rightarrow> string list option) \<Rightarrow> pool_event list \<Rightarrow> task list \<times> 'w shared \<Rightarrow> task list \<times> 'w shared" where
  "syncs_run env glob evs s = fold (syncs_step env glob) evs s"

text \<open>A step is nothing, a turn of one task, or a sweep.\<close>

lemma syncs_step_cases:
  assumes "syncs_step env glob e (ts, sh) = (ts', sh')"
  obtains (idle) "ts' = ts" and "sh' = sh" and "\<forall>i. e = Turn i \<longrightarrow> length ts \<le> i"
  | (turn) i ph where "e = Turn i" and "i < length ts" and "task_turn env (ts ! i) sh = (ph, sh')"
      and "ts' = ts[i := (ts ! i)\<lparr>tk_phase := ph\<rparr>]"
  | (sweep) dirs where "e = Swept dirs" and "ts' = ts" and "sh' = sh\<lparr>sh_disk := snd (CleanupOrphanedTempFiles glob dirs (sh_disk sh))\<rparr>"
  using assms by (auto simp: syncs_step_def split: pool_event.splits if_split_asm prod.splits)

text \<open>Induction over the events, with what every step keeps.\<close>

lemma syncs_run_keeps:
  assumes "syncs_run env glob evs (ts, sh) = (ts', sh')" and "I (ts, sh)"
    and "\<And>e ts sh ts' sh'. e \<in> set evs \<Longrightarrow> I (ts, sh) \<Longrightarrow> syncs_step env glob e (ts, sh) = (ts', sh') \<Longrightarrow> I (ts', sh')"
  shows "I (ts', sh')"
  using assms
proof (induction evs arbitrary: ts sh)
  case (Cons e evs)
  obtain us u where st: "syncs_step env glob e (ts, sh) = (us, u)" by (rule prod.exhaust)
  have "I (us, u)" by (rule Cons.prems(3) [OF _ Cons.prems(2) st]) simp
  moreover have "syncs_run env glob evs (us, u) = (ts', sh')" using Cons.prems(1) st by (simp add: syncs_run_def)
  ultimately show ?case using Cons.IH Cons.prems(3) by (metis list.set_intros(2))
qed (simp add: syncs_run_def)

text \<open>What of a task does not change.\<close>

definition jobs_of :: "task list \<Rightarrow> (Config \<times> Secret) set" where
  "jobs_of ts = (\<lambda>x. (tk_cfg x, tk_secret x)) ` set ts"

lemma jobs_of_update: "i < length ts \<Longrightarrow> jobs_of (ts[i := (ts ! i)\<lparr>tk_phase := ph\<rparr>]) = jobs_of ts"
  unfolding jobs_of_def by (rule image_update) simp_all

lemma syncs_step_static:
  assumes "syncs_step env glob e (ts, sh) = (ts', sh')"
  shows "length ts' = length ts" and "jobs_of ts' = jobs_of ts"
    and "i < length ts \<Longrightarrow> tk_cfg (ts' ! i) = tk_cfg (ts ! i) \<and> tk_secret (ts' ! i) = tk_secret (ts ! i)"
  using assms by (cases rule: syncs_step_cases; auto simp: jobs_of_update nth_list_update)+

section \<open>No synchronisation waits for another\<close>

text \<open>
  C28: however the turns of the others, the sweeps, the server and the faults fall, a synchronisation has ended after a number of
  its own turns that its retries and its files determine.
\<close>

theorem concurrent_sync_ends:
  assumes "syncs_run env glob evs (ts0, sh0) = (ts, sh)" and "i < length ts0"
    and "sync_left (sv_retry env) (tk_secret (ts0 ! i)) (tk_phase (ts0 ! i)) \<le> length (filter (\<lambda>e. e = Turn i) evs)"
  shows "\<exists>r. tk_phase (ts ! i) = Synced r"
  using assms
proof (induction evs arbitrary: ts0 sh0)
  case Nil
  then show ?case using no_sync_left [of "sv_retry env" "tk_secret (ts0 ! i)" "tk_phase (ts0 ! i)"] by (simp add: syncs_run_def)
next
  case (Cons e evs)
  obtain us u where st: "syncs_step env glob e (ts0, sh0) = (us, u)" by (rule prod.exhaust)
  note s = syncs_step_static [OF st]
  have "sync_left (sv_retry env) (tk_secret (us ! i)) (tk_phase (us ! i)) \<le> length (filter (\<lambda>e. e = Turn i) evs)"
    using st
  proof (cases rule: syncs_step_cases)
    case idle
    with Cons.prems(2,3) show ?thesis by (cases "e = Turn i") auto
  next
    case (turn j ph)
    show ?thesis
    proof (cases "j = i")
      case True
      with turn Cons.prems(3) sync_turn_decreases [OF turn(3) [unfolded task_turn_def]] show ?thesis by simp
    qed (use turn Cons.prems(3) in simp)
  qed (use Cons.prems(3) in simp)
  moreover have "syncs_run env glob evs (us, u) = (ts, sh)" using Cons.prems(1) st by (simp add: syncs_run_def)
  ultimately show ?case using Cons.IH Cons.prems(2) s(1) by metis
qed

section \<open>Which client a synchronisation uses\<close>

fun addr_of :: "sync_phase \<Rightarrow> nat option" where
  "addr_of (Pooling a) = Some a"
| "addr_of (Attempting a rt) = Some a"
| "addr_of (Naming a rt) = Some a"
| "addr_of (Reading a rt) = Some a"
| "addr_of (Reporting a rt r) = Some a"
| "addr_of _ = None"

text \<open>The clients that are in use, each with the name of its credentials.\<close>

definition held :: "task list \<Rightarrow> (string \<times> nat) list \<Rightarrow> (string \<times> nat) set" where
  "held ts pool = set pool \<union> {(n, a). \<exists>x \<in> set ts. n = ResolveCredentials (tk_secret x) \<and> addr_of (tk_phase x) = Some a}"

text \<open>
  A client for a credential name: the one that was in the pool at the beginning, or one that the factory has made from
  credentials which the configuration of some job has under that name.  Fetches change only its namespace.
\<close>

definition first_client :: "('w, 't) sync_env \<Rightarrow> (Config \<times> Secret) set \<Rightarrow> 'w shared \<Rightarrow> string \<Rightarrow> Client \<Rightarrow> bool" where
  "first_client env J sh0 n c \<longleftrightarrow>
     (\<exists>a. map_of (sh_pool sh0) n = Some a \<and> c = sh_clients sh0 ! a) \<or>
     (\<exists>cfg s creds w w'. (cfg, s) \<in> J \<and> ResolveCredentials s = n \<and> GetCredentials (cfg_SecretStore cfg) n = Some creds \<and>
        sv_factory env creds w = (Inr c, w'))"

definition client_for :: "('w, 't) sync_env \<Rightarrow> (Config \<times> Secret) set \<Rightarrow> 'w shared \<Rightarrow> string \<Rightarrow> Client \<Rightarrow> bool" where
  "client_for env J sh0 n c \<longleftrightarrow> (\<exists>c0. first_client env J sh0 n c0 \<and> same_login c0 c)"

definition in_namespace :: "Config \<Rightarrow> Secret \<Rightarrow> Client \<Rightarrow> bool" where
  "in_namespace cfg s c \<longleftrightarrow> (read_namespace cfg s \<noteq> [] \<longrightarrow> ses_Namespace (cl_session c) = read_namespace cfg s)"

text \<open>The answer to a request of a job, with a client of its own credentials in its own namespace, and data from such an answer.\<close>

definition own_client :: "('w, 't) sync_env \<Rightarrow> (Config \<times> Secret) set \<Rightarrow> 'w shared \<Rightarrow> Config \<Rightarrow> Secret \<Rightarrow> Client \<Rightarrow> bool" where
  "own_client env J sh0 cfg s c \<longleftrightarrow> client_for env J sh0 (ResolveCredentials s) c \<and> in_namespace cfg s c"

definition own_answer ::
  "('w, 't) sync_env \<Rightarrow> (Config \<times> Secret) set \<Rightarrow> 'w shared \<Rightarrow> Config \<Rightarrow> Secret \<Rightarrow> vault_error + response \<Rightarrow> bool" where
  "own_answer env J sh0 cfg s r \<longleftrightarrow>
     (\<exists>c w. own_client env J sh0 cfg s c \<and>
        r = fst (api_call (\<lambda>ses. api_Read (sv_api env) ses (read_path s)) SecretPtr c w))"

definition own_data ::
  "('w, 't) sync_env \<Rightarrow> (Config \<times> Secret) set \<Rightarrow> 'w shared \<Rightarrow> Config \<Rightarrow> Secret \<Rightarrow> SecretData \<Rightarrow> bool" where
  "own_data env J sh0 cfg s data \<longleftrightarrow>
     (\<exists>c w secret w'. own_client env J sh0 cfg s c \<and>
        api_Read (sv_api env) (cl_session c) (read_path s) w = (Inr secret, w') \<and>
        unpack_secret (sec_KVVersion s) (sec_Key s) (SecretPtr secret) = Inr data)"

section \<open>The store of clients\<close>

text \<open>What a turn does to the clients and the pool.\<close>

lemma sync_turn_store:
  assumes "sync_turn env cancelled cfg s ph sh = (ph', sh')"
  obtains (keep) "sh_clients sh' = sh_clients sh" and "sh_pool sh' = sh_pool sh"
      and "\<And>a. addr_of ph' = Some a \<Longrightarrow> addr_of ph = Some a \<or> map_of (sh_pool sh) (ResolveCredentials s) = Some a"
      and "\<And>a rt. ph' \<noteq> Reading a rt"
  | (make) creds c w where "ph = Creating creds" and "sv_factory env creds (sh_vault sh) = (Inr c, w)"
      and "ph' = Pooling (length (sh_clients sh))" and "sh_clients sh' = sh_clients sh @ [c]" and "sh_pool sh' = sh_pool sh"
  | (pooled) a where "ph = Pooling a" and "ph' = Attempting a (first_attempt (sv_retry env))"
      and "sh_clients sh' = sh_clients sh" and "sh_pool sh' = AList.update (ResolveCredentials s) a (sh_pool sh)"
  | (name) a rt where "ph = Naming a rt" and "ph' = Reading a rt" and "sh_pool sh' = sh_pool sh"
      and "sh_clients sh' = (sh_clients sh)[a := named (read_namespace cfg s) (sh_clients sh ! a)]"
proof (cases ph)
  case (Creating creds)
  obtain r w where f: "sv_factory env creds (sh_vault sh) = (r, w)" by (rule prod.exhaust)
  show thesis
  proof (cases r)
    case (Inl e)
    with assms Creating f show thesis by (intro keep) auto
  next
    case (Inr c)
    with assms Creating f show thesis by (intro make) auto
  qed
next
  case (Pooling a)
  with assms show thesis by (intro pooled) auto
next
  case (Naming a rt)
  with assms show thesis by (intro name) auto
next
  case (Next_file rendered fs)
  with assms show thesis by (intro keep) (cases fs; auto split: outcome.splits)+
next
  case (In_file rendered fs fc content wp)
  with assms show thesis by (intro keep) (cases wp; auto split: outcome.splits prod.splits)+
qed (use assms in \<open>intro keep; auto simp: Let_def split: if_split_asm option.splits sum.splits outcome.splits prod.splits\<close>)+

definition store_ok :: "('w, 't) sync_env \<Rightarrow> (Config \<times> Secret) set \<Rightarrow> 'w shared \<Rightarrow> (string \<times> nat) set \<Rightarrow> Client list \<Rightarrow> bool" where
  "store_ok env J sh0 H clients \<longleftrightarrow>
     (\<forall>(n, a) \<in> H. a < length clients \<and> client_for env J sh0 n (clients ! a)) \<and>
     (\<forall>n m a. (n, a) \<in> H \<longrightarrow> (m, a) \<in> H \<longrightarrow> n = m)"

lemma store_okD:
  assumes "store_ok env J sh0 H clients" and "(n, a) \<in> H"
  shows "a < length clients" and "client_for env J sh0 n (clients ! a)" and "(m, a) \<in> H \<Longrightarrow> m = n"
  using assms unfolding store_ok_def by blast+

text \<open>What a synchronisation knows in each phase.\<close>

definition own_text ::
  "('w, 't) sync_env \<Rightarrow> (Config \<times> Secret) set \<Rightarrow> 'w shared \<Rightarrow> Config \<Rightarrow> Secret \<Rightarrow> (string \<times> string) list \<Rightarrow> bool" where
  "own_text env J sh0 cfg s rendered \<longleftrightarrow> (\<exists>data. own_data env J sh0 cfg s data \<and> render_secret env s data = Ok rendered)"

fun knows :: "('w, 't) sync_env \<Rightarrow> (Config \<times> Secret) set \<Rightarrow> 'w shared \<Rightarrow> Config \<Rightarrow> Secret \<Rightarrow> sync_phase \<Rightarrow> Client list \<Rightarrow> bool" where
  "knows env J sh0 cfg s (Creating creds) clients \<longleftrightarrow>
     GetCredentials (cfg_SecretStore cfg) (ResolveCredentials s) = Some creds"
| "knows env J sh0 cfg s (Reading a rt) clients \<longleftrightarrow> in_namespace cfg s (clients ! a)"
| "knows env J sh0 cfg s (Reporting a rt r) clients \<longleftrightarrow> own_answer env J sh0 cfg s r"
| "knows env J sh0 cfg s (Rendering_data data) clients \<longleftrightarrow> own_data env J sh0 cfg s data"
| "knows env J sh0 cfg s (Next_file rendered fs) clients \<longleftrightarrow> own_text env J sh0 cfg s rendered"
| "knows env J sh0 cfg s (In_file rendered fs fc content ph) clients \<longleftrightarrow> own_text env J sh0 cfg s rendered"
| "knows env J sh0 cfg s ph clients \<longleftrightarrow> True"

lemma same_login_named: "same_login c d \<Longrightarrow> same_login c (named ns d)"
  by (simp add: named_def same_login_SetNamespace)

lemma client_for_named: "client_for env J sh0 n c \<Longrightarrow> client_for env J sh0 n (named ns c)"
  unfolding client_for_def using same_login_named by blast

lemma in_namespace_named: "in_namespace cfg s (named (read_namespace cfg s) c)"
  by (simp add: in_namespace_def named_def SetNamespace_def)

lemma own_answer_data:
  assumes "own_answer env J sh0 cfg s r" and "conclude_read (sv_api env) s c r w = (Inr data, w')"
  shows "own_data env J sh0 cfg s data"
proof -
  from assms(2) obtain x where x: "r = Inr x" "unpack_secret (sec_KVVersion s) (sec_Key s) x = Inr data"
    by (auto simp: conclude_read_def split: option.splits sum.splits)
  from assms(1) x(1) obtain d v where d: "own_client env J sh0 cfg s d"
    and f: "Inr x = fst (api_call (\<lambda>ses. api_Read (sv_api env) ses (read_path s)) SecretPtr d v)"
    by (auto simp: own_answer_def)
  obtain q v' where q: "api_Read (sv_api env) (cl_session d) (read_path s) v = (q, v')" by (rule prod.exhaust)
  with f obtain secret where "q = Inr secret" "x = SecretPtr secret" by (cases q) (simp_all add: api_call_def)
  with x(2) d q show ?thesis unfolding own_data_def by blast
qed

lemma knows_turn:
  assumes "sync_turn env cancelled cfg s ph sh = (ph', sh')" and "knows env J sh0 cfg s ph (sh_clients sh)"
    and "\<And>a. addr_of ph = Some a \<Longrightarrow> a < length (sh_clients sh) \<and> client_for env J sh0 (ResolveCredentials s) (sh_clients sh ! a)"
  shows "knows env J sh0 cfg s ph' (sh_clients sh')"
proof (cases ph)
  case (Naming a rt)
  with assms(1) assms(3) [of a] show ?thesis by (auto simp: in_namespace_named)
next
  case (Reading a rt)
  let ?call = "api_call (\<lambda>ses. api_Read (sv_api env) ses (read_path s)) SecretPtr (sh_clients sh ! a) (sh_vault sh)"
  obtain r c w where r: "?call = (r, c, w)" using prod_cases3 by blast
  then have "r = fst ?call" by simp
  moreover have "own_client env J sh0 cfg s (sh_clients sh ! a)" using assms(2) assms(3) [of a] Reading by (simp add: own_client_def)
  ultimately have "own_answer env J sh0 cfg s r" unfolding own_answer_def by blast
  with assms(1) Reading r show ?thesis by auto
next
  case (Reporting a rt r)
  obtain q w where q: "conclude_read (sv_api env) s (sh_clients sh ! a) r (sh_vault sh) = (q, w)" by (rule prod.exhaust)
  with assms(1,2) Reporting own_answer_data show ?thesis by (cases q) auto
next
  case (Rendering_data data)
  with assms(1,2) show ?thesis by (auto simp: own_text_def split: outcome.splits)
next
  case (Next_file rendered fs)
  with assms(1,2) show ?thesis by (cases fs) (auto split: outcome.splits)
next
  case (In_file rendered fs fc content wp)
  with assms(1,2) show ?thesis by (cases wp) (auto split: outcome.splits prod.splits)
qed (use assms(1) in \<open>auto simp: Let_def split: if_split_asm option.splits sum.splits prod.splits\<close>)

section \<open>The invariant of the reads\<close>

text \<open>Jobs that share credentials read in the same namespace.\<close>

definition namespaces_agree :: "(Config \<times> Secret) set \<Rightarrow> bool" where
  "namespaces_agree J \<longleftrightarrow>
     (\<forall>(cfg, s) \<in> J. \<forall>(cfg', s') \<in> J. ResolveCredentials s = ResolveCredentials s' \<longrightarrow> read_namespace cfg s = read_namespace cfg' s')"

lemma namespaces_agreeD:
  "namespaces_agree J \<Longrightarrow> (cfg, s) \<in> J \<Longrightarrow> (cfg', s') \<in> J \<Longrightarrow> ResolveCredentials s = ResolveCredentials s' \<Longrightarrow>
   read_namespace cfg s = read_namespace cfg' s'"
  unfolding namespaces_agree_def by blast

definition reads_inv :: "('w, 't) sync_env \<Rightarrow> (Config \<times> Secret) set \<Rightarrow> 'w shared \<Rightarrow> task list \<times> 'w shared \<Rightarrow> bool" where
  "reads_inv env J sh0 st \<longleftrightarrow> (case st of (ts, sh) \<Rightarrow>
     jobs_of ts = J \<and> store_ok env J sh0 (held ts (sh_pool sh)) (sh_clients sh) \<and>
     (\<forall>x \<in> set ts. knows env J sh0 (tk_cfg x) (tk_secret x) (tk_phase x) (sh_clients sh)))"

lemma reads_inv_task:
  assumes "reads_inv env J sh0 (ts, sh)" and "x \<in> set ts"
  shows "(tk_cfg x, tk_secret x) \<in> J" and "knows env J sh0 (tk_cfg x) (tk_secret x) (tk_phase x) (sh_clients sh)"
  using assms by (auto simp: reads_inv_def jobs_of_def)

lemma reads_inv_start:
  assumes "pool_ok (sh_clients sh0) (sh_pool sh0)" and "\<forall>x \<in> set ts. tk_phase x = Looking"
  shows "reads_inv env (jobs_of ts) sh0 (ts, sh0)"
proof -
  have h: "held ts (sh_pool sh0) = set (sh_pool sh0)" using assms(2) by (auto simp: held_def)
  have "a < length (sh_clients sh0) \<and> client_for env (jobs_of ts) sh0 n (sh_clients sh0 ! a)" if "(n, a) \<in> set (sh_pool sh0)" for n a
  proof -
    have "map_of (sh_pool sh0) n = Some a" using assms(1) that by (simp add: pool_ok_def)
    then show ?thesis using assms(1) that same_login_refl unfolding client_for_def first_client_def pool_ok_def by blast
  qed
  moreover have "inj_on snd (set (sh_pool sh0))" using assms(1) by (simp add: pool_ok_def distinct_map)
  then have "n = m" if "(n, a) \<in> set (sh_pool sh0)" "(m, a) \<in> set (sh_pool sh0)" for n m a
    using that inj_onD [of snd "set (sh_pool sh0)" "(n, a)" "(m, a)"] by simp
  ultimately show ?thesis using assms(2) by (auto simp: reads_inv_def h store_ok_def)
qed

lemma held_update:
  assumes "(n, a) \<in> held (ts[i := (ts ! i)\<lparr>tk_phase := ph\<rparr>]) pool" and "i < length ts"
  obtains "(n, a) \<in> held ts pool" | "n = ResolveCredentials (tk_secret (ts ! i))" and "addr_of ph = Some a"
  using assms by (auto simp: held_def dest!: set_update_subset_insert [THEN subsetD])

lemma held_task: "i < length ts \<Longrightarrow> addr_of (tk_phase (ts ! i)) = Some a \<Longrightarrow> (ResolveCredentials (tk_secret (ts ! i)), a) \<in> held ts pool"
  by (auto simp: held_def)

lemma set_update: "(m, b) \<in> set (AList.update n a al) \<Longrightarrow> (m, b) \<in> set al \<or> m = n \<and> b = a"
  by (induction al) (auto split: if_split_asm)

lemma clients_turn:
  assumes "reads_inv env J sh0 (ts, sh)" and "i < length ts" and "task_turn env (ts ! i) sh = (ph, sh')"
  shows "store_ok env J sh0 (held (ts[i := (ts ! i)\<lparr>tk_phase := ph\<rparr>]) (sh_pool sh')) (sh_clients sh')"
proof -
  let ?x = "ts ! i" and ?n = "ResolveCredentials (tk_secret (ts ! i))" and ?ts = "ts[i := (ts ! i)\<lparr>tk_phase := ph\<rparr>]"
  let ?H = "held ts (sh_pool sh)"
  have st: "store_ok env J sh0 ?H (sh_clients sh)" and x: "?x \<in> set ts" and J: "jobs_of ts = J"
    and kn: "knows env J sh0 (tk_cfg ?x) (tk_secret ?x) (tk_phase ?x) (sh_clients sh)"
    using assms(1,2) by (auto simp: reads_inv_def)
  note own = held_task [OF assms(2)]
  from assms(3) [unfolded task_turn_def] show ?thesis
  proof (cases rule: sync_turn_store)
    case keep
    have "held ?ts (sh_pool sh) \<subseteq> ?H"
    proof clarify
      fix m b assume "(m, b) \<in> held ?ts (sh_pool sh)"
      then show "(m, b) \<in> ?H"
      proof (rule held_update [OF _ assms(2)])
        assume "m = ?n" "addr_of ph = Some b"
        with keep(3) [of b] own [of b] map_of_SomeD [of "sh_pool sh" ?n b] show ?thesis by (auto simp: held_def)
      qed
    qed
    with st show ?thesis unfolding keep(1,2) store_ok_def by blast
  next
    case (make creds c w)
    let ?l = "length (sh_clients sh)"
    have "(tk_cfg ?x, tk_secret ?x) \<in> J" using x J by (auto simp: jobs_of_def)
    with kn make(1,2) have c: "client_for env J sh0 ?n c"
      unfolding client_for_def first_client_def using same_login_refl by (metis knows.simps(1))
    have new: "(m, b) \<in> ?H \<or> m = ?n \<and> b = ?l" if "(m, b) \<in> held ?ts (sh_pool sh)" for m b
      using held_update [OF that assms(2)] make(3) by auto
    have old: "b < ?l" if "(m, b) \<in> ?H" for m b using store_okD(1) [OF st that] .
    have "b < Suc ?l \<and> client_for env J sh0 m ((sh_clients sh @ [c]) ! b)" if "(m, b) \<in> held ?ts (sh_pool sh)" for m b
      using new [OF that] store_okD(1,2) [OF st] c by (auto simp: nth_append less_Suc_eq)
    moreover have "m = m'" if "(m, b) \<in> held ?ts (sh_pool sh)" "(m', b) \<in> held ?ts (sh_pool sh)" for m m' b
      using new [OF that(1)] new [OF that(2)] old store_okD(3) [OF st] by auto
    ultimately show ?thesis unfolding make(4,5) store_ok_def by auto
  next
    case (pooled a)
    have a: "(?n, a) \<in> ?H" using own pooled(1) by simp
    have "(m, b) \<in> ?H" if "(m, b) \<in> held ?ts (sh_pool sh')" for m b
      using held_update [OF that assms(2)]
    proof cases
      case 1
      then have "(m, b) \<in> set (AList.update ?n a (sh_pool sh)) \<or> (m, b) \<in> ?H" by (auto simp: held_def pooled(4))
      with set_update a show ?thesis by (fastforce simp: held_def)
    qed (use pooled(2) a in simp)
    with st show ?thesis unfolding pooled(3) store_ok_def by blast
  next
    case (name a rt)
    let ?c = "named (read_namespace (tk_cfg ?x) (tk_secret ?x)) (sh_clients sh ! a)"
    have a: "(?n, a) \<in> ?H" using own name(1) by simp
    have sub: "(m, b) \<in> ?H" if "(m, b) \<in> held ?ts (sh_pool sh)" for m b
      using held_update [OF that assms(2)] name(2) a by auto
    have "b < length (sh_clients sh) \<and> client_for env J sh0 m ((sh_clients sh)[a := ?c] ! b)"
      if "(m, b) \<in> held ?ts (sh_pool sh)" for m b
      using store_okD(1,2) [OF st sub [OF that]] client_for_named by (cases "b = a") auto
    moreover have "m = m'" if "(m, b) \<in> held ?ts (sh_pool sh)" "(m', b) \<in> held ?ts (sh_pool sh)" for m m' b
      using store_okD(3) [OF st sub [OF that(2)] sub [OF that(1)]] .
    ultimately show ?thesis unfolding name(3,4) store_ok_def by auto
  qed
qed

text \<open>A turn of one task keeps what another knows.\<close>

lemma knows_frame:
  assumes "reads_inv env J sh0 (ts, sh)" and "namespaces_agree J" and "i < length ts" and "task_turn env (ts ! i) sh = (ph, sh')"
    and "y \<in> set ts"
  shows "knows env J sh0 (tk_cfg y) (tk_secret y) (tk_phase y) (sh_clients sh')"
proof -
  let ?x = "ts ! i"
  have st: "store_ok env J sh0 (held ts (sh_pool sh)) (sh_clients sh)" and x: "?x \<in> set ts"
    using assms(1,3) by (auto simp: reads_inv_def)
  note kn = reads_inv_task(2) [OF assms(1,5)]
  have "in_namespace (tk_cfg y) (tk_secret y) (sh_clients sh' ! b)" if r: "tk_phase y = Reading b rt" for b rt
  proof -
    have old: "in_namespace (tk_cfg y) (tk_secret y) (sh_clients sh ! b)" using kn r by simp
    have hy: "(ResolveCredentials (tk_secret y), b) \<in> held ts (sh_pool sh)" using assms(5) r by (auto simp: held_def)
    note b = store_okD(1) [OF st hy]
    from assms(4) [unfolded task_turn_def] show ?thesis
    proof (cases rule: sync_turn_store)
      case (name a rt')
      show ?thesis
      proof (cases "a = b")
        case True
        have "(ResolveCredentials (tk_secret ?x), b) \<in> held ts (sh_pool sh)" using held_task [OF assms(3)] name(1) True by simp
        then have "ResolveCredentials (tk_secret ?x) = ResolveCredentials (tk_secret y)" by (rule store_okD(3) [OF st hy])
        then have "read_namespace (tk_cfg ?x) (tk_secret ?x) = read_namespace (tk_cfg y) (tk_secret y)"
          by (rule namespaces_agreeD [OF assms(2) reads_inv_task(1) [OF assms(1) x] reads_inv_task(1) [OF assms(1,5)]])
        with True b in_namespace_named show ?thesis unfolding name(4) by simp
      qed (use old in \<open>simp add: name(4)\<close>)
    qed (use old b in \<open>simp_all add: nth_append\<close>)
  qed
  with kn show ?thesis by (cases "tk_phase y") auto
qed

lemma reads_inv_step:
  assumes "reads_inv env J sh0 (ts, sh)" and "namespaces_agree J" and "syncs_step env glob e (ts, sh) = (ts', sh')"
  shows "reads_inv env J sh0 (ts', sh')"
  using assms(3)
proof (cases rule: syncs_step_cases)
  case (turn i ph)
  let ?x = "ts ! i"
  have st: "store_ok env J sh0 (held ts (sh_pool sh)) (sh_clients sh)" and J: "jobs_of ts = J" and x: "?x \<in> set ts"
    and kn: "knows env J sh0 (tk_cfg ?x) (tk_secret ?x) (tk_phase ?x) (sh_clients sh)"
    using assms(1) turn(2) by (auto simp: reads_inv_def)
  have "a < length (sh_clients sh) \<and> client_for env J sh0 (ResolveCredentials (tk_secret ?x)) (sh_clients sh ! a)"
    if "addr_of (tk_phase ?x) = Some a" for a
    using store_okD(1,2) [OF st held_task [OF turn(2) that]] by simp
  note k = knows_turn [OF turn(3) [unfolded task_turn_def] kn this]
  have "knows env J sh0 (tk_cfg y) (tk_secret y) (tk_phase y) (sh_clients sh')" if y: "y \<in> set ts'" for y
  proof (cases "y = ?x\<lparr>tk_phase := ph\<rparr>")
    case True
    with k show ?thesis by simp
  next
    case False
    with y turn(4) have "y \<in> set ts" by (auto dest: set_update_subset_insert [THEN subsetD])
    with knows_frame [OF assms(1,2) turn(2,3)] show ?thesis by blast
  qed
  with clients_turn [OF assms(1) turn(2,3)] J show ?thesis by (simp add: reads_inv_def turn(4) jobs_of_update [OF turn(2)])
qed (use assms(1) in \<open>simp_all add: reads_inv_def\<close>)

lemma reads_inv_run:
  assumes "pool_ok (sh_clients sh0) (sh_pool sh0)" and "\<forall>x \<in> set ts0. tk_phase x = Looking" and "namespaces_agree (jobs_of ts0)"
    and "syncs_run env glob evs (ts0, sh0) = (ts, sh)"
  shows "reads_inv env (jobs_of ts0) sh0 (ts, sh)"
  by (rule syncs_run_keeps [where I = "reads_inv env (jobs_of ts0) sh0", OF assms(4) reads_inv_start [OF assms(1,2)]])
     (rule reads_inv_step [OF _ assms(3)])

text \<open>
  C8: concurrent synchronisations read what is theirs.  Suppose that jobs with the same credentials read in the same namespace.
  Then, however the turns of any number of synchronisations fall, whenever one of them is about to send its request, the client
  it holds is one for the name of its credentials, from the pool or made by the factory from credentials of that name, and the
  request goes to its own path and, unless that is empty, to its own namespace.
\<close>

theorem concurrent_reads_own:
  assumes "pool_ok (sh_clients sh0) (sh_pool sh0)" and "\<forall>x \<in> set ts0. tk_phase x = Looking" and "namespaces_agree (jobs_of ts0)"
    and "syncs_run env glob evs (ts0, sh0) = (ts, sh)" and "i < length ts0" and "tk_phase (ts ! i) = Reading a rt"
  shows "client_for env (jobs_of ts0) sh0 (ResolveCredentials (tk_secret (ts ! i))) (sh_clients sh ! a) \<and>
    in_namespace (tk_cfg (ts ! i)) (tk_secret (ts ! i)) (sh_clients sh ! a) \<and>
    (\<exists>r w. api_Read (sv_api env) (cl_session (sh_clients sh ! a)) (read_path (tk_secret (ts ! i))) (sh_vault sh) = (r, w) \<and>
       syncs_step env glob (Turn i) (ts, sh) =
         (ts[i := (ts ! i)\<lparr>tk_phase := Reporting a rt (map_sum ApiError SecretPtr r)\<rparr>], sh\<lparr>sh_vault := w\<rparr>))"
proof -
  have inv: "reads_inv env (jobs_of ts0) sh0 (ts, sh)" by (rule reads_inv_run [OF assms(1-4)])
  have "length ts = length ts0"
    by (rule syncs_run_keeps [where I = "\<lambda>s. length (fst s) = length ts0", OF assms(4), simplified]) (simp add: syncs_step_static(1))
  with assms(5) have i: "i < length ts" by simp
  obtain r w where r: "api_Read (sv_api env) (cl_session (sh_clients sh ! a)) (read_path (tk_secret (ts ! i))) (sh_vault sh) = (r, w)"
    by (rule prod.exhaust)
  have "syncs_step env glob (Turn i) (ts, sh) =
      (ts[i := (ts ! i)\<lparr>tk_phase := Reporting a rt (map_sum ApiError SecretPtr r)\<rparr>], sh\<lparr>sh_vault := w\<rparr>)"
    using i r assms(6) by (cases r) (simp_all add: syncs_step_def task_turn_def api_call_def)
  moreover have "in_namespace (tk_cfg (ts ! i)) (tk_secret (ts ! i)) (sh_clients sh ! a)"
    using reads_inv_task(2) [OF inv nth_mem [OF i]] assms(6) by simp
  moreover have "client_for env (jobs_of ts0) sh0 (ResolveCredentials (tk_secret (ts ! i))) (sh_clients sh ! a)"
    using inv held_task [OF i, of a] assms(6) by (intro store_okD(2)) (auto simp: reads_inv_def)
  ultimately show ?thesis using r by blast
qed

section \<open>A client that is shared between namespaces\<close>

text \<open>
  C10: without that condition a secret is read from the namespace of another.  If two synchronisations hold the same client and
  each is about to set its namespace, and the second does so between the first's setting and its request, then the request
  of the first goes to the namespace of the second, with nothing that tells.
\<close>

theorem namespaces_mix:
  assumes "i < length ts" and "j < length ts" and "i \<noteq> j" and "a < length (sh_clients sh)"
    and "tk_phase (ts ! i) = Naming a rt" and "tk_phase (ts ! j) = Naming a rt'"
    and "read_namespace (tk_cfg (ts ! j)) (tk_secret (ts ! j)) \<noteq> []"
  shows "tk_phase (fst (syncs_run env glob [Turn i, Turn j, Turn i] (ts, sh)) ! i) =
    Reporting a rt (map_sum ApiError SecretPtr
      (fst (api_Read (sv_api env)
        ((cl_session (sh_clients sh ! a))\<lparr>ses_Namespace := read_namespace (tk_cfg (ts ! j)) (tk_secret (ts ! j))\<rparr>)
        (read_path (tk_secret (ts ! i))) (sh_vault sh))))"
proof -
  let ?nj = "read_namespace (tk_cfg (ts ! j)) (tk_secret (ts ! j))"
    and ?ni = "read_namespace (tk_cfg (ts ! i)) (tk_secret (ts ! i))" and ?c = "sh_clients sh ! a"
  have s: "cl_session (named ?nj (named ?ni ?c)) = (cl_session ?c)\<lparr>ses_Namespace := ?nj\<rparr>"
    using assms(7) by (simp add: named_def SetNamespace_def)
  obtain r w where r: "api_Read (sv_api env) ((cl_session ?c)\<lparr>ses_Namespace := ?nj\<rparr>) (read_path (tk_secret (ts ! i))) (sh_vault sh) = (r, w)"
    by (rule prod.exhaust)
  then show ?thesis
    using assms s by (cases r) (simp_all add: syncs_run_def syncs_step_def task_turn_def api_call_def)
qed

section \<open>Concrete runs\<close>

definition app_task :: task where
  "app_task = \<lparr>tk_cfg = sample_config [], tk_secret = app_secret, tk_cancelled = (\<lambda>_. False), tk_phase = Looking\<rparr>"

lemma app_task_facts:
  "tk_phase app_task = Looking" "tk_secret app_task = app_secret" "ResolveCredentials app_secret = []"
  "tk_cfg app_task = sample_config []" "read_namespace (sample_config []) app_secret = ''ns''"
  by (simp_all add: app_task_def app_secret_def ResolveCredentials_def read_namespace_def ResolveNamespace_def)

text \<open>A job for the same credentials and path in another namespace, where the server has nothing.\<close>

definition other_task :: task where
  "other_task = app_task\<lparr>tk_secret := app_secret\<lparr>sec_Namespace := ''x''\<rparr>\<rparr>"

lemma other_task_facts:
  "tk_phase other_task = Looking" "tk_secret other_task = app_secret\<lparr>sec_Namespace := ''x''\<rparr>"
  "ResolveCredentials (app_secret\<lparr>sec_Namespace := ''x''\<rparr>) = []" "tk_cfg other_task = sample_config []"
  "read_namespace (sample_config []) (app_secret\<lparr>sec_Namespace := ''x''\<rparr>) = ''x''"
  by (simp_all add: other_task_def app_task_def app_secret_def ResolveCredentials_def read_namespace_def ResolveNamespace_def)

lemma concurrent_credentials: "GetCredentials (cfg_SecretStore (sample_config [])) [] = Some (GetDefaultCredentials sample_store)"
  by (simp add: sample_config_def)

lemma first_attempt_facts:
  "rt_left (first_attempt sample_retry) = 4" "rt_attempt (first_attempt sample_retry) = 0"
  "after_pause oor c (first_attempt sample_retry) = first_attempt sample_retry"
  by (simp_all add: first_attempt_def sample_retry_def after_pause_def)

lemma sample_env_facts:
  "sv_factory sample_env = (\<lambda>_ w. (Inr sample_client, w))" "sv_retry sample_env = sample_retry" "cl_breaker sample_client = None"
  by (simp_all add: sample_env_def sample_client_def)

lemmas run_eval = syncs_run_def numeral_eq_Suc syncs_step_def task_turn_def app_task_facts other_task_facts
  concurrent_credentials first_attempt_facts sample_shared_def sample_env_facts

lemma app_turns:
  "syncs_run sample_env glob (replicate 5 (Turn 0)) ([app_task, app_task], sample_shared) =
    ([app_task\<lparr>tk_phase := Reading 0 (first_attempt sample_retry)\<rparr>, app_task],
     sample_shared\<lparr>sh_clients := [named ''ns'' sample_client], sh_pool := [([], 0)]\<rparr>)"
  by (simp add: run_eval)

lemma mixed_turns:
  "syncs_run sample_env glob (replicate 4 (Turn 0) @ replicate 2 (Turn 1)) ([other_task, app_task], sample_shared) =
    ([other_task\<lparr>tk_phase := Naming 0 (first_attempt sample_retry)\<rparr>, app_task\<lparr>tk_phase := Naming 0 (first_attempt sample_retry)\<rparr>],
     sample_shared\<lparr>sh_clients := [sample_client], sh_pool := [([], 0)]\<rparr>)"
  by (simp add: run_eval)

theorem concurrent_sync_ends_witness:
  "\<exists>r. tk_phase (fst (syncs_run sample_env (\<lambda>_ _. None) (replicate 32 (Turn 0)) ([app_task, app_task], sample_shared)) ! 0) = Synced r"
proof -
  obtain ts sh where r: "syncs_run sample_env (\<lambda>_ _. None) (replicate 32 (Turn 0)) ([app_task, app_task], sample_shared) = (ts, sh)"
    by (rule prod.exhaust)
  have "files_turns (sec_Files app_secret) = 10" by code_simp
  then have "sync_left (sv_retry sample_env) (tk_secret ([app_task, app_task] ! 0)) (tk_phase ([app_task, app_task] ! 0)) \<le>
      length (filter (\<lambda>e. e = Turn 0) (replicate 32 (Turn 0)))"
    by (simp add: app_task_facts sample_env_def sample_retry_def)
  from concurrent_sync_ends [OF r _ this] r show ?thesis by simp
qed

theorem concurrent_reads_own_witness:
  "\<exists>ts sh a rt. syncs_run sample_env (\<lambda>_ _. None) (replicate 5 (Turn 0)) ([app_task, app_task], sample_shared) = (ts, sh) \<and>
     tk_phase (ts ! 0) = Reading a rt \<and> ses_Namespace (cl_session (sh_clients sh ! a)) = ''ns''"
proof -
  have p: "pool_ok (sh_clients sample_shared) (sh_pool sample_shared)" by (simp add: sample_shared_def pool_ok_def)
  have a: "namespaces_agree (jobs_of [app_task, app_task])" by (simp add: namespaces_agree_def jobs_of_def)
  have l: "\<forall>x \<in> set [app_task, app_task]. tk_phase x = Looking" by (simp add: app_task_facts)
  from concurrent_reads_own [OF p l a app_turns, of 0 0 "first_attempt sample_retry" "\<lambda>_ _. None"] app_turns [of "\<lambda>_ _. None"]
  show ?thesis by (auto simp: in_namespace_def app_task_facts)
qed

theorem namespaces_mix_witness:
  "tk_phase (fst (syncs_run sample_env (\<lambda>_ _. None) (replicate 4 (Turn 0) @ replicate 2 (Turn 1) @ [Turn 0, Turn 1, Turn 0])
     ([other_task, app_task], sample_shared)) ! 0) =
   Reporting 0 (first_attempt sample_retry)
     (Inr (SecretPtr (Some \<lparr>as_Data = Some [(''data'', JObject [(''k'', JString ''v'')])], as_Auth = None\<rparr>))) \<and>
   read_namespace (tk_cfg other_task) (tk_secret other_task) = ''x'' \<and> read_namespace (tk_cfg app_task) (tk_secret app_task) = ''ns''"
proof -
  let ?ts = "[other_task\<lparr>tk_phase := Naming 0 (first_attempt sample_retry)\<rparr>, app_task\<lparr>tk_phase := Naming 0 (first_attempt sample_retry)\<rparr>]"
    and ?sh = "sample_shared\<lparr>sh_clients := [sample_client], sh_pool := [([], 0)]\<rparr>"
  have p: "read_path (app_secret\<lparr>sec_Namespace := n\<rparr>) = ''kv/data/app''" for n
    by (simp add: read_path_def app_secret_def fetch_eval)
  have "tk_phase (fst (syncs_run sample_env (\<lambda>_ _. None) [Turn 0, Turn 1, Turn 0] (?ts, ?sh)) ! 0) =
      Reporting 0 (first_attempt sample_retry) (map_sum ApiError SecretPtr
        (fst (api_Read (sv_api sample_env)
          ((cl_session (sh_clients ?sh ! 0))\<lparr>ses_Namespace := read_namespace (tk_cfg (?ts ! 1)) (tk_secret (?ts ! 1))\<rparr>)
          (read_path (tk_secret (?ts ! 0))) (sh_vault ?sh))))"
    by (rule namespaces_mix) (simp_all add: app_task_facts)
  moreover have "syncs_run sample_env (\<lambda>_ _. None) (replicate 4 (Turn 0) @ replicate 2 (Turn 1) @ [Turn 0, Turn 1, Turn 0])
      ([other_task, app_task], sample_shared) = syncs_run sample_env (\<lambda>_ _. None) [Turn 0, Turn 1, Turn 0] (?ts, ?sh)"
    using mixed_turns [of "\<lambda>_ _. None"] by (simp only: syncs_run_def append_assoc [symmetric] fold_append comp_apply)
  ultimately show ?thesis
    by (simp add: app_task_facts other_task_facts p sample_env_def sample_api_def sample_client_def sample_shared_def)
qed

end
