(* ===== verification/Syncer_Files.thy ===== *)
theory Syncer_Files
  imports Syncer_Concurrent
begin

text \<open>
  The files of concurrent synchronisations.  Every run of synchronisations leaves the disk that some run of a pool of writers
  leaves, in which each writer has a file of a job and a text that was rendered from what the job has read.  What is known of
  pools of writers therefore holds for synchronisations.
\<close>

section \<open>A run of synchronisations as a run of writers\<close>

lemma pool_run_snoc: "pool_run glob (evs @ [e]) s = pool_step glob e (pool_run glob evs s)"
  by (simp add: pool_run_def)

text \<open>Writers that have not begun can be added at the end.\<close>

definition turns_below :: "nat \<Rightarrow> pool_event list \<Rightarrow> bool" where
  "turns_below n evs \<longleftrightarrow> (\<forall>i. Turn i \<in> set evs \<longrightarrow> i < n)"

lemma pool_run_more:
  assumes "pool_run glob evs (ws0, w0) = (ws, w)" and "turns_below (length ws0) evs"
  shows "pool_run glob evs (ws0 @ [v], w0) = (ws @ [v], w)"
  using assms
proof (induction evs arbitrary: ws0 w0)
  case Nil
  then show ?case by (simp add: pool_run_def)
next
  case (Cons e evs)
  obtain us u where st: "pool_step glob e (ws0, w0) = (us, u)" by (rule prod.exhaust)
  have l: "length us = length ws0" using static_part_facts(1) [OF pool_step_static [OF st]] .
  have "pool_step glob e (ws0 @ [v], w0) = (us @ [v], u)"
  proof (cases e)
    case (Turn i)
    with Cons.prems(2) have "i < length ws0" by (simp add: turns_below_def)
    with st Turn show ?thesis by (auto simp: pool_step_def nth_append list_update_append split: prod.splits)
  qed (use st in \<open>simp add: pool_step_def\<close>)
  moreover have "turns_below (length us) evs" using Cons.prems(2) l by (simp add: turns_below_def)
  moreover have "pool_run glob evs (us, u) = (ws, w)" using Cons.prems(1) st by (simp add: pool_run_def)
  ultimately show ?case using Cons.IH by (simp add: pool_run_def)
qed

text \<open>The writer that a synchronisation is in the middle of, and the files it has still to begin.\<close>

fun writer_of :: "sync_phase \<Rightarrow> writer option" where
  "writer_of (In_file rendered fs fc content ph) = Some \<lparr>wr_config = fc, wr_content = content, wr_phase = ph\<rparr>"
| "writer_of _ = None"

fun pending :: "Secret \<Rightarrow> sync_phase \<Rightarrow> nat" where
  "pending s (Next_file rendered fs) = length fs"
| "pending s (In_file rendered fs fc content ph) = length fs"
| "pending s (Synced r) = 0"
| "pending s ph = length (sec_Files s)"

definition file_text :: "Secret \<Rightarrow> (string \<times> string) list \<Rightarrow> File \<Rightarrow> (sync_error, FileConfig \<times> string) outcome" where
  "file_text s rendered f = prepare_file (file_to_template (keys (sec_TemplateData s)) (sec_Files s)) rendered f"

definition written_in :: "writer list \<Rightarrow> Secret \<Rightarrow> (string \<times> string) list \<Rightarrow> File \<Rightarrow> bool" where
  "written_in ws s rendered f \<longleftrightarrow> (\<exists>v \<in> set ws. wr_phase v = Finished (Ok ()) \<and> file_text s rendered f = Ok (wr_config v, wr_content v))"

text \<open>How far a synchronisation is with its files.\<close>

fun files_done ::
  "('w, 't) sync_env \<Rightarrow> (Config \<times> Secret) set \<Rightarrow> 'w shared \<Rightarrow> Config \<Rightarrow> Secret \<Rightarrow> sync_phase \<Rightarrow> writer list \<Rightarrow> bool" where
  "files_done env J sh0 cfg s (Next_file rendered fs) ws \<longleftrightarrow>
     (\<exists>gs. sec_Files s = gs @ fs \<and> (\<forall>g \<in> set gs. written_in ws s rendered g))"
| "files_done env J sh0 cfg s (In_file rendered fs fc content ph) ws \<longleftrightarrow>
     (\<exists>gs f. sec_Files s = gs @ f # fs \<and> file_text s rendered f = Ok (fc, content) \<and> (\<forall>g \<in> set gs. written_in ws s rendered g))"
| "files_done env J sh0 cfg s (Synced (Ok u)) ws \<longleftrightarrow>
     (\<exists>rendered. own_text env J sh0 cfg s rendered \<and> (\<forall>g \<in> set (sec_Files s). written_in ws s rendered g))"
| "files_done env J sh0 cfg s ph ws \<longleftrightarrow> True"

lemma files_done_mono:
  assumes "files_done env J sh0 cfg s ph ws"
    and "\<And>v. v \<in> set ws \<Longrightarrow> wr_phase v = Finished (Ok ()) \<Longrightarrow> v \<in> set ws'"
  shows "files_done env J sh0 cfg s ph ws'"
proof -
  have "written_in ws' s r g" if "written_in ws s r g" for r g using that assms(2) by (auto simp: written_in_def)
  with assms(1) show ?thesis by (cases "(env, J, sh0, cfg, s, ph, ws)" rule: files_done.cases) (simp_all, blast+)
qed

text \<open>A writer with a file of a job.\<close>

definition job_writer :: "('w, 't) sync_env \<Rightarrow> (Config \<times> Secret) set \<Rightarrow> 'w shared \<Rightarrow> writer \<Rightarrow> bool" where
  "job_writer env J sh0 v \<longleftrightarrow>
     (\<exists>cfg s rendered f. (cfg, s) \<in> J \<and> own_text env J sh0 cfg s rendered \<and> f \<in> set (sec_Files s) \<and>
        file_text s rendered f = Ok (wr_config v, wr_content v))"

text \<open>The writers \<open>ws0\<close> and the events \<open>evs\<close> replay a run that has reached \<open>ts\<close> and \<open>sh\<close>; \<open>idx\<close> finds the writer of a task.\<close>

definition replays ::
  "('w, 't) sync_env \<Rightarrow> (string \<Rightarrow> world \<Rightarrow> string list option) \<Rightarrow> (Config \<times> Secret) set \<Rightarrow> 'w shared \<Rightarrow> nat \<Rightarrow>
   task list \<times> 'w shared \<Rightarrow> writer list \<Rightarrow> pool_event list \<Rightarrow> writer list \<Rightarrow> (nat \<Rightarrow> nat) \<Rightarrow> bool" where
  "replays env glob J sh0 N st ws0 evs ws idx \<longleftrightarrow> (case st of (ts, sh) \<Rightarrow>
     pool_run glob evs (ws0, sh_disk sh0) = (ws, sh_disk sh) \<and> turns_below (length ws0) evs \<and> plain_sweeps evs \<and>
     (\<forall>v \<in> set ws0. wr_phase v = Checking \<and> job_writer env J sh0 v) \<and>
     length ws0 + sum_list (map (\<lambda>x. pending (tk_secret x) (tk_phase x)) ts) \<le> N \<and>
     (\<forall>i < length ts. \<forall>v. writer_of (tk_phase (ts ! i)) = Some v \<longrightarrow> idx i < length ws \<and> ws ! idx i = v) \<and>
     (\<forall>i < length ts. \<forall>j < length ts. writer_of (tk_phase (ts ! i)) \<noteq> None \<longrightarrow> writer_of (tk_phase (ts ! j)) \<noteq> None \<longrightarrow>
        idx i = idx j \<longrightarrow> i = j) \<and>
     (\<forall>x \<in> set ts. files_done env J sh0 (tk_cfg x) (tk_secret x) (tk_phase x) ws))"

lemma replays_files:
  "replays env glob J sh0 N (ts, sh) ws0 evs ws idx \<Longrightarrow> i < length ts \<Longrightarrow>
   files_done env J sh0 (tk_cfg (ts ! i)) (tk_secret (ts ! i)) (tk_phase (ts ! i)) ws"
  by (simp add: replays_def)

definition replayed ::
  "('w, 't) sync_env \<Rightarrow> (string \<Rightarrow> world \<Rightarrow> string list option) \<Rightarrow> (Config \<times> Secret) set \<Rightarrow> 'w shared \<Rightarrow> nat \<Rightarrow> task list \<times> 'w shared \<Rightarrow> bool" where
  "replayed env glob J sh0 N st \<longleftrightarrow> (\<exists>ws0 evs ws idx. replays env glob J sh0 N st ws0 evs ws idx)"

definition files_of :: "task list \<Rightarrow> nat" where
  "files_of ts = sum_list (map (\<lambda>x. length (sec_Files (tk_secret x))) ts)"

lemma replayed_start:
  assumes "\<forall>x \<in> set ts. tk_phase x = Looking"
  shows "replayed env glob J sh0 (files_of ts) (ts, sh0)"
proof -
  have "sum_list (map (\<lambda>x. pending (tk_secret x) (tk_phase x)) ts) \<le> files_of ts"
    using assms by (simp add: files_of_def cong: map_cong)
  then have "replays env glob J sh0 (files_of ts) (ts, sh0) [] [] [] id"
    using assms by (simp add: replays_def pool_run_def turns_below_def plain_sweeps_def)
  then show ?thesis unfolding replayed_def by blast
qed

lemma pool_run_length: "pool_run glob evs (ws0, w0) = (ws, w) \<Longrightarrow> length ws = length ws0"
proof (induction evs arbitrary: ws0 w0)
  case (Cons e evs)
  obtain us u where st: "pool_step glob e (ws0, w0) = (us, u)" by (rule prod.exhaust)
  with Cons show ?case using static_part_facts(1) [OF pool_step_static [OF st]] by (simp add: pool_run_def)
qed (simp add: pool_run_def)

lemma sum_update:
  "i < length xs \<Longrightarrow> sum_list (map f (xs[i := y])) + f (xs ! i) = sum_list (map f xs) + (f y :: nat)"
proof (induction xs arbitrary: i)
  case (Cons x xs)
  then show ?case by (cases i) (simp_all add: add.assoc add.commute add.left_commute)
qed simp

text \<open>A turn of one task, given what it does to the writers.\<close>

lemma replays_turn:
  assumes R: "replays env glob J sh0 N (ts, sh) ws0 evs ws idx" and i: "i < length ts"
    and run: "pool_run glob evs' (ws0', sh_disk sh0) = (ws', sh_disk sh')" "turns_below (length ws0') evs'" "plain_sweeps evs'"
    and start: "\<forall>v \<in> set ws0'. wr_phase v = Checking \<and> job_writer env J sh0 v"
    and count: "length ws0' + pending (tk_secret (ts ! i)) ph \<le> length ws0 + pending (tk_secret (ts ! i)) (tk_phase (ts ! i))"
    and others: "\<And>v j. j < length ts \<Longrightarrow> j \<noteq> i \<Longrightarrow> writer_of (tk_phase (ts ! j)) = Some v \<Longrightarrow>
      idx' j = idx j \<and> idx j < length ws' \<and> ws' ! idx j = v"
    and own: "\<And>v. writer_of ph = Some v \<Longrightarrow> idx' i < length ws' \<and> ws' ! idx' i = v \<and>
      (\<forall>j < length ts. j \<noteq> i \<longrightarrow> writer_of (tk_phase (ts ! j)) \<noteq> None \<longrightarrow> idx j \<noteq> idx' i)"
    and fin: "\<And>v. v \<in> set ws \<Longrightarrow> wr_phase v = Finished (Ok ()) \<Longrightarrow> v \<in> set ws'"
    and fdone: "files_done env J sh0 (tk_cfg (ts ! i)) (tk_secret (ts ! i)) ph ws'"
  shows "replays env glob J sh0 N (ts[i := (ts ! i)\<lparr>tk_phase := ph\<rparr>], sh') ws0' evs' ws' idx'"
proof -
  let ?y = "(ts ! i)\<lparr>tk_phase := ph\<rparr>" and ?ts = "ts[i := (ts ! i)\<lparr>tk_phase := ph\<rparr>]"
  let ?p = "\<lambda>x. pending (tk_secret x) (tk_phase x)"
  from R have n: "length ws0 + sum_list (map ?p ts) \<le> N"
    and inj: "\<forall>i < length ts. \<forall>j < length ts. writer_of (tk_phase (ts ! i)) \<noteq> None \<longrightarrow> writer_of (tk_phase (ts ! j)) \<noteq> None \<longrightarrow>
        idx i = idx j \<longrightarrow> i = j"
    and dn: "\<forall>x \<in> set ts. files_done env J sh0 (tk_cfg x) (tk_secret x) (tk_phase x) ws"
    by (simp_all add: replays_def)
  have c: "length ws0' + sum_list (map ?p ?ts) \<le> N" using n count sum_update [OF i, of ?p ?y] by simp
  have w: "idx' j < length ws' \<and> ws' ! idx' j = v" if "j < length ts" "writer_of (tk_phase (?ts ! j)) = Some v" for j v
    using that own others [of j v] i by (cases "j = i") auto
  have j: "j = l" if "j < length ts" "l < length ts" "writer_of (tk_phase (?ts ! j)) \<noteq> None" "writer_of (tk_phase (?ts ! l)) \<noteq> None"
    "idx' j = idx' l" for j l
    using that own others [of j] others [of l] inj i by (cases "j = i"; cases "l = i") fastforce+
  have d: "files_done env J sh0 (tk_cfg x) (tk_secret x) (tk_phase x) ws'" if "x \<in> set ?ts" for x
  proof (cases "x = ?y")
    case False
    with that have "x \<in> set ts" by (auto dest: set_update_subset_insert [THEN subsetD])
    with dn files_done_mono [OF _ fin] show ?thesis by blast
  qed (use fdone in simp)
  show ?thesis unfolding replays_def using run start c w j d by simp
qed

text \<open>A turn that is not a turn of a writer, and begins none.\<close>

lemma replays_plain:
  assumes R: "replays env glob J sh0 N (ts, sh) ws0 evs ws idx" and i: "i < length ts" and "sh_disk sh' = sh_disk sh"
    and "pending (tk_secret (ts ! i)) ph \<le> pending (tk_secret (ts ! i)) (tk_phase (ts ! i))" and "writer_of ph = None"
    and "files_done env J sh0 (tk_cfg (ts ! i)) (tk_secret (ts ! i)) ph ws"
  shows "replays env glob J sh0 N (ts[i := (ts ! i)\<lparr>tk_phase := ph\<rparr>], sh') ws0 evs ws idx"
  using R by (intro replays_turn [OF R i]) (use assms(3-6) in \<open>auto simp: replays_def\<close>)

lemma turn_plain:
  assumes "sync_turn env cancelled cfg s ph sh = (ph', sh')" and "knows env J sh0 cfg s ph (sh_clients sh)"
    and "files_done env J sh0 cfg s ph ws" and "\<And>rendered f fs. ph \<noteq> Next_file rendered (f # fs)" and "writer_of ph = None"
  shows "sh_disk sh' = sh_disk sh \<and> pending s ph' \<le> pending s ph \<and> writer_of ph' = None \<and> files_done env J sh0 cfg s ph' ws"
proof (cases ph)
  case (Next_file rendered fs)
  with assms(4) have "fs = []" by (cases fs) auto
  with assms(1-3) Next_file show ?thesis by auto
next
  case (Synced r)
  with assms(1,3) show ?thesis by auto
qed (use assms(1,5) in \<open>auto simp: Let_def split: if_split_asm option.splits sum.splits outcome.splits prod.splits\<close>)

text \<open>A file is begun.\<close>

lemma replays_begin:
  assumes R: "replays env glob J sh0 N (ts, sh) ws0 evs ws idx" and i: "i < length ts"
    and ph: "tk_phase (ts ! i) = Next_file rendered (f # fs)" and tx: "own_text env J sh0 (tk_cfg (ts ! i)) (tk_secret (ts ! i)) rendered"
    and J: "(tk_cfg (ts ! i), tk_secret (ts ! i)) \<in> J" and p: "file_text (tk_secret (ts ! i)) rendered f = Ok (fc, content)"
  shows "replayed env glob J sh0 N (ts[i := (ts ! i)\<lparr>tk_phase := In_file rendered fs fc content Checking\<rparr>], sh)"
proof -
  let ?s = "tk_secret (ts ! i)" and ?v = "\<lparr>wr_config = fc, wr_content = content, wr_phase = Checking\<rparr>"
  let ?idx = "idx(i := length ws)"
  from R have run: "pool_run glob evs (ws0, sh_disk sh0) = (ws, sh_disk sh)" "turns_below (length ws0) evs" "plain_sweeps evs"
    and start: "\<forall>v \<in> set ws0. wr_phase v = Checking \<and> job_writer env J sh0 v"
    and slot: "\<And>j v. j < length ts \<Longrightarrow> writer_of (tk_phase (ts ! j)) = Some v \<Longrightarrow> idx j < length ws \<and> ws ! idx j = v"
    by (simp_all add: replays_def)
  have "files_done env J sh0 (tk_cfg (ts ! i)) ?s (Next_file rendered (f # fs)) ws" using replays_files [OF R i] ph by simp
  then obtain gs where d: "sec_Files ?s = gs @ f # fs" "\<forall>g \<in> set gs. written_in ws ?s rendered g" by auto
  have jw: "job_writer env J sh0 ?v"
    unfolding job_writer_def using J tx p d(1) by (intro exI [of _ "tk_cfg (ts ! i)"] exI [of _ ?s] exI [of _ rendered] exI [of _ f]) simp
  have "written_in (ws @ [?v]) ?s rendered g" if "g \<in> set gs" for g
    using d(2) that by (auto simp: written_in_def)
  with d(1) p have fd: "files_done env J sh0 (tk_cfg (ts ! i)) ?s (In_file rendered fs fc content Checking) (ws @ [?v])" by auto
  have "replays env glob J sh0 N (ts[i := (ts ! i)\<lparr>tk_phase := In_file rendered fs fc content Checking\<rparr>], sh) (ws0 @ [?v]) evs (ws @ [?v]) ?idx"
  proof (rule replays_turn [OF R i pool_run_more [OF run(1,2)] _ run(3)])
    show "turns_below (length (ws0 @ [?v])) evs" using run(2) by (auto simp: turns_below_def)
    show "\<forall>v \<in> set (ws0 @ [?v]). wr_phase v = Checking \<and> job_writer env J sh0 v" using start jw by auto
    show "?idx j = idx j \<and> idx j < length (ws @ [?v]) \<and> (ws @ [?v]) ! idx j = v"
      if "j < length ts" "j \<noteq> i" "writer_of (tk_phase (ts ! j)) = Some v" for v j
      using slot [OF that(1,3)] that(2) by (simp add: nth_append)
    show "?idx i < length (ws @ [?v]) \<and> (ws @ [?v]) ! ?idx i = v \<and>
        (\<forall>j < length ts. j \<noteq> i \<longrightarrow> writer_of (tk_phase (ts ! j)) \<noteq> None \<longrightarrow> idx j \<noteq> ?idx i)"
      if "writer_of (In_file rendered fs fc content Checking) = Some v" for v
      using that slot by fastforce
  qed (use ph fd in simp_all)
  then show ?thesis unfolding replayed_def by blast
qed

text \<open>A writer makes a turn.\<close>

lemma replays_write:
  assumes R: "replays env glob J sh0 N (ts, sh) ws0 evs ws idx" and i: "i < length ts"
    and ph: "tk_phase (ts ! i) = In_file rendered fs fc content wp" and nf: "\<forall>r. wp \<noteq> Finished r"
    and t: "writer_turn fc content wp (sh_disk sh) = (wp', d)"
  shows "replayed env glob J sh0 N (ts[i := (ts ! i)\<lparr>tk_phase := In_file rendered fs fc content wp'\<rparr>], sh\<lparr>sh_disk := d\<rparr>)"
proof -
  let ?s = "tk_secret (ts ! i)" and ?v = "\<lparr>wr_config = fc, wr_content = content, wr_phase = wp'\<rparr>"
  let ?ws = "ws[idx i := ?v]" and ?evs = "evs @ [Turn (idx i)]"
  from R have run: "pool_run glob evs (ws0, sh_disk sh0) = (ws, sh_disk sh)" "turns_below (length ws0) evs" "plain_sweeps evs"
    and start: "\<forall>v \<in> set ws0. wr_phase v = Checking \<and> job_writer env J sh0 v"
    and slot: "\<And>j v. j < length ts \<Longrightarrow> writer_of (tk_phase (ts ! j)) = Some v \<Longrightarrow> idx j < length ws \<and> ws ! idx j = v"
    and inj: "\<And>j. j < length ts \<Longrightarrow> writer_of (tk_phase (ts ! j)) \<noteq> None \<Longrightarrow> idx j = idx i \<Longrightarrow> j = i"
    using i ph by (simp_all add: replays_def)
  have v: "idx i < length ws" "ws ! idx i = \<lparr>wr_config = fc, wr_content = content, wr_phase = wp\<rparr>"
    using slot [OF i] ph by simp_all
  have r: "pool_run glob ?evs (ws0, sh_disk sh0) = (?ws, d)"
    unfolding pool_run_snoc run(1) using v t by (simp add: pool_step_def)
  have fin: "u \<in> set ?ws" if u: "u \<in> set ws" "wr_phase u = Finished (Ok ())" for u
  proof -
    from u(1) obtain k where k: "k < length ws" "ws ! k = u" by (auto simp: in_set_conv_nth)
    with v(2) nf u(2) have "k \<noteq> idx i" by auto
    with k show ?thesis by (auto simp: in_set_conv_nth intro!: exI [of _ k])
  qed
  have "files_done env J sh0 (tk_cfg (ts ! i)) ?s (In_file rendered fs fc content wp) ws" using replays_files [OF R i] ph by simp
  then have "files_done env J sh0 (tk_cfg (ts ! i)) ?s (In_file rendered fs fc content wp) ?ws" by (rule files_done_mono) (rule fin)
  then have fd: "files_done env J sh0 (tk_cfg (ts ! i)) ?s (In_file rendered fs fc content wp') ?ws" by simp
  have "replays env glob J sh0 N (ts[i := (ts ! i)\<lparr>tk_phase := In_file rendered fs fc content wp'\<rparr>], sh\<lparr>sh_disk := d\<rparr>) ws0 ?evs ?ws idx"
  proof (rule replays_turn [OF R i _ _ _ start])
    show "pool_run glob ?evs (ws0, sh_disk sh0) = (?ws, sh_disk (sh\<lparr>sh_disk := d\<rparr>))" using r by simp
    show "turns_below (length ws0) ?evs" using run(2) v(1) pool_run_length [OF run(1)] by (auto simp: turns_below_def)
    show "plain_sweeps ?evs" using run(3) by (auto simp: plain_sweeps_def)
    show "idx j = idx j \<and> idx j < length ?ws \<and> ?ws ! idx j = v"
      if "j < length ts" "j \<noteq> i" "writer_of (tk_phase (ts ! j)) = Some v" for v j
    proof -
      have "idx j \<noteq> idx i" using inj [OF that(1)] that(2,3) by auto
      with slot [OF that(1,3)] show ?thesis by simp
    qed
    show "idx i < length ?ws \<and> ?ws ! idx i = v \<and>
        (\<forall>j < length ts. j \<noteq> i \<longrightarrow> writer_of (tk_phase (ts ! j)) \<noteq> None \<longrightarrow> idx j \<noteq> idx i)"
      if "writer_of (In_file rendered fs fc content wp') = Some v" for v
      using that v(1) inj by auto
  qed (use ph fd fin in simp_all)
  then show ?thesis unfolding replayed_def by blast
qed

text \<open>A writer has ended.\<close>

lemma replays_end:
  assumes R: "replays env glob J sh0 N (ts, sh) ws0 evs ws idx" and i: "i < length ts"
    and ph: "tk_phase (ts ! i) = In_file rendered fs fc content (Finished r)"
    and ph': "(\<exists>u. r = Ok u) \<and> ph' = Next_file rendered fs \<or> (\<exists>q. ph' = Synced q \<and> q \<noteq> Ok ())"
  shows "replayed env glob J sh0 N (ts[i := (ts ! i)\<lparr>tk_phase := ph'\<rparr>], sh)"
proof -
  let ?s = "tk_secret (ts ! i)"
  from R i ph have v: "idx i < length ws" "ws ! idx i = \<lparr>wr_config = fc, wr_content = content, wr_phase = Finished r\<rparr>"
    by (simp_all add: replays_def)
  have "files_done env J sh0 (tk_cfg (ts ! i)) ?s (In_file rendered fs fc content (Finished r)) ws"
    using replays_files [OF R i] ph by simp
  then obtain gs f where d: "sec_Files ?s = gs @ f # fs" "file_text ?s rendered f = Ok (fc, content)"
    "\<forall>g \<in> set gs. written_in ws ?s rendered g" by auto
  have "files_done env J sh0 (tk_cfg (ts ! i)) ?s ph' ws"
  proof (cases "ph' = Next_file rendered fs")
    case True
    with ph' have "written_in ws ?s rendered f"
      using v(2) d(2) nth_mem [OF v(1)] unfolding written_in_def by (intro bexI [of _ "ws ! idx i"]) auto
    with d(1,3) show ?thesis unfolding True files_done.simps by (intro exI [of _ "gs @ [f]"]) auto
  next
    case False
    with ph' obtain q where "ph' = Synced q" "q \<noteq> Ok ()" by blast
    then show ?thesis by (cases q) auto
  qed
  moreover have "pending ?s ph' \<le> pending ?s (tk_phase (ts ! i))" "writer_of ph' = None" using ph ph' by auto
  ultimately have "replays env glob J sh0 N (ts[i := (ts ! i)\<lparr>tk_phase := ph'\<rparr>], sh) ws0 evs ws idx"
    by (intro replays_plain [OF R i]) simp_all
  then show ?thesis unfolding replayed_def by blast
qed

lemma replayed_step:
  assumes "replayed env glob J sh0 N (ts, sh)" and "reads_inv env J sh0 (ts, sh)" and "plain_sweeps [e]"
    and "syncs_step env glob e (ts, sh) = (ts', sh')"
  shows "replayed env glob J sh0 N (ts', sh')"
proof -
  from assms(1) obtain ws0 evs ws idx where R: "replays env glob J sh0 N (ts, sh) ws0 evs ws idx" unfolding replayed_def by blast
  from assms(4) show ?thesis
  proof (cases rule: syncs_step_cases)
    case idle
    with assms(1) show ?thesis by simp
  next
    case (sweep dirs)
    have "replays env glob J sh0 N (ts', sh') ws0 (evs @ [e]) ws idx"
      using R assms(3) unfolding replays_def sweep
      by (auto simp: pool_run_snoc pool_step_def turns_below_def plain_sweeps_def)
    then show ?thesis unfolding replayed_def by blast
  next
    case (turn i ph)
    let ?x = "ts ! i"
    note k = reads_inv_task [OF assms(2) nth_mem [OF turn(2)]]
    note t = turn(3) [unfolded task_turn_def]
    consider (fresh) rendered f fs fc content where "tk_phase ?x = Next_file rendered (f # fs)"
        "file_text (tk_secret ?x) rendered f = Ok (fc, content)"
      | (failed) rendered f fs where "tk_phase ?x = Next_file rendered (f # fs)" "\<forall>y. file_text (tk_secret ?x) rendered f \<noteq> Ok y"
      | (turned) rendered fs fc content wp where "tk_phase ?x = In_file rendered fs fc content wp" "\<forall>r. wp \<noteq> Finished r"
      | (ended) rendered fs fc content r where "tk_phase ?x = In_file rendered fs fc content (Finished r)"
      | (plain) "\<And>rendered f fs. tk_phase ?x \<noteq> Next_file rendered (f # fs)" "writer_of (tk_phase ?x) = None"
      by (cases "tk_phase ?x" rule: writer_of.cases) (auto, metis prod.exhaust)
    then show ?thesis
    proof cases
      case fresh
      have "ph = In_file rendered fs fc content Checking" "sh' = sh" using t fresh by (simp_all add: file_text_def)
      with replays_begin [OF R turn(2) fresh(1) _ k(1) fresh(2)] k(2) fresh(1) turn(4) show ?thesis by simp
    next
      case failed
      have "sh' = sh" "\<exists>q. ph = Synced q \<and> q \<noteq> Ok ()" using t failed by (auto simp: file_text_def split: outcome.splits)
      then obtain q where q: "ph = Synced q" "q \<noteq> Ok ()" by blast
      then have fd: "files_done env J sh0 (tk_cfg ?x) (tk_secret ?x) ph ws" by (cases q) auto
      have "replays env glob J sh0 N (ts', sh') ws0 evs ws idx"
        unfolding turn(4)
      proof (rule replays_plain [OF R turn(2) _ _ _ fd])
        show "sh_disk sh' = sh_disk sh" using \<open>sh' = sh\<close> by simp
      qed (simp_all add: q(1) failed(1))
      then show ?thesis unfolding replayed_def by blast
    next
      case turned
      obtain wp' d where w: "writer_turn fc content wp (sh_disk sh) = (wp', d)" by (rule prod.exhaust)
      have "ph = In_file rendered fs fc content wp'" "sh' = sh\<lparr>sh_disk := d\<rparr>"
        using t [unfolded turned(1) sync_turn_write [OF turned(2) w]] by simp_all
      with replays_write [OF R turn(2) turned w] turn(4) show ?thesis by simp
    next
      case ended
      have "sh' = sh" "(\<exists>u. r = Ok u) \<and> ph = Next_file rendered fs \<or> (\<exists>q. ph = Synced q \<and> q \<noteq> Ok ())"
        using t ended by (auto split: outcome.splits)
      with replays_end [OF R turn(2) ended] turn(4) show ?thesis by simp
    next
      case plain
      from turn_plain [OF t k(2) replays_files [OF R turn(2)] plain] replays_plain [OF R turn(2), of sh' ph] turn(4)
      show ?thesis unfolding replayed_def by blast
    qed
  qed
qed

lemma replayed_run:
  assumes "pool_ok (sh_clients sh0) (sh_pool sh0)" and "\<forall>x \<in> set ts0. tk_phase x = Looking" and "namespaces_agree (jobs_of ts0)"
    and "plain_sweeps evs" and "syncs_run env glob evs (ts0, sh0) = (ts, sh)"
  shows "replayed env glob (jobs_of ts0) sh0 (files_of ts0) (ts, sh)"
proof -
  let ?I = "\<lambda>s. reads_inv env (jobs_of ts0) sh0 s \<and> replayed env glob (jobs_of ts0) sh0 (files_of ts0) s"
  have "?I (ts, sh)"
  proof (rule syncs_run_keeps [where I = ?I, OF assms(5)])
    show "?I (ts0, sh0)" using reads_inv_start [OF assms(1,2)] replayed_start [OF assms(2)] by blast
    fix e us u us' u'
    assume "e \<in> set evs" and i: "?I (us, u)" and st: "syncs_step env glob e (us, u) = (us', u')"
    then have "plain_sweeps [e]" using assms(4) by (auto simp: plain_sweeps_def)
    with i st show "?I (us', u')" using reads_inv_step [OF _ assms(3) st] replayed_step [OF _ _ _ st] by blast
  qed
  then show ?thesis by blast
qed

section \<open>The files\<close>

lemma file_text_Ok:
  assumes "file_text s rendered f = Ok (fc, content)" and "f \<in> set (sec_Files s)" and "render_secret env s data = Ok rendered"
    and "go_map (sec_TemplateData s)"
  shows "fc_Path fc = file_Path f" and "renders_to env s data (filepath_Base (file_Path f)) content"
    and "complete_file s (file_Path f) content w (written fc content w)"
  using prepared_file [OF assms(1) [unfolded file_text_def] assms(2-4)] by blast+

text \<open>A complete file of a job: the rendering, by the template with its base name, of data that the job has read itself.\<close>

definition own_file :: "('w, 't) sync_env \<Rightarrow> (Config \<times> Secret) set \<Rightarrow> 'w shared \<Rightarrow> Config \<Rightarrow> Secret \<Rightarrow> SecretData \<Rightarrow> string \<Rightarrow> node \<Rightarrow> bool" where
  "own_file env J sh0 cfg s data p n \<longleftrightarrow> own_data env J sh0 cfg s data \<and>
     (\<exists>text. renders_to env s data (filepath_Base p) text \<and> complete_file s p text (sh_disk sh0) n)"

lemma own_fileI:
  assumes "own_data env J sh0 cfg s data" and "render_secret env s data = Ok rendered" and "f \<in> set (sec_Files s)"
    and "file_text s rendered f = Ok (fc, content)" and "go_map (sec_TemplateData s)"
  shows "own_file env J sh0 cfg s data (file_Path f) (written fc content (sh_disk sh0))"
  using file_text_Ok [OF assms(4,3,2,5)] assms(1) unfolding own_file_def by blast

definition output_paths :: "task list \<Rightarrow> string set" where
  "output_paths ts = (\<Union>x \<in> set ts. paths_of (tk_secret x))"

lemma output_paths_jobs: "(cfg, s) \<in> jobs_of ts \<Longrightarrow> f \<in> set (sec_Files s) \<Longrightarrow> file_Path f \<in> output_paths ts"
  by (auto simp: jobs_of_def output_paths_def paths_of_def)

lemma job_writer_file:
  assumes "job_writer env (jobs_of ts) sh0 v" and "\<forall>x \<in> set ts. go_map (sec_TemplateData (tk_secret x))"
  obtains x data where "x \<in> set ts" and "fc_Path (wr_config v) \<in> output_paths ts"
    and "own_file env (jobs_of ts) sh0 (tk_cfg x) (tk_secret x) data (fc_Path (wr_config v)) (written (wr_config v) (wr_content v) (sh_disk sh0))"
proof -
  from assms(1) obtain cfg s rendered f data where j: "(cfg, s) \<in> jobs_of ts" "own_data env (jobs_of ts) sh0 cfg s data"
      "render_secret env s data = Ok rendered" "f \<in> set (sec_Files s)" "file_text s rendered f = Ok (wr_config v, wr_content v)"
    unfolding job_writer_def own_text_def by blast
  from j(1) obtain x where x: "x \<in> set ts" "cfg = tk_cfg x" "s = tk_secret x" by (auto simp: jobs_of_def)
  with assms(2) have g: "go_map (sec_TemplateData s)" by simp
  have p: "fc_Path (wr_config v) = file_Path f" by (rule file_text_Ok(1) [OF j(5,4,3) g])
  from own_fileI [OF j(2,3,4,5) g] x output_paths_jobs [OF j(1,4)] p that show thesis by metis
qed

text \<open>
  C5: concurrent synchronisations leave complete files with the right contents.  Take any number of synchronisations, on any disk,
  and let their turns and any sweeps be interleaved in any way, with any system call and any request failing.  Suppose
  that jobs with the same credentials read in the same namespace, that the output paths do not get into each other's way and none looks
  like a temporary file, and that the random names differ and are free.  Then in every state of the disk since the start each output path has
  its old node, or the complete file of one of the jobs: the rendering of data which that job has read from its own path, in its
  own namespace, with a client for its own credentials.  And when a synchronisation has reported success, each of its
  files has been there, all rendered from the same data.
\<close>

theorem concurrent_syncs_files:
  assumes "pool_ok (sh_clients sh0) (sh_pool sh0)" and "\<forall>x \<in> set ts0. tk_phase x = Looking" and "namespaces_agree (jobs_of ts0)"
    and "\<forall>x \<in> set ts0. go_map (sec_TemplateData (tk_secret x))"
    and "apart (output_paths ts0)" and "\<forall>p \<in> output_paths ts0. p \<notin> tmp_names"
    and "names_free (output_paths ts0) (files_of ts0) (sh_disk sh0)"
    and "plain_sweeps evs" and "syncs_run env glob evs (ts0, sh0) = (ts, sh)"
  shows "\<exists>hs. w_hist (sh_disk sh) = hs @ w_hist (sh_disk sh0) \<and>
    (\<forall>p \<in> output_paths ts0. \<forall>ns \<in> set (w_nodes (sh_disk sh) # hs).
       map_of ns p = map_of (w_nodes (sh_disk sh0)) p \<or>
       (\<exists>x \<in> set ts0. \<exists>data n. own_file env (jobs_of ts0) sh0 (tk_cfg x) (tk_secret x) data p n \<and> map_of ns p = Some n)) \<and>
    (\<forall>x \<in> set ts. tk_phase x = Synced (Ok ()) \<longrightarrow>
       (\<exists>data. \<forall>f \<in> set (sec_Files (tk_secret x)). \<exists>ns \<in> set hs. \<exists>n.
          own_file env (jobs_of ts0) sh0 (tk_cfg x) (tk_secret x) data (file_Path f) n \<and> map_of ns (file_Path f) = Some n))"
proof -
  let ?P = "output_paths ts0" and ?J = "jobs_of ts0" and ?old = "sh_disk sh0" and ?new = "sh_disk sh"
  from replayed_run [OF assms(1-3,8,9)] obtain ws0 evs' ws idx where
    R: "replays env glob ?J sh0 (files_of ts0) (ts, sh) ws0 evs' ws idx" unfolding replayed_def by blast
  then have run: "pool_run glob evs' (ws0, ?old) = (ws, ?new)" and sw: "plain_sweeps evs'" and l: "length ws0 \<le> files_of ts0"
    and start: "\<forall>v \<in> set ws0. wr_phase v = Checking" and jobs: "\<forall>v \<in> set ws0. job_writer env ?J sh0 v"
    and dn: "\<forall>x \<in> set ts. files_done env ?J sh0 (tk_cfg x) (tk_secret x) (tk_phase x) ws"
    by (simp_all add: replays_def)
  have sub: "pool_paths ws0 \<subseteq> ?P"
    using jobs job_writer_file [OF _ assms(4)] unfolding pool_paths_def by blast
  note free = names_free_mono [OF assms(7) l]
  from pool_run_inv [OF pool_inv_start [OF start free] assms(5) free assms(6) sw run sub] have
    inv: "pool_inv ?P ?old (ws, ?new)" and st: "static_part ws = static_part ws0" by simp_all
  from inv have ev: "evolves ?P (pool_node ws0 ?old) ?old ?new" and ok: "\<And>v. v \<in> set ws \<Longrightarrow> writer_ok ?old v ?new"
    by (auto simp: pool_inv_def static_part_facts(3) [OF st])
  from ev obtain hs where hs: "w_hist ?new = hs @ w_hist ?old"
    and n: "\<forall>ns \<in> set (w_nodes ?new # hs). \<forall>p \<in> ?P. node_ok (pool_node ws0 ?old) ?old ns p"
    by (auto simp: evolves_def)
  have "map_of ns p = map_of (w_nodes ?old) p \<or>
      (\<exists>x \<in> set ts0. \<exists>data n. own_file env ?J sh0 (tk_cfg x) (tk_secret x) data p n \<and> map_of ns p = Some n)"
    if "p \<in> ?P" "ns \<in> set (w_nodes ?new # hs)" for p ns
  proof -
    from n that consider "map_of ns p = map_of (w_nodes ?old) p"
      | v where "v \<in> set ws0" "fc_Path (wr_config v) = p" "map_of ns p = Some (written (wr_config v) (wr_content v) ?old)"
      unfolding node_ok_def pool_node_def by blast
    then show ?thesis
    proof cases
      case (2 v)
      with jobs job_writer_file [OF _ assms(4), of env sh0 v] show ?thesis by metis
    qed simp
  qed
  moreover have "\<exists>data. \<forall>f \<in> set (sec_Files (tk_secret x)). \<exists>ns \<in> set hs. \<exists>n.
      own_file env ?J sh0 (tk_cfg x) (tk_secret x) data (file_Path f) n \<and> map_of ns (file_Path f) = Some n"
    if x: "x \<in> set ts" "tk_phase x = Synced (Ok ())" for x
  proof -
    let ?s = "tk_secret x"
    have "files_done env ?J sh0 (tk_cfg x) ?s (Synced (Ok ())) ws" using bspec [OF dn x(1)] x(2) by simp
    then obtain rendered data where d: "own_data env ?J sh0 (tk_cfg x) ?s data" "render_secret env ?s data = Ok rendered"
      and wr: "\<forall>f \<in> set (sec_Files ?s). written_in ws ?s rendered f" by (auto simp: own_text_def)
    have "reads_inv env ?J sh0 (ts, sh)" by (rule reads_inv_run [OF assms(1-3,9)])
    from reads_inv_task(1) [OF this x(1)] assms(4) have g: "go_map (sec_TemplateData ?s)" by (auto simp: jobs_of_def)
    have "\<exists>ns \<in> set hs. \<exists>n. own_file env ?J sh0 (tk_cfg x) ?s data (file_Path f) n \<and> map_of ns (file_Path f) = Some n"
      if f: "f \<in> set (sec_Files ?s)" for f
    proof -
      from wr f obtain v where v: "v \<in> set ws" "wr_phase v = Finished (Ok ())" "file_text ?s rendered f = Ok (wr_config v, wr_content v)"
        unfolding written_in_def by blast
      have "seen ?old ?new (file_Path f) (written (wr_config v) (wr_content v) ?old)"
        using ok [OF v(1)] v(2) file_text_Ok(1) [OF v(3) f d(2) g] by (simp add: writer_ok_def)
      with hs own_fileI [OF d f v(3) g] show ?thesis by (auto simp: seen_def)
    qed
    then show ?thesis by blast
  qed
  ultimately show ?thesis using hs by blast
qed

section \<open>A concrete run\<close>

definition two_tasks :: "task list" where
  "two_tasks = [app_task, app_task]"

definition two_shared :: "nat shared" where
  "two_shared = sample_shared\<lparr>sh_disk := pool_world\<rparr>"

theorem concurrent_syncs_files_witness:
  "\<exists>ts sh hs. syncs_run sample_env (\<lambda>_ _. None) (replicate 40 (Turn 0) @ concat (replicate 40 [Turn 1, Turn 0])) (two_tasks, two_shared) = (ts, sh) \<and>
     w_hist (sh_disk sh) = hs \<and>
     (\<forall>ns \<in> set (w_nodes (sh_disk sh) # hs). map_of ns ''/out/pw'' = Some (Reg ''old'' 0x180 0 0) \<or>
       (\<exists>x \<in> set two_tasks. \<exists>data n. own_file sample_env (jobs_of two_tasks) two_shared (tk_cfg x) (tk_secret x) data ''/out/pw'' n \<and>
          map_of ns ''/out/pw'' = Some n))"
proof -
  let ?evs = "replicate 40 (Turn 0) @ concat (replicate 40 [Turn 1, Turn 0])"
  obtain ts sh where r: "syncs_run sample_env (\<lambda>_ _. None) ?evs (two_tasks, two_shared) = (ts, sh)" by (rule prod.exhaust)
  have p: "output_paths two_tasks = {''/out/pw''}" by (simp add: output_paths_def two_tasks_def app_task_facts paths_of_def app_secret_def)
  have "length two_writers = 2" by (simp add: two_writers_def)
  moreover have "files_of two_tasks = 2" by (simp add: files_of_def two_tasks_def app_task_facts app_secret_def)
  ultimately have free: "names_free (output_paths two_tasks) (files_of two_tasks) (sh_disk two_shared)"
    using two_ready(3) by (simp add: p unseen_def two_paths two_shared_def)
  have ok: "pool_ok (sh_clients two_shared) (sh_pool two_shared)" by (simp add: two_shared_def sample_shared_def pool_ok_def)
  have l: "\<forall>x \<in> set two_tasks. tk_phase x = Looking" by (simp add: two_tasks_def app_task_facts)
  have ag: "namespaces_agree (jobs_of two_tasks)" by (simp add: namespaces_agree_def jobs_of_def two_tasks_def)
  have g: "\<forall>x \<in> set two_tasks. go_map (sec_TemplateData (tk_secret x))" using app_map by (simp add: two_tasks_def app_task_facts)
  have sw: "plain_sweeps ?evs" by (simp add: plain_sweeps_def)
  have ap: "apart (output_paths two_tasks)" and tn: "\<forall>q \<in> output_paths two_tasks. q \<notin> tmp_names"
    using two_ready(1,2) by (simp_all add: p two_paths)
  from concurrent_syncs_files [OF ok l ag g ap tn free sw r] obtain hs where h0: "w_hist (sh_disk sh) = hs @ w_hist (sh_disk two_shared)"
    and h: "\<forall>p \<in> output_paths two_tasks. \<forall>ns \<in> set (w_nodes (sh_disk sh) # hs). map_of ns p = map_of (w_nodes (sh_disk two_shared)) p \<or>
       (\<exists>x \<in> set two_tasks. \<exists>data n. own_file sample_env (jobs_of two_tasks) two_shared (tk_cfg x) (tk_secret x) data p n \<and> map_of ns p = Some n)"
    by blast
  have w: "w_hist (sh_disk two_shared) = []" "map_of (w_nodes (sh_disk two_shared)) ''/out/pw'' = Some (Reg ''old'' 0x180 0 0)"
    by (simp_all add: two_shared_def pool_world_def sample_world_def)
  have "''/out/pw'' \<in> output_paths two_tasks" by (simp add: p)
  from bspec [OF h this, unfolded w] h0 w(1) r show ?thesis by auto
qed

end
