(* ===== verification/Command_Line.thy ===== *)
theory Command_Line
  imports Validator_Theorems Env_Config Health Convert
begin

text \<open>
  The command line: the flags and subcommands of \<open>cmd/secrets-sync/main.go\<close>, the choice of the configuration file,
  and the commands \<open>validate\<close> (\<open>validate.go\<close>), \<open>version\<close> (\<open>version.go\<close>) and \<open>isready\<close>.  Flag parsing is that of Go's
  package \<open>flag\<close>, for the two string flags that the program defines.
\<close>

section \<open>Flags\<close>

text \<open>Parsing ends the process (with a status), or gives the value of the flag and the remaining arguments.\<close>

datatype flag_result = FlagExit int | Flags string "string list"

text \<open>A flag with its value after an equals sign, which is looked for from the second character on.\<close>

definition split_flag :: "string \<Rightarrow> string \<times> string option" where
  "split_flag nm =
     (let rest = dropWhile (\<lambda>c. c \<noteq> CHR ''='') (tl nm)
      in (hd nm # takeWhile (\<lambda>c. c \<noteq> CHR ''='') (tl nm), if rest = [] then None else Some (tl rest)))"

fun flag_Parse :: "string \<Rightarrow> string list \<Rightarrow> flag_result" where
  "flag_Parse cfgFile [] = Flags cfgFile []"
| "flag_Parse cfgFile (s # args) =
     (if length s < 2 \<or> hd s \<noteq> CHR ''-'' then Flags cfgFile (s # args)
      else if s = ''--'' then Flags cfgFile args
      else
        (let nm = (if s ! 1 = CHR ''-'' then drop 2 s else drop 1 s) in
         if nm = [] \<or> hd nm = CHR ''-'' \<or> hd nm = CHR ''='' then FlagExit 2
         else
           (case split_flag nm of (flagName, val) \<Rightarrow>
              if flagName = ''config'' \<or> flagName = ''c'' then
                (case val of
                   Some v \<Rightarrow> flag_Parse v args
                 | None \<Rightarrow> (case args of [] \<Rightarrow> FlagExit 2 | v # args' \<Rightarrow> flag_Parse v args'))
              else if flagName = ''help'' \<or> flagName = ''h'' then FlagExit 0
              else FlagExit 2)))"

section \<open>Subcommands\<close>

datatype action =
    DoHelp | DoVersion | DoInit | DoValidate | DoConvert "string list" | DoIsReady
  | DoUnknown string | DoService

fun dispatch :: "string list \<Rightarrow> action" where
  "dispatch [] = DoService"
| "dispatch (cmd # rest) =
     (if cmd = ''help'' \<or> cmd = ''-h'' \<or> cmd = ''--help'' then DoHelp
      else if cmd = ''version'' \<or> cmd = ''-v'' \<or> cmd = ''--version'' then DoVersion
      else if cmd = ''init'' then DoInit
      else if cmd = ''validate'' then DoValidate
      else if cmd = ''convert'' then DoConvert rest
      else if cmd = ''isready'' then DoIsReady
      else DoUnknown cmd)"

text \<open>The precedence of the configuration file: flag, environment, the first default that exists.\<close>

definition default_locations :: "string list" where
  "default_locations = [''./config.yaml'', ''/etc/secrets-sync/config.yaml'']"

fun stat_ok :: "stat_result \<Rightarrow> bool" where
  "stat_ok (StatInfo d) = True"
| "stat_ok _ = False"

definition getConfigFile :: "os_env \<Rightarrow> string \<Rightarrow> string" where
  "getConfigFile os configFile =
     (if configFile \<noteq> [] then configFile
      else if os_Getenv os ''CONFIG_FILE'' \<noteq> [] then os_Getenv os ''CONFIG_FILE''
      else (case find (\<lambda>p. stat_ok (os_Stat os p)) default_locations of
          Some p \<Rightarrow> p
        | None \<Rightarrow> ''./config.yaml''))"

section \<open>The short commands\<close>

definition check_mark :: string where "check_mark = [CHR 0xE2, CHR 0x9C, CHR 0x93]"

definition validateConfig :: "os_env \<Rightarrow> string \<Rightarrow> (config_error, string list) outcome" where
  "validateConfig os configFile =
     and_then (Load os configFile) (\<lambda>cfg.
       let st = cfg_SecretStore cfg in
       Ok ([check_mark @ '' Configuration is valid'', ''  Vault address: '' @ ss_Address st] @
           (if ss_Namespace st \<noteq> [] then [''  Namespace:     '' @ ss_Namespace st] else []) @
           [''  Auth method:   '' @ ss_AuthMethod st,
            ''  Secrets:       '' @ decimal (length (cfg_Secrets cfg)) @ '' configured'']))"

text \<open>The exit status; a panic ends a Go process with status 2.\<close>

definition runValidate :: "os_env \<Rightarrow> string \<Rightarrow> int" where
  "runValidate os configFile =
     (case validateConfig os (getConfigFile os configFile) of Ok _ \<Rightarrow> 0 | Err _ \<Rightarrow> 1 | Panic _ \<Rightarrow> 2)"

record build_info =
  bi_Version :: string
  bi_GitCommit :: string
  bi_BuildDate :: string
  bi_GoVersion :: string
  bi_GOOS :: string
  bi_GOARCH :: string

definition printVersion :: "build_info \<Rightarrow> string list" where
  "printVersion b =
     (let version = (if bi_GitCommit b \<noteq> [] \<and> bi_GitCommit b \<noteq> ''dev'' then ''dev-'' @ bi_GitCommit b else bi_Version b)
      in [''secrets-sync version '' @ version, ''  Build date: '' @ bi_BuildDate b, ''  Go version: '' @ bi_GoVersion b,
          ''  OS/Arch:    '' @ bi_GOOS b @ ''/'' @ bi_GOARCH b])"

definition isReady :: "(string \<Rightarrow> f64 option) \<Rightarrow> os_env \<Rightarrow> world \<Rightarrow> int" where
  "isReady parseFloat os w =
     (let envCfg = LoadEnvConfig parseFloat (os_Getenv os)
      in (case CheckReadiness (StatusFile envCfg) w of Ok _ \<Rightarrow> 0 | _ \<Rightarrow> 1))"

text \<open>
  The status that the process ends with, \<^const>\<open>None\<close> when it does not end or when the service decides it.
\<close>

definition main_exit ::
  "(string \<Rightarrow> f64 option) \<Rightarrow> os_env \<Rightarrow> 'w convert_env \<Rightarrow> 'w \<Rightarrow> world \<Rightarrow> string list \<Rightarrow> int option" where
  "main_exit parseFloat os cenv cw w args =
     (case flag_Parse [] args of
        FlagExit n \<Rightarrow> Some n
      | Flags configFile rest \<Rightarrow>
          (case dispatch rest of
             DoHelp \<Rightarrow> Some 0 | DoVersion \<Rightarrow> Some 0 | DoInit \<Rightarrow> Some 0
           | DoValidate \<Rightarrow> Some (runValidate os configFile)
           | DoConvert cargs \<Rightarrow> map_option fst (runConvert cenv cargs cw)
           | DoIsReady \<Rightarrow> Some (isReady parseFloat os w)
           | DoUnknown cmd \<Rightarrow> Some 1
           | DoService \<Rightarrow> None))"

section \<open>What the command line does\<close>

text \<open>
  The spellings \<open>-v\<close> and \<open>--version\<close> of the version command are never reached: the flag parser, which does not know
  them, ends the process with status 2 before the subcommands are looked at.
\<close>

lemma version_flags_rejected:
  "flag_Parse cfgFile (''-v'' # rest) = FlagExit 2" "flag_Parse cfgFile (''--version'' # rest) = FlagExit 2"
  by (simp_all add: split_flag_def Let_def)

text \<open>The two flags set the same variable, so the last one given counts.\<close>

lemma config_flag_spellings:
  "flag_Parse x (''-c'' # v # rest) = flag_Parse v rest" "flag_Parse x (''--config'' # v # rest) = flag_Parse v rest"
  "flag_Parse x ((''--config='' @ v) # rest) = flag_Parse v rest"
  by (simp_all add: split_flag_def Let_def)

text \<open>
  \<open>validate\<close> tells the truth about the service.  The command succeeds exactly when the file that the service would
  load, chosen by the same precedence, parses to a configuration that is acceptable after its references to the
  environment are expanded.
\<close>

theorem runValidate_iff:
  "runValidate os configFile = 0 \<longleftrightarrow>
     (\<exists>data cfg. os_ReadFile os (getConfigFile os configFile) = Some data \<and> yaml_Unmarshal os data = Some cfg \<and>
        config_ok os (ExpandEnvVars os cfg))"
proof -
  have "runValidate os configFile = 0 \<longleftrightarrow> (\<exists>cfg. Load os (getConfigFile os configFile) = Ok cfg)"
    by (auto simp: runValidate_def validateConfig_def Let_def split: outcome.splits)
  then show ?thesis by (auto simp: Load_def Validate_Ok split: option.splits)
qed

end
