(* ===== verification/Yaml_Block.thy ===== *)
theory Yaml_Block
  imports Go_Numbers Config_Types
begin

text \<open>
  A reader for a small part of YAML, with which the texts that the program prints can be read back: block mappings and
  block sequences of mappings, told apart by their indentation, short plain keys, quoted scalars without escapes, comments
  and empty lines, all in printable ASCII.  The reader is partial: it gives up (\<^const>\<open>None\<close>) on everything that is not of this form, also where YAML
  would go on.  The decoder of the program is a library; that it reads such a text as this reader does is a hypothesis
  where it is used.
\<close>

section \<open>Lines\<close>

datatype ytoken =
    YItem nat
  | YEntry nat string "string option"

definition plain_key :: "string \<Rightarrow> bool" where
  "plain_key k \<longleftrightarrow> k \<noteq> [] \<and> length k \<le> 64 \<and>
     list_all (\<lambda>c. 97 \<le> char_code c \<and> char_code c \<le> 122 \<or> 65 \<le> char_code c \<and> char_code c \<le> 90 \<or> c = CHR ''-'' \<or> c = CHR ''.'') k \<and>
     hd k \<noteq> CHR ''-'' \<and> hd k \<noteq> CHR ''.'' \<and> k \<notin> set [''null'', ''Null'', ''NULL'', ''true'', ''True'', ''TRUE'', ''false'', ''False'', ''FALSE'']"

definition line_end :: "string \<Rightarrow> bool" where
  "line_end s \<longleftrightarrow>
     (case dropWhile (\<lambda>c. c = CHR '' '') s of [] \<Rightarrow> True | c # _ \<Rightarrow> c = CHR ''#'' \<and> hd s = CHR '' '')"

text \<open>A quoted scalar, and what follows it.\<close>

definition quoted :: "string \<Rightarrow> (string \<times> string) option" where
  "quoted s =
     (case s of
        [] \<Rightarrow> None
      | q # t \<Rightarrow>
          (let v = takeWhile (\<lambda>c. c \<noteq> q) t in
           if q \<noteq> CHR 0x22 \<and> q \<noteq> CHR 0x27 \<or> length v = length t \<or> CHR 0x5C \<in> set v then None
           else Some (v, drop (Suc (length v)) t)))"

definition read_entry :: "nat \<Rightarrow> string \<Rightarrow> ytoken option" where
  "read_entry ind s =
     (let k = takeWhile (\<lambda>c. c \<noteq> CHR '':'') s; r = drop (Suc (length k)) s in
      if length k = length s \<or> \<not> plain_key k then None
      else if line_end r then Some (YEntry ind k None)
      else if hd r \<noteq> CHR '' '' then None
      else (case quoted (dropWhile (\<lambda>c. c = CHR '' '') r) of
              None \<Rightarrow> None
            | Some (v, e) \<Rightarrow> if line_end e then Some (YEntry ind k (Some v)) else None))"

definition read_line :: "string \<Rightarrow> ytoken list option" where
  "read_line s =
     (let ind = length (takeWhile (\<lambda>c. c = CHR '' '') s); t = drop ind s in
      if t = [] \<or> hd t = CHR ''#'' then Some []
      else if take 2 t = ''- '' then map_option (\<lambda>e. [YItem ind, e]) (read_entry (ind + 2) (drop 2 t))
      else map_option (\<lambda>e. [e]) (read_entry ind t))"

fun read_lines :: "string list \<Rightarrow> ytoken list option" where
  "read_lines [] = Some []"
| "read_lines (l # ls) =
     (case read_line l of
        None \<Rightarrow> None
      | Some ts \<Rightarrow> map_option (\<lambda>us. ts @ us) (read_lines ls))"

section \<open>Blocks\<close>

datatype ynode = YText string | YMap "(string \<times> ynode) list" | YSeq "ynode list"

text \<open>
  The entries of a mapping and the items of a sequence at an indentation; they end where a line is indented less, and a
  line that is indented more fits nowhere.  A key without a value must have a block that is indented more, and no key
  occurs twice.  The first argument bounds the depth of the calls; where it is used up the reader gives up as well.
\<close>

fun y_entries :: "nat \<Rightarrow> nat \<Rightarrow> ytoken list \<Rightarrow> ((string \<times> ynode) list \<times> ytoken list) option"
  and y_items :: "nat \<Rightarrow> nat \<Rightarrow> ytoken list \<Rightarrow> (ynode list \<times> ytoken list) option"
  and y_block :: "nat \<Rightarrow> nat \<Rightarrow> ytoken list \<Rightarrow> (ynode \<times> ytoken list) option" where
  "y_entries 0 ind ts = None"
| "y_entries (Suc n) ind [] = Some ([], [])"
| "y_entries (Suc n) ind (YItem i # ts) = (if i < ind then Some ([], YItem i # ts) else None)"
| "y_entries (Suc n) ind (YEntry i k v # ts) =
     (if i < ind then Some ([], YEntry i k v # ts)
      else if ind < i then None
      else (case (case v of Some t \<Rightarrow> Some (YText t, ts) | None \<Rightarrow> y_block n ind ts) of
              None \<Rightarrow> None
            | Some (x, ts1) \<Rightarrow>
                (case y_entries n ind ts1 of
                   None \<Rightarrow> None
                 | Some (es, ts2) \<Rightarrow> if k \<in> set (map fst es) then None else Some ((k, x) # es, ts2))))"
| "y_items 0 ind ts = None"
| "y_items (Suc n) ind [] = Some ([], [])"
| "y_items (Suc n) ind (YEntry i k v # ts) = (if i < ind then Some ([], YEntry i k v # ts) else None)"
| "y_items (Suc n) ind (YItem i # ts) =
     (if i < ind then Some ([], YItem i # ts)
      else if ind < i then None
      else (case y_entries n (ind + 2) ts of
              None \<Rightarrow> None
            | Some (es, ts1) \<Rightarrow>
                (case y_items n ind ts1 of
                   None \<Rightarrow> None
                 | Some (xs, ts2) \<Rightarrow> Some (YMap es # xs, ts2))))"
| "y_block 0 ind ts = None"
| "y_block (Suc n) ind [] = None"
| "y_block (Suc n) ind (YEntry i k v # ts) =
     (if ind < i then map_option (\<lambda>(es, us). (YMap es, us)) (y_entries n i (YEntry i k v # ts)) else None)"
| "y_block (Suc n) ind (YItem i # ts) =
     (if ind < i then map_option (\<lambda>(xs, us). (YSeq xs, us)) (y_items n i (YItem i # ts)) else None)"

definition yaml_lines :: "string list \<Rightarrow> (string \<times> ynode) list option" where
  "yaml_lines ls =
     (case read_lines ls of
        None \<Rightarrow> None
      | Some ts \<Rightarrow>
          (case y_entries 1000 0 ts of
             Some (es, []) \<Rightarrow> Some es
           | _ \<Rightarrow> None))"

section \<open>The configuration\<close>

text \<open>
  The fields under the names that the tags of \<open>internal/config/types.go\<close> give them.  A field that is not there has its
  zero value; a field that the reader does not know makes it give up.
\<close>

type_synonym yfields = "(string \<times> ynode) list"

definition known :: "string list \<Rightarrow> yfields \<Rightarrow> bool" where
  "known ks es \<longleftrightarrow> list_all (\<lambda>(k, _). k \<in> set ks) es"

definition y_text :: "string \<Rightarrow> yfields \<Rightarrow> string option" where
  "y_text k es = (case map_of es k of None \<Rightarrow> Some [] | Some (YText t) \<Rightarrow> Some t | _ \<Rightarrow> None)"

definition y_duration :: "string \<Rightarrow> yfields \<Rightarrow> int option" where
  "y_duration k es = (case map_of es k of None \<Rightarrow> Some 0 | Some (YText t) \<Rightarrow> time_ParseDuration t | _ \<Rightarrow> None)"

definition y_list :: "(yfields \<Rightarrow> 'a option) \<Rightarrow> string \<Rightarrow> yfields \<Rightarrow> 'a list option" where
  "y_list f k es =
     (case map_of es k of
        None \<Rightarrow> Some []
      | Some (YSeq xs) \<Rightarrow> those (map (\<lambda>x. case x of YMap fs \<Rightarrow> f fs | _ \<Rightarrow> None) xs)
      | _ \<Rightarrow> None)"

definition y_data :: "yfields \<Rightarrow> (string \<times> string) list option" where
  "y_data es =
     (case map_of es ''template'' of
        None \<Rightarrow> Some []
      | Some (YMap [(k, YMap ds)]) \<Rightarrow>
          (if k = ''data'' then those (map (\<lambda>(nm, x). case x of YText t \<Rightarrow> Some (nm, t) | _ \<Rightarrow> None) ds) else None)
      | _ \<Rightarrow> None)"

definition y_file :: "yfields \<Rightarrow> File option" where
  "y_file es =
     (case (y_text ''path'' es, y_text ''mode'' es, y_text ''owner'' es, y_text ''group'' es) of
        (Some p, Some m, Some ow, Some g) \<Rightarrow>
          (if known [''path'', ''mode'', ''owner'', ''group''] es
           then Some \<lparr>file_Path = p, file_Mode = m, file_Owner = ow, file_Group = g\<rparr> else None)
      | _ \<Rightarrow> None)"

definition y_secret :: "yfields \<Rightarrow> Secret option" where
  "y_secret es =
     (case (y_text ''name'' es, y_text ''key'' es, y_text ''mountPath'' es, y_text ''namespace'' es, y_text ''credentials'' es,
            y_text ''kvVersion'' es, y_duration ''refreshInterval'' es, y_data es, y_list y_file ''files'' es) of
        (Some nm, Some key, Some mount, Some ns, Some creds, Some v, Some d, Some data, Some fs) \<Rightarrow>
          (if known [''name'', ''key'', ''mountPath'', ''namespace'', ''credentials'', ''kvVersion'', ''refreshInterval'', ''template'', ''files''] es
           then Some \<lparr>sec_Name = nm, sec_Key = key, sec_MountPath = mount, sec_Namespace = ns, sec_Credentials = creds,
                      sec_KVVersion = v, sec_RefreshInterval = d, sec_TemplateData = data, sec_Files = fs\<rparr>
           else None)
      | _ \<Rightarrow> None)"

definition y_store :: "yfields \<Rightarrow> SecretStore option" where
  "y_store es =
     (case (y_text ''address'' es, y_text ''namespace'' es, y_text ''authMethod'' es, y_text ''token'' es, y_text ''roleId'' es,
            y_text ''secretId'' es) of
        (Some addr, Some ns, Some auth, Some tok, Some role, Some sid) \<Rightarrow>
          (if known [''address'', ''namespace'', ''authMethod'', ''token'', ''roleId'', ''secretId''] es
           then Some \<lparr>ss_Address = addr, ss_Namespace = ns, ss_AuthMethod = auth, ss_Token = tok, ss_RoleID = role,
                      ss_SecretID = sid, ss_Credentials = [], ss_TLSSkipVerify = False, ss_TLSCACert = [], ss_TLSCAPath = [],
                      ss_TLSClientCert = [], ss_TLSClientKey = []\<rparr>
           else None)
      | _ \<Rightarrow> None)"

definition printable :: "char \<Rightarrow> bool" where
  "printable c \<longleftrightarrow> 32 \<le> char_code c \<and> char_code c \<le> 126"

definition yaml_config :: "string \<Rightarrow> Config option" where
  "yaml_config d =
     (let ls = split_on (CHR 0x0A) d in
      case if list_all (list_all printable) ls then yaml_lines ls else None of
        None \<Rightarrow> None
      | Some es \<Rightarrow>
          (case (map_of es ''secretStore'', y_list y_secret ''secrets'' es) of
             (Some (YMap st), Some xs) \<Rightarrow>
               (if known [''secretStore'', ''secrets''] es
                then map_option (\<lambda>ss. \<lparr>cfg_SecretStore = ss, cfg_Secrets = xs\<rparr>) (y_store st) else None)
           | _ \<Rightarrow> None))"

end
