(* ===== verification/Example_Text.thy ===== *)
theory Example_Text
  imports Yaml_Block
begin

text \<open>
  The example configuration that \<open>init\<close> prints (\<open>cmd/secrets-sync/init.go\<close>), line by line, and the configuration that
  these lines denote, read back by \<open>Yaml_Block\<close>.
\<close>

section \<open>Printing\<close>

definition printed :: "string list \<Rightarrow> string" where
  "printed ls = concat (map (\<lambda>l. l @ [CHR 0x0A]) ls)"

lemma split_printed:
  assumes "\<forall>l \<in> set ls. CHR 0x0A \<notin> set l"
  shows "split_on (CHR 0x0A) (printed ls) = ls @ [[]]"
  using assms
proof (induction ls)
  case (Cons l ls)
  have "split_on (CHR 0x0A) (l @ CHR 0x0A # printed ls) = l # split_on (CHR 0x0A) (printed ls)" if "CHR 0x0A \<notin> set l" for l
    using that by (induction l) auto
  with Cons show ?case by (simp add: printed_def)
qed (simp add: printed_def)

section \<open>The example configuration\<close>

definition init_lines :: "string list" where
  "init_lines =
     [''# Secrets Sync Configuration'',
      ''# See https://github.com/ohauer/secrets-sync for full documentation'',
      [],
      ''secretStore:'',
      ''  # Vault/OpenBao server address'',
      ''  address: \"https://vault.example.com\"'',
      [],
      ''  # Authentication method: token or approle'',
      ''  authMethod: \"token\"'',
      [],
      ''  # Token authentication (use environment variable: VAULT_TOKEN)'',
      ''  token: \"${VAULT_TOKEN}\"'',
      [],
      ''  # AppRole authentication (uncomment if using approle)'',
      ''  # roleId: \"${VAULT_ROLE_ID}\"'',
      ''  # secretId: \"${VAULT_SECRET_ID}\"'',
      [],
      ''  # OpenBao namespace (optional, global default for all secrets)'',
      ''  # namespace: \"team-a\"'',
      [],
      ''  # Named credential sets (optional, for different teams/namespaces)'',
      ''  # credentials:'',
      ''  #   team-a:'',
      ''  #     authMethod: \"token\"'',
      ''  #     token: \"${TEAM_A_TOKEN}\"'',
      ''  #   team-b:'',
      ''  #     authMethod: \"approle\"'',
      ''  #     roleId: \"${TEAM_B_ROLE_ID}\"'',
      ''  #     secretId: \"${TEAM_B_SECRET_ID}\"'',
      [],
      ''  # TLS Configuration (optional)'',
      ''  # tlsCACert: \"/certs/ca-bundle.pem\"      # Custom CA certificate'',
      ''  # tlsCAPath: \"/etc/ssl/certs\"            # CA certificate directory'',
      ''  # tlsSkipVerify: false                   # Skip TLS verification (insecure)'',
      ''  # tlsClientCert: \"/certs/client.pem\"     # Client certificate (mTLS)'',
      ''  # tlsClientKey: \"/certs/client-key.pem\"  # Client key (mTLS)'',
      [],
      ''# Secret Configuration'',
      ''# Each secret must specify:'',
      ''#   - key: Path to the secret in Vault (e.g., \"app/database/credentials\")'',
      ''#   - mountPath: KV secrets engine mount path (e.g., \"secret\")'',
      ''#   - kvVersion: KV engine version - \"v1\" or \"v2\"'',
      ''#   - namespace: (optional) OpenBao namespace override'',
      ''#   - credentials: (optional) Named credential set to use'',
      ''#'',
      ''# KV v1 vs v2:'',
      ''#   - v1: Simple key-value store, no versioning, direct path access'',
      ''#   - v2: Versioned secrets with metadata, path includes /data/ prefix (handled automatically)'',
      ''#'',
      ''# Namespace precedence:'',
      ''#   - Per-secret namespace overrides global namespace'',
      ''#   - Empty namespace (\"\") means root namespace'',
      ''#'',
      ''# Credential precedence:'',
      ''#   - Per-secret credentials override default credentials'',
      ''#   - If not specified, uses default credentials from secretStore'',
      ''#'',
      ''# Template mapping (external-secrets style):'',
      ''#   - Template data key MUST match the basename of the target file path'',
      ''#   - Key 'db-username' requires a file with basename 'db-username'' @ [CHR 0x27],
      ''#   - Mismatched keys will cause an error'',
      [],
      ''secrets:'',
      ''  # Example: TLS certificate from KV v2'',
      ''  - name: \"tls-cert\"'',
      ''    key: \"common/tls/example-cert\"'',
      ''    mountPath: \"secret\"'',
      ''    kvVersion: \"v2\"'',
      ''    refreshInterval: \"30m\"'',
      ''    # namespace: \"\"  # Optional: override global namespace'',
      ''    template:'',
      ''      data:'',
      ''        tls.crt: '{{ .tlsCrt }}'   # -> /secrets/tls.crt'',
      ''        tls.key: '{{ .tlsKey }}'   # -> /secrets/tls.key'',
      ''    files:'',
      ''      - path: \"/secrets/tls.crt\"'',
      ''        mode: \"0644\"'',
      ''      - path: \"/secrets/tls.key\"'',
      ''        mode: \"0600\"'',
      [],
      ''  # Example: Database credentials from KV v2'',
      ''  - name: \"database-creds\"'',
      ''    key: \"database/prod/credentials\"'',
      ''    mountPath: \"secret\"'',
      ''    kvVersion: \"v2\"'',
      ''    refreshInterval: \"1h\"'',
      ''    template:'',
      ''      data:'',
      ''        db-username: '{{ .username }}'  # -> /secrets/db-username'',
      ''        db-password: '{{ .password }}'  # -> /secrets/db-password'',
      ''    files:'',
      ''      - path: \"/secrets/db-username\"'',
      ''        mode: \"0600\"'',
      ''      - path: \"/secrets/db-password\"'',
      ''        mode: \"0600\"'',
      [],
      ''  # Example: API keys from KV v1 (legacy)'',
      ''  - name: \"api-keys\"'',
      ''    key: \"app/config\"'',
      ''    mountPath: \"kv\"'',
      ''    kvVersion: \"v1\"'',
      ''    refreshInterval: \"2h\"'',
      ''    template:'',
      ''      data:'',
      ''        api-key: '{{ .apiKey }}'       # -> /secrets/api-key'',
      ''        api-secret: '{{ .apiSecret }}' # -> /secrets/api-secret'',
      ''    files:'',
      ''      - path: \"/secrets/api-key\"'',
      ''        mode: \"0600\"'',
      ''      - path: \"/secrets/api-secret\"'',
      ''        mode: \"0600\"'']"

section \<open>The value of the text\<close>

text \<open>The value that the text denotes as a YAML document, as it is read below.\<close>

definition example_file :: "string \<Rightarrow> string \<Rightarrow> File" where
  "example_file p md = \<lparr>file_Path = p, file_Mode = md, file_Owner = [], file_Group = []\<rparr>"

definition example_config :: "string \<Rightarrow> Config" where
  "example_config token =
     \<lparr>cfg_SecretStore =
        \<lparr>ss_Address = ''https://vault.example.com'', ss_Namespace = [], ss_AuthMethod = ''token'', ss_Token = token,
         ss_RoleID = [], ss_SecretID = [], ss_Credentials = [], ss_TLSSkipVerify = False, ss_TLSCACert = [],
         ss_TLSCAPath = [], ss_TLSClientCert = [], ss_TLSClientKey = []\<rparr>,
      cfg_Secrets =
        [\<lparr>sec_Name = ''tls-cert'', sec_Key = ''common/tls/example-cert'', sec_MountPath = ''secret'', sec_Namespace = [],
          sec_Credentials = [], sec_KVVersion = ''v2'', sec_RefreshInterval = 30 * Minute,
          sec_TemplateData = [(''tls.crt'', ''{{ .tlsCrt }}''), (''tls.key'', ''{{ .tlsKey }}'')],
          sec_Files = [example_file ''/secrets/tls.crt'' ''0644'', example_file ''/secrets/tls.key'' ''0600'']\<rparr>,
         \<lparr>sec_Name = ''database-creds'', sec_Key = ''database/prod/credentials'', sec_MountPath = ''secret'', sec_Namespace = [],
          sec_Credentials = [], sec_KVVersion = ''v2'', sec_RefreshInterval = 60 * Minute,
          sec_TemplateData = [(''db-username'', ''{{ .username }}''), (''db-password'', ''{{ .password }}'')],
          sec_Files = [example_file ''/secrets/db-username'' ''0600'', example_file ''/secrets/db-password'' ''0600'']\<rparr>,
         \<lparr>sec_Name = ''api-keys'', sec_Key = ''app/config'', sec_MountPath = ''kv'', sec_Namespace = [],
          sec_Credentials = [], sec_KVVersion = ''v1'', sec_RefreshInterval = 120 * Minute,
          sec_TemplateData = [(''api-key'', ''{{ .apiKey }}''), (''api-secret'', ''{{ .apiSecret }}'')],
          sec_Files = [example_file ''/secrets/api-key'' ''0600'', example_file ''/secrets/api-secret'' ''0600'']\<rparr>]\<rparr>"

text \<open>The printed text is read back: first its blocks, then the fields of the configuration.\<close>

definition example_fields :: yfields where
  "example_fields =
     [(''secretStore'', YMap [(''address'', YText ''https://vault.example.com''), (''authMethod'', YText ''token''), (''token'', YText ''${VAULT_TOKEN}'')]),
      (''secrets'', YSeq
       [YMap
        [(''name'', YText ''tls-cert''), (''key'', YText ''common/tls/example-cert''), (''mountPath'', YText ''secret''),
         (''kvVersion'', YText ''v2''), (''refreshInterval'', YText ''30m''),
         (''template'', YMap [(''data'', YMap [(''tls.crt'', YText ''{{ .tlsCrt }}''), (''tls.key'', YText ''{{ .tlsKey }}'')])]),
         (''files'', YSeq [YMap [(''path'', YText ''/secrets/tls.crt''), (''mode'', YText ''0644'')],
           YMap [(''path'', YText ''/secrets/tls.key''), (''mode'', YText ''0600'')]])],
        YMap
        [(''name'', YText ''database-creds''), (''key'', YText ''database/prod/credentials''), (''mountPath'', YText ''secret''),
         (''kvVersion'', YText ''v2''), (''refreshInterval'', YText ''1h''),
         (''template'', YMap [(''data'', YMap [(''db-username'', YText ''{{ .username }}''), (''db-password'', YText ''{{ .password }}'')])]),
         (''files'', YSeq [YMap [(''path'', YText ''/secrets/db-username''), (''mode'', YText ''0600'')],
           YMap [(''path'', YText ''/secrets/db-password''), (''mode'', YText ''0600'')]])],
        YMap
        [(''name'', YText ''api-keys''), (''key'', YText ''app/config''), (''mountPath'', YText ''kv''),
         (''kvVersion'', YText ''v1''), (''refreshInterval'', YText ''2h''),
         (''template'', YMap [(''data'', YMap [(''api-key'', YText ''{{ .apiKey }}''), (''api-secret'', YText ''{{ .apiSecret }}'')])]),
         (''files'', YSeq [YMap [(''path'', YText ''/secrets/api-key''), (''mode'', YText ''0600'')],
           YMap [(''path'', YText ''/secrets/api-secret''), (''mode'', YText ''0600'')]])]])]"

lemma init_lines_plain: "list_all (list_all printable) init_lines"
  by code_simp

lemma init_fields: "yaml_lines (init_lines @ [[]]) = Some example_fields"
proof -
  have "case yaml_lines (init_lines @ [[]]) of None \<Rightarrow> False | Some es \<Rightarrow> es = example_fields" by code_simp
  then show ?thesis by (simp split: option.split_asm)
qed

lemma duration_codes:
  "char_code CHR ''0'' = 48" "char_code CHR ''1'' = 49" "char_code CHR ''2'' = 50" "char_code CHR ''3'' = 51"
  "char_code CHR ''m'' = 109" "char_code CHR ''h'' = 104"
  by (simp_all add: char_code_def)

lemmas duration_parts =
  duration_codes duration_component_def duration_number_def duration_fraction_part_def duration_value_def duration_unit_def
  unit_char_def is_digit_def digit_val_def has_prefix_def Let_def

lemma components:
  "duration_component ''30m'' = Some (1800000000000, [])"
  "duration_component ''1h'' = Some (3600000000000, [])"
  "duration_component ''2h'' = Some (7200000000000, [])"
  by (simp_all add: duration_parts)

lemma durations: "time_ParseDuration ''30m'' = Some (30 * Minute)" "time_ParseDuration ''1h'' = Some (60 * Minute)"
  "time_ParseDuration ''2h'' = Some (120 * Minute)"
  by (simp_all add: components time_ParseDuration_def duration_loop.simps strip_sign_def Minute_def Second_def)

lemmas decode_defs =
  y_text_def y_duration_def y_list_def y_data_def y_file_def y_secret_def y_store_def known_def

lemma newline_not_printable: "\<not> printable (CHR 0x0A)"
  by (simp add: printable_def char_code_def)

lemma init_decoded: "yaml_config (printed init_lines) = Some (example_config ''${VAULT_TOKEN}'')"
proof -
  have "split_on (CHR 0x0A) (printed init_lines) = init_lines @ [[]]"
    using init_lines_plain by (intro split_printed) (use newline_not_printable in \<open>auto simp: list_all_iff\<close>)
  with init_fields init_lines_plain show ?thesis
    by (simp add: yaml_config_def example_fields_def decode_defs durations example_config_def example_file_def)
qed

end
