(* ===== verification/Fixed_Texts.thy ===== *)
theory Fixed_Texts
  imports Command_Line Syncer Example_Text
begin

text \<open>
  The text that \<open>help\<close> (\<open>cmd/secrets-sync/help.go\<close>) prints, line by line, and what it and the text of \<open>init\<close>
  (\<open>Example_Text\<close>) promise: the example configuration is one that \<open>validate\<close> accepts, and the commands that the help lists
  are those that \<open>main\<close> knows.
\<close>

section \<open>The help\<close>

definition help_lines :: "string list" where
  "help_lines =
     [''secrets-sync - Sync secrets from Vault/OpenBao to filesystem'',
      [],
      ''USAGE:'',
      ''    secrets-sync [command] [flags]'',
      [],
      ''COMMANDS:'',
      ''    (none)      Run the secrets sync service (default)'',
      ''    init        Generate example configuration file'',
      ''    validate    Validate configuration file'',
      ''    convert     Convert external-secrets YAML to secrets-sync format'',
      ''    version     Show version information'',
      ''    isready     Check if service is ready (for healthchecks)'',
      ''    help        Show this help message'',
      [],
      ''FLAGS:'',
      ''    -c, --config <path>  Path to configuration file'',
      ''    -h, --help           Show this help message'',
      [],
      ''CONFIGURATION:'',
      ''    Config file precedence (highest to lowest):'',
      ''    1. --config/-c flag'',
      ''    2. CONFIG_FILE environment variable'',
      ''    3. ./config.yaml (current directory)'',
      ''    4. /etc/secrets-sync/config.yaml (system-wide)'',
      [],
      ''ENVIRONMENT VARIABLES:'',
      ''    CONFIG_FILE              Path to configuration file'',
      ''    VAULT_ADDR              Vault/OpenBao server address'',
      ''    VAULT_TOKEN             Vault token for authentication'',
      ''    VAULT_ROLE_ID           AppRole role ID'',
      ''    VAULT_SECRET_ID         AppRole secret ID'',
      ''    VAULT_CACERT            Path to CA certificate file'',
      ''    VAULT_CAPATH            Path to CA certificate directory'',
      ''    VAULT_SKIP_VERIFY       Skip TLS verification (insecure)'',
      ''    VAULT_CLIENT_CERT       Path to client certificate (mTLS)'',
      ''    VAULT_CLIENT_KEY        Path to client key (mTLS)'',
      ''    LOG_LEVEL               Log level (debug, info, warn, error)'',
      ''    WATCH_CONFIG            Enable config hot reload (default: false)'',
      [],
      ''METRICS:'',
      ''    METRICS_ADDR            Metrics server listen address (default: 127.0.0.1)'',
      ''    METRICS_PORT            Metrics server port (default: 8080, range: 1025-65535)'',
      ''    ENABLE_METRICS          Enable metrics/health endpoints (default: true)'',
      [],
      ''EXAMPLES:'',
      ''    # Run with config file (flag)'',
      ''    secrets-sync --config config.yaml'',
      ''    secrets-sync -c /etc/secrets-sync/config.yaml'',
      [],
      ''    # Run with config file (env var)'',
      ''    CONFIG_FILE=config.yaml secrets-sync'',
      [],
      ''    # Run with default config location'',
      ''    secrets-sync'',
      [],
      ''    # Generate example config'',
      ''    secrets-sync init > config.yaml'',
      [],
      ''    # Validate config'',
      ''    secrets-sync validate'',
      ''    secrets-sync --config custom.yaml validate'',
      [],
      ''    # Check version'',
      ''    secrets-sync version'',
      [],
      ''    # Healthcheck'',
      ''    secrets-sync isready'',
      [],
      ''    # Convert external-secrets to secrets-sync format'',
      ''    secrets-sync convert external-secret.yaml --mount-path devops'',
      [],
      ''    # Convert with vault query (auto-detect field names)'',
      ''    secrets-sync convert external-secret.yaml --query-vault'',
      [],
      ''For more information, see: https://github.com/ohauer/secrets-sync'']"

definition usage_text :: "string list" where
  "usage_text =
     [''Usage: secrets-sync [--config <path>] [command]'',
      ''Run 'secrets-sync help' for more information.'']"

section \<open>The example is valid\<close>

lemma example_expanded: "ExpandEnvVars os (example_config ''${VAULT_TOKEN}'') = example_config (os_Getenv os ''VAULT_TOKEN'')"
  by (simp add: ExpandEnvVars_def example_config_def expandEnv_def has_prefix_def has_suffix_def Let_def)

lemma example_norm: "norm_config os (example_config t) = example_config t"
  by (simp add: norm_config_def norm_secret_def norm_file_def norm_path_def example_config_def example_file_def path_eval)

lemma mode_0644: "is_ok (ParseMode ''0644'')"
  by (simp add: ParseMode_def strconv_ParseUint_def is_digit_def digit_val_def char_code_def validateMode_def ModePerm_def Let_def)

lemma example_ok:
  assumes "url_Parse os ''https://vault.example.com'' = Some (''https'', ''vault.example.com'')"
  shows "config_ok os (example_config t) \<longleftrightarrow> t \<noteq> []"
  using assms mode_0644 by (simp add: accept_defs example_config_def example_file_def path_eval Second_def Minute_def)

lemma example_no_panic: "Validate os (example_config t) \<noteq> Panic q"
proof
  assume v: "Validate os (example_config t) = Panic q"
  from Validate_Panic [OF this] show False
    by (simp add: example_config_def)
qed

text \<open>
  C30: what \<open>init\<close> prints is a configuration that works.  Take a file with the printed text, a YAML decoder that agrees with
  the reader of block mappings (\<open>Yaml_Block\<close>) on the texts that the reader can read, and a URL parser that splits the address.
  Then \<open>validate\<close> accepts the file exactly when \<open>VAULT_TOKEN\<close> is set, and what is loaded is the example with that token in
  place of the reference; and each of its files finds the template of its name when it is written.
\<close>

theorem init_config_valid:
  assumes "p \<noteq> []" and "os_ReadFile os p = Some (printed init_lines)"
    and "\<And>d cfg. yaml_config d = Some cfg \<Longrightarrow> yaml_Unmarshal os d = Some cfg"
    and "url_Parse os ''https://vault.example.com'' = Some (''https'', ''vault.example.com'')"
  shows "runValidate os p = (if os_Getenv os ''VAULT_TOKEN'' = [] then 1 else 0) \<and>
    (\<forall>cfg. Load os p = Ok cfg \<longleftrightarrow> os_Getenv os ''VAULT_TOKEN'' \<noteq> [] \<and> cfg = example_config (os_Getenv os ''VAULT_TOKEN'')) \<and>
    (\<forall>s \<in> set (cfg_Secrets (example_config t)). \<forall>f \<in> set (sec_Files s).
       file_to_template (keys (sec_TemplateData s)) (sec_Files s) (file_Path f) = Some (filepath_Base (file_Path f)))"
proof (intro conjI)
  let ?t = "os_Getenv os ''VAULT_TOKEN''"
  have v: "Validate os (example_config ?t) = Ok cfg \<longleftrightarrow> ?t \<noteq> [] \<and> cfg = example_config ?t" for cfg
    by (simp add: Validate_Ok example_ok [OF assms(4)] example_norm)
  have l: "Load os p = wrap_err (Within InConfig) (Validate os (example_config ?t))"
    by (simp add: Load_def assms(2) assms(3) [OF init_decoded] example_expanded)
  show "\<forall>cfg. Load os p = Ok cfg \<longleftrightarrow> ?t \<noteq> [] \<and> cfg = example_config ?t" by (simp add: l v)
  have g: "getConfigFile os p = p" by (simp add: getConfigFile_def assms(1))
  show "runValidate os p = (if ?t = [] then 1 else 0)"
  proof (cases "Validate os (example_config ?t)")
    case (Ok cfg)
    with v [of cfg] have "?t \<noteq> []" by simp
    with Ok show ?thesis by (simp add: runValidate_def validateConfig_def g l Let_def)
  next
    case (Err e)
    with v [of "example_config ?t"] show ?thesis by (auto simp: runValidate_def validateConfig_def g l)
  qed (simp add: example_no_panic)
  have b: "filepath_Base ''/secrets/tls.crt'' = ''tls.crt''" "filepath_Base ''/secrets/tls.key'' = ''tls.key''"
    "filepath_Base ''/secrets/db-username'' = ''db-username''" "filepath_Base ''/secrets/db-password'' = ''db-password''"
    "filepath_Base ''/secrets/api-key'' = ''api-key''" "filepath_Base ''/secrets/api-secret'' = ''api-secret''"
    by code_simp+
  have s: "sort [''tls.crt'', ''tls.key''] = [''tls.crt'', ''tls.key'']"
    "sort [''db-username'', ''db-password''] = [''db-password'', ''db-username'']"
    "sort [''api-key'', ''api-secret''] = [''api-key'', ''api-secret'']"
    by code_simp+
  show "\<forall>s \<in> set (cfg_Secrets (example_config t)). \<forall>f \<in> set (sec_Files s).
       file_to_template (keys (sec_TemplateData s)) (sec_Files s) (file_Path f) = Some (filepath_Base (file_Path f))"
    by (simp add: example_config_def example_file_def file_to_template_def keys_def b s)
qed

definition example_os :: "string \<Rightarrow> os_env" where
  "example_os token =
     \<lparr>os_Getenv = (\<lambda>v. if v = ''VAULT_TOKEN'' then token else []), os_Wd = None, os_Stat = (\<lambda>p. StatNotExist),
      os_ReadFile = (\<lambda>p. if p = ''config.yaml'' then Some (printed init_lines) else None),
      url_Parse = (\<lambda>u. if u = ''https://vault.example.com'' then Some (''https'', ''vault.example.com'') else None),
      yaml_Unmarshal = yaml_config\<rparr>"

theorem init_config_valid_witness:
  "runValidate (example_os ''s.1'') ''config.yaml'' = 0 \<and> runValidate (example_os []) ''config.yaml'' = 1"
  using init_config_valid [of "''config.yaml''" "example_os ''s.1''"] init_config_valid [of "''config.yaml''" "example_os []"]
  by (simp add: example_os_def)

section \<open>The commands in the help\<close>

text \<open>The first words of the lines between the heading \<open>COMMANDS:\<close> and the next empty line.\<close>

definition listed_commands :: "string list" where
  "listed_commands =
     map (\<lambda>l. takeWhile (\<lambda>c. c \<noteq> CHR '' '') (drop 4 l))
       (takeWhile (\<lambda>l. l \<noteq> []) (tl (dropWhile (\<lambda>l. l \<noteq> ''COMMANDS:'') help_lines)))"

lemma listed_commands_eval:
  "listed_commands = [''(none)'', ''init'', ''validate'', ''convert'', ''version'', ''isready'', ''help'']"
  by (simp add: listed_commands_def help_lines_def)

text \<open>
  The help is complete.  The subcommands it lists, besides the service without one, are exactly the words that \<open>main\<close>
  takes as subcommands, apart from those that start with a hyphen.
\<close>

lemma help_lists_commands:
  "set (tl listed_commands) = {cmd. \<not> has_prefix cmd ''-'' \<and> dispatch (cmd # rest) \<noteq> DoUnknown cmd}"
  by (auto simp: listed_commands_eval has_prefix_def)

end
