(* ===== verification/Observability.thy ===== *)
theory Observability
  imports Go_Numbers
begin

text \<open>
  \<open>internal/metrics/metrics.go\<close>, \<open>internal/logger/logger.go\<close> and \<open>internal/tracing/tracer.go\<close>: what the
  program asks of the Prometheus, zap and OpenTelemetry libraries.  The calls on metrics are recorded, oldest first, as
  they are made; a logger is the threshold it was built with, its fields, and the entries that passed it and how many are flushed; the OpenTelemetry objects
  are arguments.
\<close>

section \<open>Metrics\<close>

datatype metric =
    SecretFetchTotal | SecretFetchErrors | SecretSyncDuration
  | CircuitBreakerState | SecretsConfigured | SecretsSynced

text \<open>The name each metric is registered under and the labels it is declared with.\<close>

fun metric_decl :: "metric \<Rightarrow> string \<times> string list" where
  "metric_decl SecretFetchTotal = (''secret_fetch_total'', [''secret_name'', ''vault_path'', ''status''])"
| "metric_decl SecretFetchErrors = (''secret_fetch_errors_total'', [''secret_name'', ''vault_path'', ''error_type''])"
| "metric_decl SecretSyncDuration = (''secret_sync_duration_seconds'', [''secret_name''])"
| "metric_decl CircuitBreakerState = (''circuit_breaker_state'', [''name''])"
| "metric_decl SecretsConfigured = (''secrets_configured'', [])"
| "metric_decl SecretsSynced = (''secrets_synced'', [])"

datatype metric_op =
    Inc metric "string list"
  | Observe metric "string list" f64
  | SetTo metric "string list" f64

type_synonym metric_log = "metric_op list"

definition RecordFetchSuccess :: "string \<Rightarrow> string \<Rightarrow> metric_log \<Rightarrow> metric_log" where
  "RecordFetchSuccess secretName vaultPath ms = ms @ [Inc SecretFetchTotal [secretName, vaultPath, ''success'']]"

definition RecordFetchError :: "string \<Rightarrow> string \<Rightarrow> string \<Rightarrow> metric_log \<Rightarrow> metric_log" where
  "RecordFetchError secretName vaultPath errorType ms =
     ms @ [Inc SecretFetchTotal [secretName, vaultPath, ''error''],
           Inc SecretFetchErrors [secretName, vaultPath, errorType]]"

definition RecordSyncDuration :: "string \<Rightarrow> f64 \<Rightarrow> metric_log \<Rightarrow> metric_log" where
  "RecordSyncDuration secretName duration ms = ms @ [Observe SecretSyncDuration [secretName] duration]"

definition SetCircuitBreakerState :: "string \<Rightarrow> string \<Rightarrow> metric_log \<Rightarrow> metric_log" where
  "SetCircuitBreakerState nm state ms =
     (let v = (if state = ''closed'' then 0 else if state = ''half-open'' then 1 else if state = ''open'' then 2 else 0)
      in ms @ [SetTo CircuitBreakerState [nm] (f64_of_int v)])"

definition SetSecretsConfigured :: "int \<Rightarrow> metric_log \<Rightarrow> metric_log" where
  "SetSecretsConfigured count ms = ms @ [SetTo SecretsConfigured [] (f64_of_int count)]"

definition SetSecretsSynced :: "int \<Rightarrow> metric_log \<Rightarrow> metric_log" where
  "SetSecretsSynced count ms = ms @ [SetTo SecretsSynced [] (f64_of_int count)]"

text \<open>
  The value that the recorded calls give a gauge and a counter: for a gauge the one set last, if one was set (a scrape shows 0
  for a gauge without labels that was never set, and nothing for labels that were never used).
\<close>

fun gauge_value :: "metric \<Rightarrow> string list \<Rightarrow> metric_log \<Rightarrow> f64 option" where
  "gauge_value m ls [] = None"
| "gauge_value m ls (SetTo m' ls' v # ms) =
     (case gauge_value m ls ms of Some x \<Rightarrow> Some x | None \<Rightarrow> if m' = m \<and> ls' = ls then Some v else None)"
| "gauge_value m ls (_ # ms) = gauge_value m ls ms"

definition counter_value :: "metric \<Rightarrow> string list \<Rightarrow> metric_log \<Rightarrow> nat" where
  "counter_value m ls ms = count_list ms (Inc m ls)"

lemma gauge_value_append:
  "gauge_value m ls (ms @ ns) = (case gauge_value m ls ns of Some x \<Rightarrow> Some x | None \<Rightarrow> gauge_value m ls ms)"
  by (induction m ls ms rule: gauge_value.induct) (auto split: option.splits)

lemma counter_value_append: "counter_value m ls (ms @ ns) = counter_value m ls ms + counter_value m ls ns"
  by (simp add: counter_value_def)

text \<open>
  A call on a labelled metric panics when the number of values is not the number of labels; no call of this package
  can.
\<close>

fun well_labelled :: "metric_op \<Rightarrow> bool" where
  "well_labelled (Inc m ls) \<longleftrightarrow> length ls = length (snd (metric_decl m))"
| "well_labelled (Observe m ls v) \<longleftrightarrow> length ls = length (snd (metric_decl m))"
| "well_labelled (SetTo m ls v) \<longleftrightarrow> length ls = length (snd (metric_decl m))"

lemmas metric_calls =
  RecordFetchSuccess_def RecordFetchError_def RecordSyncDuration_def SetCircuitBreakerState_def
  SetSecretsConfigured_def SetSecretsSynced_def

section \<open>Logging\<close>

datatype level = DebugLevel | InfoLevel | WarnLevel | ErrorLevel | FatalLevel

fun level_index :: "level \<Rightarrow> nat" where
  "level_index DebugLevel = 0"
| "level_index InfoLevel = 1"
| "level_index WarnLevel = 2"
| "level_index ErrorLevel = 3"
| "level_index FatalLevel = 4"

lemma level_index_inj [simp]: "level_index a = level_index b \<longleftrightarrow> a = b"
  by (cases a; cases b) simp_all

instantiation level :: linorder
begin

definition less_eq_level :: "level \<Rightarrow> level \<Rightarrow> bool" where
  "less_eq_level a b \<longleftrightarrow> level_index a \<le> level_index b"

definition less_level :: "level \<Rightarrow> level \<Rightarrow> bool" where
  "less_level a b \<longleftrightarrow> level_index a < level_index b"

instance
  by standard (auto simp: less_eq_level_def less_level_def)

end

record logger =
  lg_level :: level
  lg_fields :: "(string \<times> string) list"
  lg_entries :: "(level \<times> string) list"
  lg_flushed :: nat

text \<open>The package variable \<open>globalLogger\<close>; a production logger of zap logs from the level info on.\<close>

type_synonym log_state = "logger option"

definition level_of :: "string \<Rightarrow> level" where
  "level_of s =
     (if s = ''debug'' then DebugLevel else if s = ''info'' then InfoLevel else if s = ''warn'' then WarnLevel
      else if s = ''error'' then ErrorLevel else InfoLevel)"

definition logger_Init :: "string option \<Rightarrow> string \<Rightarrow> log_state \<Rightarrow> (string, unit) outcome \<times> log_state" where
  "logger_Init buildError lvl st =
     (case buildError of
        Some e \<Rightarrow> (Err e, st)
      | None \<Rightarrow> (Ok (), Some \<lparr>lg_level = level_of lvl, lg_fields = [], lg_entries = [], lg_flushed = 0\<rparr>))"

definition logger_Get :: "log_state \<Rightarrow> logger" where
  "logger_Get st = (case st of Some l \<Rightarrow> l | None \<Rightarrow> \<lparr>lg_level = InfoLevel, lg_fields = [], lg_entries = [], lg_flushed = 0\<rparr>)"

definition log_at :: "level \<Rightarrow> string \<Rightarrow> log_state \<Rightarrow> log_state" where
  "log_at lvl msg st =
     (let l = logger_Get st
      in Some (if lg_level l \<le> lvl then l\<lparr>lg_entries := lg_entries l @ [(lvl, msg)]\<rparr> else l))"

definition logger_Info :: "string \<Rightarrow> log_state \<Rightarrow> log_state" where "logger_Info = log_at InfoLevel"
definition logger_Error :: "string \<Rightarrow> log_state \<Rightarrow> log_state" where "logger_Error = log_at ErrorLevel"
definition logger_Warn :: "string \<Rightarrow> log_state \<Rightarrow> log_state" where "logger_Warn = log_at WarnLevel"
definition logger_Debug :: "string \<Rightarrow> log_state \<Rightarrow> log_state" where "logger_Debug = log_at DebugLevel"

text \<open>A fatal message is logged and ends the process with status 1.\<close>

definition logger_Fatal :: "string \<Rightarrow> log_state \<Rightarrow> int \<times> log_state" where
  "logger_Fatal msg st = (1, log_at FatalLevel msg st)"

text \<open>
  \<open>Sync\<close> flushes what the global logger has logged and makes no logger; its error is dropped.  \<open>With\<close> gives a child of the
  global logger, which is made if there is none; the child writes to the same output, with more fields in each entry.
\<close>

definition logger_Sync :: "log_state \<Rightarrow> log_state" where
  "logger_Sync st = (case st of None \<Rightarrow> None | Some l \<Rightarrow> Some (l\<lparr>lg_flushed := length (lg_entries l)\<rparr>))"

definition logger_With :: "(string \<times> string) list \<Rightarrow> log_state \<Rightarrow> logger \<times> log_state" where
  "logger_With extra st = (let l = logger_Get st in (l\<lparr>lg_fields := lg_fields l @ extra\<rparr>, Some l))"

text \<open>An error is logged at every level that can be configured.\<close>

lemma errors_always_logged:
  "\<exists>l. logger_Error msg (snd (logger_Init None lvl st)) = Some l \<and> (ErrorLevel, msg) \<in> set (lg_entries l)"
  by (auto simp: logger_Error_def log_at_def logger_Init_def logger_Get_def level_of_def less_eq_level_def Let_def)

section \<open>Tracing\<close>

text \<open>
  The exporter and the resource come from the library; the package keeps the tracer of the provider.  With an
  empty endpoint nothing is set up and the shutdown function does nothing.
\<close>

datatype trace_error = ExporterFailed string | ResourceFailed string

record tracing =
  tr_tracer :: "string option"
  tr_shutdowns :: nat

datatype trace_shutdown = NoShutdown | ProviderShutdown

definition tracing_Init ::
  "(string \<Rightarrow> string option) \<Rightarrow> string option \<Rightarrow> string \<Rightarrow> string \<Rightarrow> tracing \<Rightarrow>
   (trace_error, trace_shutdown) outcome \<times> tracing" where
  "tracing_Init exporterError resourceError serviceName endpoint tr =
     (if endpoint = [] then (Ok NoShutdown, tr)
      else (case exporterError endpoint of
          Some e \<Rightarrow> (Err (ExporterFailed e), tr)
        | None \<Rightarrow>
            (case resourceError of
               Some e \<Rightarrow> (Err (ResourceFailed e), tr)
             | None \<Rightarrow> (Ok ProviderShutdown, tr\<lparr>tr_tracer := Some serviceName\<rparr>))))"

definition tracing_shutdown :: "trace_shutdown \<Rightarrow> tracing \<Rightarrow> tracing" where
  "tracing_shutdown f tr = (if f = ProviderShutdown then tr\<lparr>tr_shutdowns := tr_shutdowns tr + 1\<rparr> else tr)"

text \<open>Without a tracer a span is the one already in the context.\<close>

definition StartSpan :: "(string \<Rightarrow> 'ctx \<Rightarrow> string \<Rightarrow> 'ctx \<times> 'span) \<Rightarrow> ('ctx \<Rightarrow> 'span) \<Rightarrow> tracing \<Rightarrow> 'ctx \<Rightarrow> string \<Rightarrow> 'ctx \<times> 'span" where
  "StartSpan start spanOf tr ctx nm =
     (case tr_tracer tr of None \<Rightarrow> (ctx, spanOf ctx) | Some t \<Rightarrow> start t ctx nm)"

end
