(* ===== verification/Shutdown.thy ===== *)
theory Shutdown
  imports Prelude
begin

text \<open>
  \<open>internal/shutdown/handler.go\<close>: the signals the process waits for and the functions it runs before it
  exits.  A signal channel has room for one signal and is filled without blocking, so it is the flag that a signal is
  waiting.  A registered function works on the state \<open>'s\<close> of the program; its result is its error, the time it takes,
  and the state it leaves, or a panic.
\<close>

section \<open>State\<close>

type_synonym 's shutdown_func = "'s \<Rightarrow> (unit, string option \<times> int \<times> 's) outcome"

record 's Handler =
  sh_timeout :: int
  sh_handlers :: "'s shutdown_func list"
  sh_sigCh :: bool
  sh_reloadCh :: bool
  sh_notify :: bool
  sh_closed :: bool

definition NewHandler :: "int \<Rightarrow> 's Handler" where
  "NewHandler timeout =
     \<lparr>sh_timeout = timeout, sh_handlers = [], sh_sigCh = False, sh_reloadCh = False, sh_notify = True, sh_closed = False\<rparr>"

definition Register :: "'s shutdown_func \<Rightarrow> 's Handler \<Rightarrow> 's Handler" where
  "Register f h = h\<lparr>sh_handlers := sh_handlers h @ [f]\<rparr>"

text \<open>Delivery by the runtime: a signal that finds its channel full is dropped.\<close>

datatype os_signal = SIGTERM | SIGINT | SIGHUP

definition deliver :: "os_signal \<Rightarrow> 's Handler \<Rightarrow> 's Handler" where
  "deliver sig h =
     (if \<not> sh_notify h then h
      else if sig = SIGHUP then h\<lparr>sh_reloadCh := True\<rparr> else h\<lparr>sh_sigCh := True\<rparr>)"

text \<open>
  A receive from the channels that \<open>Wait\<close> and \<open>WaitReload\<close> give: it succeeds when a signal is waiting, or at once
  and for ever when the channel is closed.
\<close>

definition Wait :: "'s Handler \<Rightarrow> 's Handler option" where
  "Wait h = (if sh_sigCh h then Some (h\<lparr>sh_sigCh := False\<rparr>) else if sh_closed h then Some h else None)"

definition WaitReload :: "'s Handler \<Rightarrow> 's Handler option" where
  "WaitReload h = (if sh_reloadCh h then Some (h\<lparr>sh_reloadCh := False\<rparr>) else if sh_closed h then Some h else None)"

definition Handler_Stop :: "'s Handler \<Rightarrow> (unit, 's Handler) outcome" where
  "Handler_Stop h =
     (if sh_closed h then Panic CloseOfClosedChannel else Ok (h\<lparr>sh_notify := False, sh_closed := True\<rparr>))"

section \<open>Shutdown\<close>

datatype shutdown_error = ShutdownErrors "string list" | ShutdownTimeout

text \<open>The goroutine: all functions in the order of their registration, whatever they return.\<close>

fun run_handlers :: "'s shutdown_func list \<Rightarrow> 's \<Rightarrow> (unit, string list \<times> int \<times> 's) outcome" where
  "run_handlers [] s = Ok ([], 0, s)"
| "run_handlers (f # fs) s =
     and_then (f s) (\<lambda>(e, t, s1).
     and_then (run_handlers fs s1) (\<lambda>(es, t', s2).
       Ok ((case e of None \<Rightarrow> es | Some x \<Rightarrow> x # es), t + t', s2)))"

text \<open>What has been done at a deadline: the functions that have returned by then.\<close>

fun done_by :: "int \<Rightarrow> 's shutdown_func list \<Rightarrow> 's \<Rightarrow> 's" where
  "done_by limit [] s = s"
| "done_by limit (f # fs) s =
     (case f s of
        Ok (e, t, s1) \<Rightarrow> if t \<le> limit then done_by (limit - t) fs s1 else s
      | _ \<Rightarrow> s)"

text \<open>
  The final \<open>select\<close> returns the result of the goroutine or, at the timeout, an error; when both are ready it may
  take either, which is the argument \<open>tie\<close>.
\<close>

definition Shutdown :: "bool \<Rightarrow> 's Handler \<Rightarrow> 's \<Rightarrow> (unit, (shutdown_error, unit) outcome \<times> 's) outcome" where
  "Shutdown tie h s =
     and_then (run_handlers (sh_handlers h) s) (\<lambda>(errs, t, s1).
       if t < sh_timeout h \<or> t = sh_timeout h \<and> tie then
         (if errs \<noteq> [] then Ok (Err (ShutdownErrors errs), s1) else Ok (Ok (), s1))
       else Ok (Err ShutdownTimeout, done_by (sh_timeout h) (sh_handlers h) s))"

section \<open>What a shutdown does\<close>

text \<open>Functions that do not panic, described by their error, their time and their effect.\<close>

definition total_funcs :: "'s shutdown_func list \<Rightarrow> bool" where
  "total_funcs fs \<longleftrightarrow> (\<forall>f \<in> set fs. \<forall>s. is_ok (f s))"

definition effect :: "'s shutdown_func \<Rightarrow> 's \<Rightarrow> 's" where
  "effect f s = (case f s of Ok (e, t, s1) \<Rightarrow> s1 | _ \<Rightarrow> s)"

text \<open>The errors are those of the functions, each in the state it was called in.\<close>

fun func_errors :: "'s shutdown_func list \<Rightarrow> 's \<Rightarrow> string list" where
  "func_errors [] s = []"
| "func_errors (f # fs) s =
     (case f s of Ok (Some e, t, s1) \<Rightarrow> [e] | _ \<Rightarrow> []) @ func_errors fs (effect f s)"

fun total_time :: "'s shutdown_func list \<Rightarrow> 's \<Rightarrow> int" where
  "total_time [] s = 0"
| "total_time (f # fs) s = (case f s of Ok (e, t, s1) \<Rightarrow> t | _ \<Rightarrow> 0) + total_time fs (effect f s)"

lemma run_handlers_result:
  assumes "total_funcs fs"
  shows "run_handlers fs s = Ok (func_errors fs s, total_time fs s, fold effect fs s)"
  using assms
proof (induction fs arbitrary: s)
  case Nil
  then show ?case by simp
next
  case (Cons f fs)
  have "is_ok (f s)" using Cons.prems by (simp add: total_funcs_def)
  then obtain e t s1 where f: "f s = Ok (e, t, s1)" by (auto simp: is_ok_iff)
  moreover have "total_funcs fs" using Cons.prems by (simp add: total_funcs_def)
  from Cons.IH [OF this, of s1] have "run_handlers fs s1 = Ok (func_errors fs s1, total_time fs s1, fold effect fs s1)" .
  moreover have "effect f s = s1" using f by (simp add: effect_def)
  ultimately show ?case by (cases e) simp_all
qed

text \<open>
  A shutdown in time runs every registered function once, in order.  If the functions do not panic and together
  take less than the timeout, then all their effects have happened in the order of registration, also those after a
  failing one, and the result is the list of their errors, or success when there is none; when they take longer,
  the result is the timeout error.
\<close>

theorem Shutdown_runs_all:
  assumes "total_funcs (sh_handlers h)"
  shows "(total_time (sh_handlers h) s < sh_timeout h \<longrightarrow>
            Shutdown tie h s =
              Ok (if func_errors (sh_handlers h) s = [] then Ok () else Err (ShutdownErrors (func_errors (sh_handlers h) s)),
                  fold effect (sh_handlers h) s)) \<and>
         (sh_timeout h < total_time (sh_handlers h) s \<longrightarrow>
            Shutdown tie h s = Ok (Err ShutdownTimeout, done_by (sh_timeout h) (sh_handlers h) s))"
  using run_handlers_result [OF assms, of s] by (auto simp: Shutdown_def)

theorem Shutdown_runs_all_witness:
  "Shutdown False (Register (\<lambda>n. Ok (None, 2, n * 10)) (Register (\<lambda>n. Ok (Some ''down'', 3, n + 1)) (NewHandler 30))) (4 :: nat) =
     Ok (Err (ShutdownErrors [''down'']), 50)"
proof -
  let ?h = "Register (\<lambda>n. Ok (None, 2, n * 10)) (Register (\<lambda>n. Ok (Some ''down'', 3, n + 1)) (NewHandler 30)) :: nat Handler"
  have "total_funcs (sh_handlers ?h)" by (simp add: total_funcs_def Register_def NewHandler_def)
  from Shutdown_runs_all [OF this, of 4 False] show ?thesis
    by (simp add: Register_def NewHandler_def effect_def)
qed

end
