(* ===== verification/Watcher.thy ===== *)
theory Watcher
  imports Validator_Theorems
begin

unbundle bit_operations_syntax

text \<open>
  \<open>internal/config/watcher.go\<close>: the goroutine that reloads the configuration when its file is written.  The
  notifications come from the library \<open>fsnotify\<close>: what its channels deliver are the inputs of the goroutine.  The two
  callbacks work on the state \<open>'s\<close> of the program.
\<close>

section \<open>State\<close>

datatype watch_error =
    WatcherCreation string | WatchAdd string | WatcherFailure string
  | ReloadFailed config_error | ApplyFailed string

datatype watch_phase = NotWatching | Watching | WatchEnded

record 's Watcher =
  wt_configPath :: string
  wt_onChange :: "Config \<Rightarrow> 's \<Rightarrow> (string, 's) outcome"
  wt_onError :: "(watch_error \<Rightarrow> 's \<Rightarrow> 's) option"
  wt_stopCh :: bool
  wt_phase :: watch_phase

definition NewWatcher ::
  "string option \<Rightarrow> string option \<Rightarrow> string \<Rightarrow> (Config \<Rightarrow> 's \<Rightarrow> (string, 's) outcome) \<Rightarrow>
   (watch_error \<Rightarrow> 's \<Rightarrow> 's) option \<Rightarrow> (watch_error, 's Watcher) outcome" where
  "NewWatcher createError addError configPath onChange onError =
     (case createError of
        Some e \<Rightarrow> Err (WatcherCreation e)
      | None \<Rightarrow>
          (case addError of
             Some e \<Rightarrow> Err (WatchAdd e)
           | None \<Rightarrow>
               Ok \<lparr>wt_configPath = configPath, wt_onChange = onChange, wt_onError = onError,
                   wt_stopCh = False, wt_phase = NotWatching\<rparr>))"

definition Watcher_Start :: "'s Watcher \<Rightarrow> 's Watcher" where
  "Watcher_Start wt = wt\<lparr>wt_phase := Watching\<rparr>"

definition Watcher_Stop :: "'s Watcher \<Rightarrow> (unit, 's Watcher) outcome" where
  "Watcher_Stop wt = (if wt_stopCh wt then Panic CloseOfClosedChannel else Ok (wt\<lparr>wt_stopCh := True\<rparr>))"

section \<open>The goroutine\<close>

definition report_error :: "'s Watcher \<Rightarrow> watch_error \<Rightarrow> 's \<Rightarrow> 's" where
  "report_error wt e s = (case wt_onError wt of Some f \<Rightarrow> f e s | None \<Rightarrow> s)"

definition handleChange :: "os_env \<Rightarrow> 's Watcher \<Rightarrow> 's \<Rightarrow> (unit, 's) outcome" where
  "handleChange os wt s =
     (case Load os (wt_configPath wt) of
        Panic p \<Rightarrow> Panic p
      | Err e \<Rightarrow> Ok (report_error wt (ReloadFailed e) s)
      | Ok cfg \<Rightarrow>
          (case wt_onChange wt cfg s of
             Panic p \<Rightarrow> Panic p
           | Err e \<Rightarrow> Ok (report_error wt (ApplyFailed e) s)
           | Ok s1 \<Rightarrow> Ok s1))"

text \<open>The bit of \<open>fsnotify.Op\<close> for a write.\<close>

definition fsnotify_Write :: "32 word" where "fsnotify_Write = 2"

datatype watch_input = FileEvent "32 word" | EventsClosed | LibraryError string | ErrorsClosed | StopSeen

definition watch_step :: "os_env \<Rightarrow> watch_input \<Rightarrow> 's Watcher \<times> 's \<Rightarrow> (unit, 's Watcher \<times> 's) outcome" where
  "watch_step os inp st =
     (case st of (wt, s) \<Rightarrow>
       if wt_phase wt \<noteq> Watching then Ok st
       else (case inp of
           FileEvent op \<Rightarrow>
             (if op AND fsnotify_Write = fsnotify_Write
              then and_then (handleChange os wt s) (\<lambda>s1. Ok (wt, s1)) else Ok st)
         | EventsClosed \<Rightarrow> Ok (wt\<lparr>wt_phase := WatchEnded\<rparr>, s)
         | LibraryError e \<Rightarrow> Ok (wt, report_error wt (WatcherFailure e) s)
         | ErrorsClosed \<Rightarrow> Ok (wt\<lparr>wt_phase := WatchEnded\<rparr>, s)
         | StopSeen \<Rightarrow> (if wt_stopCh wt then Ok (wt\<lparr>wt_phase := WatchEnded\<rparr>, s) else Ok st)))"

text \<open>An event without the write bit (a rename or a new link over the file, for example) changes nothing.\<close>

lemma watch_step_no_write:
  "op AND fsnotify_Write \<noteq> fsnotify_Write \<Longrightarrow> watch_step os (FileEvent op) (wt, s) = Ok (wt, s)"
  by (simp add: watch_step_def)

text \<open>
  The callback gets accepted configurations only: when it runs, its argument is the normalised form of a valid
  configuration of the watched file.
\<close>

lemma handleChange_cases:
  assumes "handleChange os wt s = Ok s'"
  obtains (rejected) e where "Load os (wt_configPath wt) = Err e" and "s' = report_error wt (ReloadFailed e) s"
  | (failed) cfg e where "Load os (wt_configPath wt) = Ok cfg" and "wt_onChange wt cfg s = Err e"
      and "s' = report_error wt (ApplyFailed e) s"
  | (applied) cfg where "Load os (wt_configPath wt) = Ok cfg" and "wt_onChange wt cfg s = Ok s'"
  using assms by (auto simp: handleChange_def split: outcome.splits)

end
