(* ===== verification/Main_Program.thy ===== *)
theory Main_Program
  imports Command_Line Scheduler_Theorems Observability Shutdown Watcher
begin

text \<open>
  The service itself, \<open>run\<close> of \<open>cmd/secrets-sync/main.go\<close>: what is set up at the start, and the loop with the goroutines
  around it as a machine on the state \<open>program\<close>.  The variables that the closures of \<open>run\<close> share (\<open>cfg\<close>,
  \<open>scheduler\<close>, \<open>syncedCount\<close>, \<open>lastLeader\<close>) are fields of the state; the goroutine that consumes the results keeps
  the channel of the first scheduler.  Log output is left out.
\<close>

section \<open>Settings\<close>

definition tls_config :: "EnvConfig \<Rightarrow> SecretStore \<Rightarrow> TLSConfig" where
  "tls_config envCfg st =
     (let t0 = \<lparr>tls_CACert = ss_TLSCACert st, tls_CAPath = ss_TLSCAPath st, tls_ClientCert = ss_TLSClientCert st,
               tls_ClientKey = ss_TLSClientKey st, tls_SkipVerify = ss_TLSSkipVerify st\<rparr>;
          t1 = (if VaultCACert envCfg \<noteq> [] then t0\<lparr>tls_CACert := VaultCACert envCfg\<rparr> else t0);
          t2 = (if VaultCAPath envCfg \<noteq> [] then t1\<lparr>tls_CAPath := VaultCAPath envCfg\<rparr> else t1);
          t3 = (if VaultClientCert envCfg \<noteq> [] then t2\<lparr>tls_ClientCert := VaultClientCert envCfg\<rparr> else t2);
          t4 = (if VaultClientKey envCfg \<noteq> [] then t3\<lparr>tls_ClientKey := VaultClientKey envCfg\<rparr> else t3)
      in (if VaultSkipVerify envCfg then t4\<lparr>tls_SkipVerify := True\<rparr> else t4))"

definition breaker_config :: "EnvConfig \<Rightarrow> BreakerConfig" where
  "breaker_config envCfg =
     \<lparr>bc_MaxRequests = word_of_int (CircuitBreakerMaxReqs envCfg), bc_Interval = CircuitBreakerInterval envCfg,
      bc_Timeout = CircuitBreakerTimeout envCfg\<rparr>"

definition auth_config :: "CredentialSet \<Rightarrow> AuthConfig" where
  "auth_config creds =
     \<lparr>ac_Method = cs_AuthMethod creds, ac_Token = cs_Token creds, ac_RoleID = cs_RoleID creds,
      ac_SecretID = cs_SecretID creds\<rparr>"

definition clientFactory :: "'w vault_api \<Rightarrow> EnvConfig \<Rightarrow> TLSConfig \<Rightarrow> string \<Rightarrow> 'w client_factory" where
  "clientFactory api envCfg tlsConfig address creds w =
     (case NewClientWithTLS api address (Some tlsConfig) w of
        Inl e \<Rightarrow> (Inl e, w)
      | Inr client \<Rightarrow>
          (case WithCircuitBreaker api (breaker_config envCfg) client w of
             (c1, w1) \<Rightarrow>
               (case Authenticate api (auth_config creds) c1 w1 of
                  (Inl e, c2, w2) \<Rightarrow> (Inl e, w2)
                | (Inr _, c2, w2) \<Rightarrow> (Inr c2, w2))))"

definition retry_config :: "EnvConfig \<Rightarrow> RetryConfig" where
  "retry_config envCfg =
     \<lparr>rc_InitialBackoff = InitialBackoff envCfg, rc_MaxBackoff = MaxBackoff envCfg,
      rc_Multiplier = BackoffMultiplier envCfg, rc_MaxRetries = 3\<rparr>"

definition insecure_http :: "string \<Rightarrow> bool" where
  "insecure_http address \<longleftrightarrow>
     has_prefix address ''http://'' \<and> \<not> contains_str address ''localhost'' \<and> \<not> contains_str address ''127.0.0.1''"

definition metrics_enabled :: "EnvConfig \<Rightarrow> bool" where
  "metrics_enabled envCfg \<longleftrightarrow> EnableMetrics envCfg \<and> \<not> (MetricsPort envCfg < 1025 \<or> 65535 < MetricsPort envCfg)"

text \<open>What does not change while the service runs, with the library code it is given.\<close>

record ('w, 't) service =
  su_api :: "'w vault_api"
  su_oor :: "f64 \<Rightarrow> int"
  su_parse :: "string \<Rightarrow> string \<Rightarrow> string + 't"
  su_execute :: "'t \<Rightarrow> SecretData \<Rightarrow> string + string"
  su_env :: EnvConfig
  su_path :: string
  su_newWatcher :: "'w watcher_factory"
  su_listens :: "string \<Rightarrow> bool"
  su_closeError :: "string \<Rightarrow> string option"
  su_glob :: "string \<Rightarrow> world \<Rightarrow> string list option"

section \<open>State\<close>

datatype shutdown_item = StopRenewalItem | StopSchedulerItem | StopServerItem | StopTracingItem

record 'w program =
  pg_cfg :: Config
  pg_tls :: TLSConfig
  pg_scheds :: "scheduler list"
  pg_sync :: "'w sync_state"
  pg_status :: Status
  pg_synced :: int
  pg_metrics :: metric_log
  pg_lastLeader :: string
  pg_renewing :: bool
  pg_server :: "Server option"
  pg_tracing :: tracing
  pg_traceShutdown :: "trace_shutdown option"
  pg_watching :: bool
  pg_swept :: bool
  pg_items :: "shutdown_item list"
  pg_exit :: "(shutdown_error, unit) outcome option"

definition current :: "'w program \<Rightarrow> scheduler" where
  "current pg = last (pg_scheds pg)"

definition set_current :: "scheduler \<Rightarrow> 'w program \<Rightarrow> 'w program" where
  "set_current s pg = pg\<lparr>pg_scheds := butlast (pg_scheds pg) @ [s]\<rparr>"

text \<open>
  The syncer is created once; its client factory reads the address from the current \<open>cfg\<close>, but keeps the TLS settings
  of the start.
\<close>

definition program_env :: "('w, 't) service \<Rightarrow> TLSConfig \<Rightarrow> Config \<Rightarrow> ('w, 't) sync_env" where
  "program_env su tlsConfig cfg =
     \<lparr>sv_api = su_api su, sv_oor = su_oor su,
      sv_factory = clientFactory (su_api su) (su_env su) tlsConfig (ss_Address (cfg_SecretStore cfg)),
      sv_retry = retry_config (su_env su), sv_parse = su_parse su, sv_execute = su_execute su\<rparr>"

section \<open>The start\<close>

datatype start_error =
    LoggerFailed string | ConfigFailed config_error | ClientFailed vault_error | SchedulerFailed

text \<open>The loop that hands all secrets of a configuration to a scheduler; it occurs three times in \<open>run\<close>.\<close>

definition add_secrets :: "Config \<Rightarrow> scheduler \<Rightarrow> (unit, scheduler) outcome" where
  "add_secrets cfg s = each (AddSecret cfg) (cfg_Secrets cfg) s"

text \<open>The leader that the first query of the cluster reports.\<close>

definition first_leader :: "'w vault_api \<Rightarrow> Client \<Rightarrow> 'w \<Rightarrow> string \<times> 'w" where
  "first_leader api client w =
     (case GetClusterInfo api client w of
        (Inl e, w1) \<Rightarrow> ([], w1)
      | (Inr info, w1) \<Rightarrow> (ci_LeaderAddress info, w1))"

definition shutdown_items :: "bool \<Rightarrow> bool \<Rightarrow> bool \<Rightarrow> shutdown_item list" where
  "shutdown_items renewing server tracing =
     (if renewing then [StopRenewalItem] else []) @ [StopSchedulerItem] @
     (if server then [StopServerItem] else []) @ (if tracing then [StopTracingItem] else [])"

text \<open>
  \<open>run\<close> up to its last statement before the sweep: \<open>logError\<close>, \<open>exporterError\<close>, \<open>resourceError\<close> and \<open>watchError\<close> are
  the results of the libraries for logging, tracing and file notification.
\<close>

definition start_run ::
  "('w, 't) service \<Rightarrow> string option \<Rightarrow> (string \<Rightarrow> string option) \<Rightarrow> string option \<Rightarrow> string option \<Rightarrow> os_env \<Rightarrow>
   world \<Rightarrow> 'w \<Rightarrow> (start_error, 'w program) outcome" where
  "start_run su logError exporterError resourceError watchError os disk w =
     (let envCfg = su_env su in
      and_then (wrap_err LoggerFailed (fst (logger_Init logError (LogLevel envCfg) None))) (\<lambda>_.
      and_then (wrap_err ConfigFailed (Load os (su_path su))) (\<lambda>cfg.
        (case (if EnableTracing envCfg
               then tracing_Init exporterError resourceError ''secrets-sync'' (OTELExporterEndpoint envCfg)
                      \<lparr>tr_tracer = None, tr_shutdowns = 0\<rparr>
               else (Err (ResourceFailed []), \<lparr>tr_tracer = None, tr_shutdowns = 0\<rparr>)) of
           (traced, tr) \<Rightarrow>
             (case clientFactory (su_api su) envCfg (tls_config envCfg (cfg_SecretStore cfg)) (ss_Address (cfg_SecretStore cfg))
                     (GetDefaultCredentials (cfg_SecretStore cfg)) w of
                (Inl e, w1) \<Rightarrow> Err (ClientFailed e)
              | (Inr defaultClient, w1) \<Rightarrow>
                  (case first_leader (su_api su) defaultClient w1 of
                     (leader, w2) \<Rightarrow>
                       (case StartRenewal (su_newWatcher su) defaultClient w2 of
                          Panic p \<Rightarrow> Panic p
                        | renewal \<Rightarrow>
                            (let renewing = is_ok renewal;
                                 w3 = (case renewal of Ok r \<Rightarrow> rn_world r | _ \<Rightarrow> w2);
                                 server = (if metrics_enabled envCfg
                                   then Some (Server_Start (su_listens su) (NewServer (MetricsAddr envCfg) (MetricsPort envCfg)))
                                   else None)
                             in and_then (wrap_err (\<lambda>_. SchedulerFailed) (add_secrets cfg NewScheduler)) (\<lambda>s.
                                  Ok \<lparr>pg_cfg = cfg, pg_tls = tls_config envCfg (cfg_SecretStore cfg), pg_scheds = [s],
                                      pg_sync = \<lparr>sy_pool = [], sy_vault = w3, sy_disk = disk\<rparr>,
                                      pg_status = NewStatus (StatusFile envCfg), pg_synced = 0,
                                      pg_metrics = SetSecretsConfigured (int (length (cfg_Secrets cfg))) [],
                                      pg_lastLeader = leader, pg_renewing = renewing, pg_server = server, pg_tracing = tr,
                                      pg_traceShutdown = (case traced of Ok f \<Rightarrow> Some f | _ \<Rightarrow> None),
                                      pg_watching = (WatchConfig envCfg \<and> watchError = None), pg_swept = False,
                                      pg_items = shutdown_items renewing (server \<noteq> None) (is_ok traced),
                                      pg_exit = None\<rparr>)))))))))"

section \<open>The goroutines and the loop\<close>

text \<open>The goroutine that consumes the results of the first scheduler.\<close>

definition consume_result :: "SyncResult \<Rightarrow> 'w program \<Rightarrow> 'w program" where
  "consume_result r pg =
     (let pg1 =
        (if sr_Success r then
           pg\<lparr>pg_synced := pg_synced pg + 1,
              pg_metrics := SetSecretsSynced (pg_synced pg + 1) (RecordFetchSuccess (sr_SecretName r) [] (pg_metrics pg))\<rparr>
         else pg\<lparr>pg_metrics := RecordFetchError (sr_SecretName r) [] ''sync_error'' (pg_metrics pg)\<rparr>)
      in (case SetReady (int (length (cfg_Secrets (pg_cfg pg1)))) (pg_synced pg1) (pg_status pg1) (sy_disk (pg_sync pg1)) of
            (_, s, d) \<Rightarrow> pg1\<lparr>pg_status := s, pg_sync := (pg_sync pg1)\<lparr>sy_disk := d\<rparr>\<rparr>))"

definition take_result :: "'w program \<Rightarrow> 'w program" where
  "take_result pg =
     (case pg_scheds pg of
        [] \<Rightarrow> pg
      | s # ss \<Rightarrow>
          (case sd_results s of
             [] \<Rightarrow> pg
           | r # rs \<Rightarrow> consume_result r (pg\<lparr>pg_scheds := s\<lparr>sd_results := rs\<rparr> # ss\<rparr>)))"

text \<open>The callback of the configuration watcher.\<close>

definition on_config_change :: "Config \<Rightarrow> 'w program \<Rightarrow> (string, 'w program) outcome" where
  "on_config_change newCfg pg =
     and_then (wrap_err (\<lambda>_. []) (add_secrets newCfg (current pg))) (\<lambda>s.
       Ok ((set_current s pg)\<lparr>pg_metrics := SetSecretsConfigured (int (length (cfg_Secrets newCfg))) (pg_metrics pg)\<rparr>))"

definition program_watcher :: "('w, 't) service \<Rightarrow> 'w program Watcher" where
  "program_watcher su =
     \<lparr>wt_configPath = ConfigFile (su_env su), wt_onChange = on_config_change, wt_onError = Some (\<lambda>_ pg. pg),
      wt_stopCh = False, wt_phase = Watching\<rparr>"

text \<open>The branch of the loop for \<open>SIGHUP\<close>.\<close>

definition reload :: "('w, 't) service \<Rightarrow> os_env \<Rightarrow> 'w program \<Rightarrow> (unit, 'w program) outcome" where
  "reload su os pg =
     (case Load os (su_path su) of
        Panic p \<Rightarrow> Panic p
      | Err e \<Rightarrow> Ok pg
      | Ok newCfg0 \<Rightarrow>
          (case Validate os newCfg0 of
             Panic p \<Rightarrow> Panic p
           | Err e \<Rightarrow> Ok pg
           | Ok newCfg \<Rightarrow>
               and_then (Stop (current pg)) (\<lambda>s.
               and_then (add_secrets newCfg NewScheduler) (\<lambda>s'.
                 Ok ((set_current s pg)\<lparr>pg_cfg := newCfg, pg_scheds := butlast (pg_scheds pg) @ [s, s'],
                       pg_metrics := SetSecretsConfigured (int (length (cfg_Secrets newCfg))) (pg_metrics pg)\<rparr>)))))"

text \<open>The functions registered for the shutdown; \<open>dur\<close> is the time each takes.\<close>

fun item_func ::
  "('w, 't) service \<Rightarrow> (shutdown_item \<Rightarrow> int) \<Rightarrow> shutdown_item \<Rightarrow> 'w program \<Rightarrow>
   (unit, string option \<times> int \<times> 'w program) outcome" where
  "item_func su dur StopRenewalItem pg = Ok (None, dur StopRenewalItem, pg\<lparr>pg_renewing := False\<rparr>)"
| "item_func su dur StopSchedulerItem pg =
     and_then (Stop (current pg)) (\<lambda>s. Ok (None, dur StopSchedulerItem, set_current s pg))"
| "item_func su dur StopServerItem pg =
     (case pg_server pg of
        None \<Rightarrow> Ok (None, dur StopServerItem, pg)
      | Some srv \<Rightarrow>
          (case Server_Stop (su_closeError su) srv of
             (e, srv') \<Rightarrow> Ok (e, dur StopServerItem, pg\<lparr>pg_server := Some srv'\<rparr>)))"
| "item_func su dur StopTracingItem pg =
     Ok (None, dur StopTracingItem,
         (case pg_traceShutdown pg of
            None \<Rightarrow> pg
          | Some f \<Rightarrow> pg\<lparr>pg_tracing := tracing_shutdown f (pg_tracing pg)\<rparr>))"

definition shutdown_handler :: "('w, 't) service \<Rightarrow> (shutdown_item \<Rightarrow> int) \<Rightarrow> 'w program \<Rightarrow> 'w program Handler" where
  "shutdown_handler su dur pg = fold (\<lambda>i. Register (item_func su dur i)) (pg_items pg) (NewHandler (30 * Second))"

definition terminate ::
  "('w, 't) service \<Rightarrow> (shutdown_item \<Rightarrow> int) \<Rightarrow> bool \<Rightarrow> 'w program \<Rightarrow> (unit, 'w program) outcome" where
  "terminate su dur tie pg =
     and_then (Shutdown tie (shutdown_handler su dur pg) pg) (\<lambda>(r, pg'). Ok (pg'\<lparr>pg_exit := Some r\<rparr>))"

text \<open>The sweep for orphaned temporary files, which the main goroutine makes before it enters the loop.\<close>

definition sweep :: "('w, 't) service \<Rightarrow> 'w program \<Rightarrow> 'w program" where
  "sweep su pg =
     (let paths = concat (map (\<lambda>s. map file_Path (sec_Files s)) (cfg_Secrets (pg_cfg pg)));
          d = snd (CleanupOrphanedTempFiles (su_glob su) (GetOutputDirectories paths) (sy_disk (pg_sync pg)))
      in pg\<lparr>pg_swept := True, pg_sync := (pg_sync pg)\<lparr>sy_disk := d\<rparr>\<rparr>)"

text \<open>The callback of the circuit breaker of a client.\<close>

definition breaker_changed :: "'w vault_api \<Rightarrow> Client \<Rightarrow> string \<Rightarrow> 'w program \<Rightarrow> 'w program" where
  "breaker_changed api client to pg =
     (let pg1 = pg\<lparr>pg_metrics := SetCircuitBreakerState ''vault-client'' to (pg_metrics pg)\<rparr> in
      if to = ''closed'' then
        (case GetClusterInfo api client (sy_vault (pg_sync pg1)) of
           (Inl e, w) \<Rightarrow> pg1\<lparr>pg_sync := (pg_sync pg1)\<lparr>sy_vault := w\<rparr>\<rparr>
         | (Inr info, w) \<Rightarrow>
             pg1\<lparr>pg_sync := (pg_sync pg1)\<lparr>sy_vault := w\<rparr>,
                 pg_lastLeader := (if ci_LeaderAddress info \<noteq> [] then ci_LeaderAddress info else pg_lastLeader pg1)\<rparr>)
      else pg1)"

section \<open>Interleavings\<close>

text \<open>
  One step of one goroutine.  A job is named by its scheduler and its pointer.  The loop of the main goroutine is
  entered after the sweep and left by a shutdown; when it has been left the process ends.
\<close>

datatype program_event =
    JobStep nat nat select_case int
  | ClockTick nat nat
  | TakeResult
  | FileWritten os_env
  | Sweep
  | Hangup os_env
  | Terminate "shutdown_item \<Rightarrow> int" bool
  | BreakerState Client string

fun program_step :: "('w, 't) service \<Rightarrow> program_event \<Rightarrow> 'w program \<Rightarrow> (unit, 'w program) outcome" where
  "program_step su (JobStep k i c now) pg =
     (if pg_exit pg \<noteq> None \<or> length (pg_scheds pg) \<le> k then Ok pg
      else and_then (runJob (program_env su (pg_tls pg) (pg_cfg pg)) now c i (pg_scheds pg ! k, pg_sync pg)) (\<lambda>(s, sy).
             Ok (pg\<lparr>pg_scheds := (pg_scheds pg)[k := s], pg_sync := sy\<rparr>)))"
| "program_step su (ClockTick k i) pg =
     (if pg_exit pg \<noteq> None \<or> length (pg_scheds pg) \<le> k then Ok pg
      else Ok (pg\<lparr>pg_scheds := (pg_scheds pg)[k := ticker_fires i (pg_scheds pg ! k)]\<rparr>))"
| "program_step su TakeResult pg = (if pg_exit pg \<noteq> None then Ok pg else Ok (take_result pg))"
| "program_step su (FileWritten os) pg =
     (if pg_exit pg \<noteq> None \<or> \<not> pg_watching pg then Ok pg
      else and_then (watch_step os (FileEvent fsnotify_Write) (program_watcher su, pg)) (\<lambda>(wt, pg'). Ok pg'))"
| "program_step su Sweep pg = (if pg_exit pg \<noteq> None \<or> pg_swept pg then Ok pg else Ok (sweep su pg))"
| "program_step su (Hangup os) pg = (if pg_exit pg \<noteq> None \<or> \<not> pg_swept pg then Ok pg else reload su os pg)"
| "program_step su (Terminate dur tie) pg = (if pg_exit pg \<noteq> None \<or> \<not> pg_swept pg then Ok pg else terminate su dur tie pg)"
| "program_step su (BreakerState c to) pg = (if pg_exit pg \<noteq> None then Ok pg else Ok (breaker_changed (su_api su) c to pg))"

definition program_run :: "('w, 't) service \<Rightarrow> program_event list \<Rightarrow> 'w program \<Rightarrow> (unit, 'w program) outcome" where
  "program_run su evs pg = each (program_step su) evs pg"

end
