(* ===== verification/Main_Theorems.thy ===== *)
theory Main_Theorems
  imports Main_Program
begin

text \<open>
  What the service guarantees as a whole: it panics in one place only, per secret name it has at most one goroutine
  that was not told to stop, a reload by signal replaces the configuration completely or not at all, and a shutdown
  closes everything.  And what it does not: it waits for no synchronisation that is under way, a reload by the file
  watcher keeps removed secrets, and a reload by signal freezes the reported status.
\<close>

section \<open>Validated configurations can be scheduled\<close>

lemma accepted_intervals:
  assumes "Validate os cfg0 = Ok cfg"
  shows "\<forall>x \<in> set (cfg_Secrets cfg). 0 < sec_RefreshInterval x"
  using assms by (auto simp: Validate_Ok config_ok_def norm_config_def norm_secret_def secret_ok_def Second_def)

lemma Load_intervals: "Load os p = Ok cfg \<Longrightarrow> \<forall>x \<in> set (cfg_Secrets cfg). 0 < sec_RefreshInterval x"
  using accepted_intervals by (auto simp: Load_def split: option.splits)

lemma Load_Panic: "Load os p = Panic q \<Longrightarrow> q = NilDereference"
  by (auto simp: Load_def split: option.splits dest!: Validate_Panic)

lemma add_secrets_ok:
  assumes "sched_inv s" and "\<forall>x \<in> set (cfg_Secrets cfg). 0 < sec_RefreshInterval x"
  shows "\<exists>s'. add_secrets cfg s = Ok s' \<and> sched_inv s' \<and> active s' = active s ++ by_name cfg (cfg_Secrets cfg) \<and>
           sd_stopCh s' = sd_stopCh s"
  unfolding add_secrets_def by (rule registry.add_all [OF assms])

lemma add_secrets_new:
  assumes "\<forall>x \<in> set (cfg_Secrets cfg). 0 < sec_RefreshInterval x"
  shows "\<exists>s'. add_secrets cfg NewScheduler = Ok s' \<and> sched_inv s' \<and> active s' = by_name cfg (cfg_Secrets cfg) \<and> \<not> sd_stopCh s'"
  using add_secrets_ok [OF NewScheduler_inv assms] by auto

section \<open>The invariant\<close>

text \<open>Every scheduler but the current one has been stopped, and a stopped one has no active secret.\<close>

definition sched_ok :: "scheduler \<Rightarrow> bool" where
  "sched_ok s \<longleftrightarrow> sched_inv s \<and> (sd_stopCh s \<longrightarrow> active s = Map.empty)"

definition scheds_inv :: "'w program \<Rightarrow> bool" where
  "scheds_inv pg \<longleftrightarrow> pg_scheds pg \<noteq> [] \<and> (\<forall>s \<in> set (pg_scheds pg). sched_ok s) \<and>
     (\<forall>s \<in> set (butlast (pg_scheds pg)). sd_stopCh s \<and> active s = Map.empty)"

definition program_inv :: "'w program \<Rightarrow> bool" where
  "program_inv pg \<longleftrightarrow> scheds_inv pg \<and> distinct (pg_items pg) \<and> StopSchedulerItem \<in> set (pg_items pg) \<and>
     (pg_exit pg = None \<longrightarrow> \<not> sd_stopCh (current pg))"

lemma set_current_simps [simp]:
  "current (set_current s pg) = s" "pg_items (set_current s pg) = pg_items pg" "pg_exit (set_current s pg) = pg_exit pg"
  "pg_cfg (set_current s pg) = pg_cfg pg" "pg_synced (set_current s pg) = pg_synced pg" "pg_status (set_current s pg) = pg_status pg"
  by (simp_all add: set_current_def current_def)

lemma current_ok: "scheds_inv pg \<Longrightarrow> sched_ok (current pg)"
  by (auto simp: scheds_inv_def current_def)

lemma current_in: "scheds_inv pg \<Longrightarrow> sched_inv (current pg)"
  using current_ok [of pg] by (simp add: sched_ok_def)

lemma scheds_inv_set_current: "scheds_inv pg \<Longrightarrow> sched_ok s \<Longrightarrow> scheds_inv (set_current s pg)"
  by (auto simp: scheds_inv_def set_current_def dest: in_set_butlastD)

text \<open>A step that keeps what a scheduler's table and closed channels say keeps the invariant.\<close>

definition same_table :: "scheduler \<Rightarrow> scheduler \<Rightarrow> bool" where
  "same_table s s' \<longleftrightarrow> sched_inv s' \<and> active s' = active s \<and> sd_stopCh s' = sd_stopCh s"

lemma scheds_inv_update:
  assumes "program_inv pg" and "k < length (pg_scheds pg)" and "same_table (pg_scheds pg ! k) s"
    and "pg_scheds pg' = (pg_scheds pg)[k := s]" and "pg_items pg' = pg_items pg" and "pg_exit pg' = pg_exit pg"
  shows "program_inv pg'"
proof -
  have ne: "pg_scheds pg \<noteq> []" using assms(1) by (simp add: program_inv_def scheds_inv_def)
  have "sched_ok (pg_scheds pg ! k)" using assms(1,2) by (simp add: program_inv_def scheds_inv_def)
  then have "sched_ok s" using assms(3) by (simp add: same_table_def sched_ok_def)
  then have "sched_ok x" if "x \<in> set (pg_scheds pg')" for x
    using that assms set_update_subset_insert [of "pg_scheds pg" k s]
    by (auto simp: program_inv_def scheds_inv_def)
  moreover have "sd_stopCh x \<and> active x = Map.empty" if x: "x \<in> set (butlast (pg_scheds pg'))" for x
  proof -
    have b: "butlast (pg_scheds pg') = (butlast (pg_scheds pg))[k := s]"
      using assms(2,4) ne by (auto simp: butlast_list_update list_update_beyond)
    show ?thesis
    proof (cases "k < length (butlast (pg_scheds pg))")
      case True
      then have "pg_scheds pg ! k \<in> set (butlast (pg_scheds pg))" by (metis nth_butlast nth_mem)
      with assms(1,3) have "sd_stopCh s \<and> active s = Map.empty"
        by (auto simp: program_inv_def scheds_inv_def same_table_def)
      with x b assms(1) set_update_subset_insert [of "butlast (pg_scheds pg)" k s] show ?thesis
        by (auto simp: program_inv_def scheds_inv_def)
    next
      case False
      with b have "butlast (pg_scheds pg') = butlast (pg_scheds pg)" by (simp add: list_update_beyond)
      with x assms(1) show ?thesis by (simp add: program_inv_def scheds_inv_def)
    qed
  qed
  moreover have "sd_stopCh (current pg') = sd_stopCh (current pg)"
    using assms(2,3,4) ne by (auto simp: current_def same_table_def last_conv_nth nth_list_update)
  ultimately show ?thesis
    using assms(1,4,5,6) ne by (auto simp: program_inv_def scheds_inv_def)
qed


lemma runJob_same_table: "sched_inv s \<Longrightarrow> runJob env now c i (s, sy) = Ok (s', sy') \<Longrightarrow> same_table s s'"
  using sched_step_spec [of s env "JobRuns i c now" sy s' sy'] by (simp add: same_table_def)

lemma ticker_same_table: "sched_inv s \<Longrightarrow> same_table s (ticker_fires i s)"
  using ticker_fires_facts [of s i] same_jobs_inv [of s "ticker_fires i s"] same_jobs_active [of s "ticker_fires i s"]
  by (auto simp: same_table_def sched_inv_def same_jobs_def)

lemma results_same_table: "sched_inv s \<Longrightarrow> sd_results s = r # rs \<Longrightarrow> same_table s (s\<lparr>sd_results := rs\<rparr>)"
  by (auto simp: same_table_def sched_inv_def parts_ok_def active_def [abs_def])

lemma scheds_nth: "program_inv pg \<Longrightarrow> k < length (pg_scheds pg) \<Longrightarrow> sched_inv (pg_scheds pg ! k)"
  by (simp add: program_inv_def scheds_inv_def sched_ok_def)

lemma consume_result_simps [simp]:
  "pg_scheds (consume_result r pg) = pg_scheds pg" "pg_items (consume_result r pg) = pg_items pg"
  "pg_exit (consume_result r pg) = pg_exit pg" "pg_cfg (consume_result r pg) = pg_cfg pg"
  by (simp_all add: consume_result_def Let_def split: prod.split)

lemma take_result_inv: "program_inv pg \<Longrightarrow> program_inv (take_result pg)"
proof (cases "pg_scheds pg")
  case (Cons s ss)
  assume inv: "program_inv pg"
  show ?thesis
  proof (cases "sd_results s")
    case (Cons r rs)
    have "sched_inv s" using scheds_nth [OF inv, of 0] \<open>pg_scheds pg = s # ss\<close> by simp
    from results_same_table [OF this Cons] \<open>pg_scheds pg = s # ss\<close> Cons show ?thesis
      by (intro scheds_inv_update [OF inv, of 0 "s\<lparr>sd_results := rs\<rparr>"]) (simp_all add: take_result_def)
  qed (use inv Cons in \<open>simp add: take_result_def\<close>)
qed (simp add: take_result_def)

section \<open>Reloading\<close>

lemma on_config_change_ok:
  assumes "program_inv pg" and "pg_exit pg = None" and "\<forall>x \<in> set (cfg_Secrets cfg). 0 < sec_RefreshInterval x"
  shows "\<exists>pg'. on_config_change cfg pg = Ok pg' \<and> program_inv pg' \<and>
           active (current pg') = active (current pg) ++ by_name cfg (cfg_Secrets cfg) \<and> pg_cfg pg' = pg_cfg pg"
proof -
  have s: "scheds_inv pg" using assms(1) by (simp add: program_inv_def)
  from add_secrets_ok [OF current_in [OF s] assms(3)] obtain s' where
    s': "add_secrets cfg (current pg) = Ok s'" "sched_inv s'" "active s' = active (current pg) ++ by_name cfg (cfg_Secrets cfg)"
      "sd_stopCh s' = sd_stopCh (current pg)" by blast
  let ?pg = "(set_current s' pg)\<lparr>pg_metrics := SetSecretsConfigured (int (length (cfg_Secrets cfg))) (pg_metrics pg)\<rparr>"
  have "\<not> sd_stopCh (current pg)" using assms(1,2) by (simp add: program_inv_def)
  with s'(2,4) have "sched_ok s'" by (simp add: sched_ok_def)
  then have "scheds_inv (set_current s' pg)" by (rule scheds_inv_set_current [OF s])
  then have "program_inv ?pg"
    using assms(1,2) s'(4) by (simp add: program_inv_def scheds_inv_def current_def set_current_def)
  moreover have "current ?pg = s'" by (simp add: current_def set_current_def)
  ultimately show ?thesis using s' by (intro exI [of _ ?pg]) (simp add: on_config_change_def)
qed

text \<open>A reload by signal changes nothing, or replaces the configuration and everything that is scheduled.\<close>

lemma reload_cases:
  assumes "program_inv pg" and "pg_exit pg = None"
  obtains (panic) "reload su os pg = Panic NilDereference" and "\<exists>cfg. Validate os cfg = Panic NilDereference"
  | (same) "reload su os pg = Ok pg"
  | (new) cfg0 cfg s s' pg' where "Load os (su_path su) = Ok cfg0" and "Validate os cfg0 = Ok cfg"
      and "reload su os pg = Ok pg'" and "program_inv pg'" and "pg_cfg pg' = cfg"
      and "active (current pg') = by_name cfg (cfg_Secrets cfg)" and "pg_status pg' = pg_status pg" and "pg_synced pg' = pg_synced pg"
      and "pg_scheds pg' = butlast (pg_scheds pg) @ [s, s']" and "Stop (current pg) = Ok s"
proof (cases "Load os (su_path su)")
  case (Err e)
  then have "reload su os pg = Ok pg" by (simp add: reload_def)
  then show thesis by (rule same)
next
  case (Panic q)
  then have "reload su os pg = Panic NilDereference" using Load_Panic [OF Panic] by (simp add: reload_def)
  moreover from Panic have "\<exists>cfg. Validate os cfg = Panic NilDereference"
    using Load_Panic [OF Panic] by (auto simp: Load_def split: option.splits)
  ultimately show thesis by (rule panic)
next
  case load: (Ok cfg0)
  show thesis
  proof (cases "Validate os cfg0")
    case (Err e)
    with load have "reload su os pg = Ok pg" by (simp add: reload_def)
    then show thesis by (rule same)
  next
    case (Panic q)
    with load have "reload su os pg = Panic NilDereference" using Validate_Panic [OF Panic] by (simp add: reload_def)
    moreover have "\<exists>cfg. Validate os cfg = Panic NilDereference" using Panic Validate_Panic [OF Panic] by auto
    ultimately show thesis by (rule panic)
  next
    case (Ok cfg)
    have s: "scheds_inv pg" "\<not> sd_stopCh (current pg)" using assms by (simp_all add: program_inv_def)
    from Stop_ok [OF current_in [OF s(1)] s(2)] obtain s1 where
      s1: "Stop (current pg) = Ok s1" "sched_inv s1" "active s1 = Map.empty" "sd_stopCh s1" by blast
    from add_secrets_new [OF accepted_intervals [OF Ok]] obtain s2 where
      s2: "add_secrets cfg NewScheduler = Ok s2" "sched_inv s2" "active s2 = by_name cfg (cfg_Secrets cfg)" "\<not> sd_stopCh s2"
      by blast
    let ?pg = "(set_current s1 pg)\<lparr>pg_cfg := cfg, pg_scheds := butlast (pg_scheds pg) @ [s1, s2],
                 pg_metrics := SetSecretsConfigured (int (length (cfg_Secrets cfg))) (pg_metrics pg)\<rparr>"
    have cur: "current ?pg = s2" by (simp add: current_def)
    have inv: "program_inv ?pg"
      using assms(1) s1 s2 by (auto simp: program_inv_def scheds_inv_def sched_ok_def cur butlast_append dest: in_set_butlastD)
    have "reload su os pg = Ok ?pg" using load Ok s1(1) s2(1) by (simp add: reload_def)
    from new [OF load Ok this inv _ _ _ _ _ s1(1)] s2(3) show thesis by (simp add: cur)
  qed
qed

section \<open>The shutdown functions\<close>

lemma fold_Register:
  "sh_handlers (fold (\<lambda>i. Register (f i)) is h) = sh_handlers h @ map f is"
  "sh_timeout (fold (\<lambda>i. Register (f i)) is h) = sh_timeout h"
  by (induction "is" arbitrary: h) (simp_all add: Register_def)

lemma shutdown_handler_simps [simp]:
  "sh_handlers (shutdown_handler su dur pg) = map (item_func su dur) (pg_items pg)"
  "sh_timeout (shutdown_handler su dur pg) = 30 * Second"
  by (simp_all add: shutdown_handler_def fold_Register NewHandler_def)

lemma item_step:
  assumes "scheds_inv pg" and "i = StopSchedulerItem \<Longrightarrow> \<not> sd_stopCh (current pg)"
  shows "\<exists>e pg1. item_func su dur i pg = Ok (e, dur i, pg1) \<and> scheds_inv pg1 \<and> pg_items pg1 = pg_items pg \<and>
           (if i = StopSchedulerItem then sd_stopCh (current pg1) \<and> active (current pg1) = Map.empty
            else pg_scheds pg1 = pg_scheds pg) \<and>
           (if i = StopServerItem then (\<forall>srv. pg_server pg1 = Some srv \<longrightarrow> srv_started srv \<longrightarrow> \<not> srv_open srv)
            else pg_server pg1 = pg_server pg)"
proof (cases i)
  case StopSchedulerItem
  with assms Stop_ok [OF current_in [OF assms(1)]] obtain s where
    "Stop (current pg) = Ok s" "sched_inv s" "active s = Map.empty" "sd_stopCh s" by blast
  with StopSchedulerItem scheds_inv_set_current [OF assms(1)] show ?thesis by (auto simp: set_current_def current_def sched_ok_def)
qed (use assms(1) in \<open>auto simp: scheds_inv_def Server_Stop_def split: option.splits\<close>)


lemma run_items:
  assumes "scheds_inv pg" and "distinct items" and "StopSchedulerItem \<in> set items \<Longrightarrow> \<not> sd_stopCh (current pg)"
  shows "\<exists>errs pg1. run_handlers (map (item_func su dur) items) pg = Ok (errs, sum_list (map dur items), pg1) \<and>
           scheds_inv pg1 \<and> pg_items pg1 = pg_items pg \<and>
           (if StopSchedulerItem \<in> set items then sd_stopCh (current pg1) \<and> active (current pg1) = Map.empty
            else pg_scheds pg1 = pg_scheds pg) \<and>
           (if StopServerItem \<in> set items then (\<forall>srv. pg_server pg1 = Some srv \<longrightarrow> srv_started srv \<longrightarrow> \<not> srv_open srv)
            else pg_server pg1 = pg_server pg)"
  using assms
proof (induction items arbitrary: pg)
  case Nil
  then show ?case by simp
next
  case (Cons i items)
  from item_step [OF Cons.prems(1), of i su dur] Cons.prems(3) obtain e pg1 where
    i: "item_func su dur i pg = Ok (e, dur i, pg1)" "scheds_inv pg1" "pg_items pg1 = pg_items pg"
      "if i = StopSchedulerItem then sd_stopCh (current pg1) \<and> active (current pg1) = Map.empty else pg_scheds pg1 = pg_scheds pg"
      "if i = StopServerItem then (\<forall>srv. pg_server pg1 = Some srv \<longrightarrow> srv_started srv \<longrightarrow> \<not> srv_open srv) else pg_server pg1 = pg_server pg"
    by auto
  have "StopSchedulerItem \<in> set items \<Longrightarrow> \<not> sd_stopCh (current pg1)"
    using i(4) Cons.prems(2,3) by (auto simp: current_def split: if_splits)
  from Cons.IH [OF i(2) _ this] Cons.prems(2) obtain errs pg2 where
    r: "run_handlers (map (item_func su dur) items) pg1 = Ok (errs, sum_list (map dur items), pg2)" "scheds_inv pg2"
      "pg_items pg2 = pg_items pg1"
      "if StopSchedulerItem \<in> set items then sd_stopCh (current pg2) \<and> active (current pg2) = Map.empty else pg_scheds pg2 = pg_scheds pg1"
      "if StopServerItem \<in> set items then (\<forall>srv. pg_server pg2 = Some srv \<longrightarrow> srv_started srv \<longrightarrow> \<not> srv_open srv) else pg_server pg2 = pg_server pg1"
    by auto
  have c: "pg_scheds pg2 = pg_scheds pg1 \<Longrightarrow> current pg2 = current pg1" by (simp add: current_def)
  show ?case
    using i r Cons.prems(2) c
    by (intro exI [of _ "case e of None \<Rightarrow> errs | Some x \<Rightarrow> x # errs"] exI [of _ pg2])
       (cases "i = StopSchedulerItem"; cases "i = StopServerItem"; simp split: if_splits)
qed

lemma done_by_items:
  assumes "scheds_inv pg" and "distinct items" and "StopSchedulerItem \<in> set items \<Longrightarrow> \<not> sd_stopCh (current pg)"
  shows "scheds_inv (done_by limit (map (item_func su dur) items) pg) \<and>
         pg_items (done_by limit (map (item_func su dur) items) pg) = pg_items pg"
  using assms
proof (induction items arbitrary: pg limit)
  case Nil
  then show ?case by simp
next
  case (Cons i items)
  from item_step [OF Cons.prems(1), of i su dur] Cons.prems(3) obtain e pg1 where
    i: "item_func su dur i pg = Ok (e, dur i, pg1)" "scheds_inv pg1" "pg_items pg1 = pg_items pg"
      "if i = StopSchedulerItem then sd_stopCh (current pg1) \<and> active (current pg1) = Map.empty else pg_scheds pg1 = pg_scheds pg"
    by auto
  have "StopSchedulerItem \<in> set items \<Longrightarrow> \<not> sd_stopCh (current pg1)"
    using i(4) Cons.prems(2,3) by (auto simp: current_def split: if_splits)
  from Cons.IH [OF i(2) _ this] Cons.prems(1,2) i show ?case by simp
qed

lemma terminate_ok:
  assumes "program_inv pg" and "pg_exit pg = None"
  shows "\<exists>pg'. terminate su dur tie pg = Ok pg' \<and> program_inv pg' \<and> pg_exit pg' \<noteq> None \<and>
           (sum_list (map dur (pg_items pg)) < 30 * Second \<longrightarrow>
              pg_exit pg' \<noteq> Some (Err ShutdownTimeout) \<and> sd_stopCh (current pg') \<and> active (current pg') = Map.empty \<and>
              (StopServerItem \<in> set (pg_items pg) \<longrightarrow> (\<forall>srv. pg_server pg' = Some srv \<longrightarrow> srv_started srv \<longrightarrow> \<not> srv_open srv)))"
proof -
  have p: "scheds_inv pg" "distinct (pg_items pg)" "\<not> sd_stopCh (current pg)" "StopSchedulerItem \<in> set (pg_items pg)"
    using assms by (simp_all add: program_inv_def)
  from run_items [OF p(1,2), of su dur] p(3,4) obtain errs pg1 where
    r: "run_handlers (map (item_func su dur) (pg_items pg)) pg = Ok (errs, sum_list (map dur (pg_items pg)), pg1)"
      "scheds_inv pg1" "pg_items pg1 = pg_items pg" "sd_stopCh (current pg1)" "active (current pg1) = Map.empty"
      "StopServerItem \<in> set (pg_items pg) \<longrightarrow> (\<forall>srv. pg_server pg1 = Some srv \<longrightarrow> srv_started srv \<longrightarrow> \<not> srv_open srv)"
    by (auto split: if_splits)
  define d where "d = done_by (30 * Second) (map (item_func su dur) (pg_items pg)) pg"
  have d: "scheds_inv d \<and> pg_items d = pg_items pg"
    unfolding d_def by (rule done_by_items [OF p(1,2)]) (rule p(3))
  have inv: "program_inv (q\<lparr>pg_exit := Some x\<rparr>)" if "scheds_inv q" "pg_items q = pg_items pg" for q x
    using that p(2,4) by (simp add: program_inv_def scheds_inv_def)
  have cur: "current (q\<lparr>pg_exit := x\<rparr>) = current q" for q :: "'a program" and x by (simp add: current_def)
  show ?thesis
  proof (cases "sum_list (map dur (pg_items pg)) < 30 * Second \<or> sum_list (map dur (pg_items pg)) = 30 * Second \<and> tie")
    case True
    then have "\<exists>x. x \<noteq> Err ShutdownTimeout \<and> terminate su dur tie pg = Ok (pg1\<lparr>pg_exit := Some x\<rparr>)"
      using r(1) by (auto simp: terminate_def Shutdown_def)
    with inv [OF r(2,3)] r(4-6) show ?thesis by (auto simp: cur)
  next
    case False
    have "Shutdown tie (shutdown_handler su dur pg) pg = Ok (Err ShutdownTimeout, d)"
      unfolding Shutdown_def shutdown_handler_simps r(1) and_then.simps prod.case if_not_P [OF False] d_def ..
    then have "terminate su dur tie pg = Ok (d\<lparr>pg_exit := Some (Err ShutdownTimeout)\<rparr>)"
      by (simp add: terminate_def)
    with inv [OF conjunct1 [OF d] conjunct2 [OF d]] False show ?thesis by auto
  qed
qed

text \<open>What every registered function and the exit keep, a shutdown keeps, finished or not.\<close>

lemma terminate_keeps:
  assumes "terminate su dur tie pg = Ok pg'" and "K pg"
    and "\<And>i p e t q. K p \<Longrightarrow> item_func su dur i p = Ok (e, t, q) \<Longrightarrow> K q" and "\<And>p x. K p \<Longrightarrow> K (p\<lparr>pg_exit := x\<rparr>)"
  shows "K pg'"
proof -
  have run: "K p \<Longrightarrow> run_handlers (map (item_func su dur) items) p = Ok (errs, t, q) \<Longrightarrow> K q" for items p errs t q
    by (induction items arbitrary: p errs t) (auto dest: assms(3))
  have part: "K p \<Longrightarrow> K (done_by limit (map (item_func su dur) items) p)" for items p limit
    by (induction items arbitrary: p limit) (auto split: outcome.split dest: assms(3))
  obtain r q where q: "Shutdown tie (shutdown_handler su dur pg) pg = Ok (r, q)" "pg' = q\<lparr>pg_exit := Some r\<rparr>"
    using assms(1) by (auto simp: terminate_def)
  have "K q" using q(1) assms(2) run part by (auto simp: Shutdown_def split: if_split_asm)
  with q(2) assms(4) show ?thesis by simp
qed

section \<open>Every step\<close>

lemma sweep_simps [simp]:
  "pg_scheds (sweep su pg) = pg_scheds pg" "pg_items (sweep su pg) = pg_items pg" "pg_exit (sweep su pg) = pg_exit pg"
  "pg_status (sweep su pg) = pg_status pg" "pg_synced (sweep su pg) = pg_synced pg"
  by (simp_all add: sweep_def Let_def)

lemma breaker_changed_simps [simp]:
  "pg_scheds (breaker_changed api c to pg) = pg_scheds pg" "pg_items (breaker_changed api c to pg) = pg_items pg"
  "pg_exit (breaker_changed api c to pg) = pg_exit pg" "pg_status (breaker_changed api c to pg) = pg_status pg"
  "pg_synced (breaker_changed api c to pg) = pg_synced pg"
  by (simp_all add: breaker_changed_def Let_def split: sum.split prod.split)

lemma program_inv_cong:
  "program_inv pg \<Longrightarrow> pg_scheds pg' = pg_scheds pg \<Longrightarrow> pg_items pg' = pg_items pg \<Longrightarrow> pg_exit pg' = pg_exit pg \<Longrightarrow> program_inv pg'"
  by (simp add: program_inv_def scheds_inv_def current_def)

lemma file_written_cases:
  assumes "program_inv pg" and "pg_exit pg = None" and "pg_watching pg"
  obtains (panic) q where "program_step su (FileWritten os) pg = Panic NilDereference" and "\<exists>cfg. Validate os cfg = Panic NilDereference"
      and "Load os (ConfigFile (su_env su)) = Panic q"
  | (same) e where "Load os (ConfigFile (su_env su)) = Err e" and "program_step su (FileWritten os) pg = Ok pg"
  | (applied) cfg pg' where "Load os (ConfigFile (su_env su)) = Ok cfg" and "program_step su (FileWritten os) pg = Ok pg'"
      and "program_inv pg'" and "active (current pg') = active (current pg) ++ by_name cfg (cfg_Secrets cfg)"
      and "on_config_change cfg pg = Ok pg'" and "pg_cfg pg' = pg_cfg pg"
proof -
  have step: "program_step su (FileWritten os) pg = handleChange os (program_watcher su) pg"
    using assms(2,3)
    by (cases "handleChange os (program_watcher su) pg") (simp_all add: watch_step_def program_watcher_def fsnotify_Write_def)
  show thesis
  proof (cases "Load os (ConfigFile (su_env su))")
    case (Err e)
    then have "program_step su (FileWritten os) pg = Ok pg"
      unfolding step by (simp add: handleChange_def program_watcher_def report_error_def)
    with Err show thesis by (rule same)
  next
    case (Panic q)
    then have "program_step su (FileWritten os) pg = Panic NilDereference"
      unfolding step using Load_Panic [OF Panic] by (simp add: handleChange_def program_watcher_def)
    moreover from Panic have "\<exists>cfg. Validate os cfg = Panic NilDereference"
      using Load_Panic [OF Panic] by (auto simp: Load_def split: option.splits)
    ultimately show thesis using Panic by (rule panic)
  next
    case (Ok cfg)
    from on_config_change_ok [OF assms(1,2) Load_intervals [OF Ok]] obtain pg' where
      pg': "on_config_change cfg pg = Ok pg'" "program_inv pg'"
        "active (current pg') = active (current pg) ++ by_name cfg (cfg_Secrets cfg)" "pg_cfg pg' = pg_cfg pg" by blast
    then have "program_step su (FileWritten os) pg = Ok pg'"
      unfolding step using Ok by (simp add: handleChange_def program_watcher_def)
    with Ok pg' show thesis by (intro applied)
  qed
qed

text \<open>Every step returns a state with the invariant, or is the panic of a validation.\<close>

lemma program_step_cases:
  assumes "program_inv pg"
  obtains (ok) pg' where "program_step su e pg = Ok pg'" and "program_inv pg'"
  | (panic) os where "program_step su e pg = Panic NilDereference" and "e = Hangup os \<or> e = FileWritten os"
      and "\<exists>cfg. Validate os cfg = Panic NilDereference"
proof (cases "pg_exit pg = None")
  case False
  with assms ok show thesis by (cases e) auto
next
  case True
  note exit = True
  show thesis
  proof (cases e)
    case (JobStep k i c now)
    show thesis
    proof (cases "k < length (pg_scheds pg)")
      case True
      obtain r where r: "runJob (program_env su (pg_tls pg) (pg_cfg pg)) now c i (pg_scheds pg ! k, pg_sync pg) = r" by simp
      then obtain s sy where s: "r = Ok (s, sy)" by (cases rule: runJob_step) auto
      have "same_table (pg_scheds pg ! k) s"
        using runJob_same_table [OF scheds_nth [OF assms True]] r s by blast
      then have "program_inv (pg\<lparr>pg_scheds := (pg_scheds pg)[k := s], pg_sync := sy\<rparr>)"
        by (intro scheds_inv_update [OF assms True]) simp_all
      with JobStep True exit r s show thesis by (intro ok) simp_all
    qed (use JobStep assms in \<open>auto intro: ok\<close>)
  next
    case (ClockTick k i)
    show thesis
    proof (cases "k < length (pg_scheds pg)")
      case True
      have "program_inv (pg\<lparr>pg_scheds := (pg_scheds pg)[k := ticker_fires i (pg_scheds pg ! k)]\<rparr>)"
        by (intro scheds_inv_update [OF assms True ticker_same_table [OF scheds_nth [OF assms True]]]) simp_all
      with ClockTick True exit show thesis by (intro ok) simp_all
    qed (use ClockTick assms in \<open>auto intro: ok\<close>)
  next
    case TakeResult
    with exit take_result_inv [OF assms] show thesis by (intro ok) simp_all
  next
    case (FileWritten os)
    show thesis
    proof (cases "pg_watching pg")
      case True
      show thesis
        by (rule file_written_cases [OF assms exit True, of su os]) (use FileWritten assms ok panic in blast)+
    qed (use FileWritten assms in \<open>auto intro: ok\<close>)
  next
    case Sweep
    show thesis
    proof (cases "pg_swept pg")
      case False
      with Sweep exit program_inv_cong [OF assms, of "sweep su pg"] show thesis by (intro ok) simp_all
    qed (use Sweep assms in \<open>auto intro: ok\<close>)
  next
    case (Hangup os)
    show thesis
    proof (cases "pg_swept pg")
      case True
      from reload_cases [OF assms exit, of su os] Hangup True exit assms show thesis
        by (metis ok panic program_step.simps(6))
    qed (use Hangup assms in \<open>auto intro: ok\<close>)
  next
    case (Terminate dur tie)
    show thesis
    proof (cases "pg_swept pg")
      case True
      from terminate_ok [OF assms exit, of su dur tie] Terminate True exit show thesis by (auto intro: ok)
    qed (use Terminate assms in \<open>auto intro: ok\<close>)
  next
    case (BreakerState c to)
    with exit program_inv_cong [OF assms, of "breaker_changed (su_api su) c to pg"] show thesis by (intro ok) simp_all
  qed
qed

section \<open>The start, and every run\<close>

lemma start_run_fields:
  assumes "start_run su logError exporterError resourceError watchError os disk w = Ok pg"
  shows "\<exists>s. Load os (su_path su) = Ok (pg_cfg pg) \<and> add_secrets (pg_cfg pg) NewScheduler = Ok s \<and>
          pg_scheds pg = [s] \<and> pg_exit pg = None \<and>
          distinct (pg_items pg) \<and> StopSchedulerItem \<in> set (pg_items pg) \<and>
          pg_metrics pg = SetSecretsConfigured (int (length (cfg_Secrets (pg_cfg pg)))) [] \<and> pg_synced pg = 0 \<and>
          pg_status pg = NewStatus (StatusFile (su_env su)) \<and> sy_disk (pg_sync pg) = disk \<and> \<not> pg_swept pg"
proof -
  obtain traced tr where t: "(if EnableTracing (su_env su)
      then tracing_Init exporterError resourceError ''secrets-sync'' (OTELExporterEndpoint (su_env su))
             \<lparr>tr_tracer = None, tr_shutdowns = 0\<rparr>
      else (Err (ResourceFailed []), \<lparr>tr_tracer = None, tr_shutdowns = 0\<rparr>)) = (traced, tr)" by (rule prod.exhaust)
  from assms obtain cfg where l: "Load os (su_path su) = Ok cfg" by (auto simp: start_run_def Let_def)
  obtain r w1 where c: "clientFactory (su_api su) (su_env su) (tls_config (su_env su) (cfg_SecretStore cfg)) (ss_Address (cfg_SecretStore cfg))
      (GetDefaultCredentials (cfg_SecretStore cfg)) w = (r, w1)" by (rule prod.exhaust)
  with assms l t obtain client where r: "r = Inr client" by (cases r) (auto simp: start_run_def Let_def)
  obtain leader w2 where f: "first_leader (su_api su) client w1 = (leader, w2)" by (rule prod.exhaust)
  show ?thesis
    using assms l t c r f by (cases "StartRenewal (su_newWatcher su) client w2") (auto simp: start_run_def Let_def shutdown_items_def)
qed

lemma start_run_inv:
  assumes "start_run su logError exporterError resourceError watchError os disk w = Ok pg"
  shows "program_inv pg \<and> pg_exit pg = None \<and> Load os (su_path su) = Ok (pg_cfg pg) \<and>
    active (current pg) = by_name (pg_cfg pg) (cfg_Secrets (pg_cfg pg))"
proof -
  from start_run_fields [OF assms] obtain cfg s where load: "Load os (su_path su) = Ok cfg" and add: "add_secrets cfg NewScheduler = Ok s"
    and pg: "pg_cfg pg = cfg" "pg_scheds pg = [s]" "pg_exit pg = None"
      "distinct (pg_items pg)" "StopSchedulerItem \<in> set (pg_items pg)" by blast
  from add_secrets_new [OF Load_intervals [OF load]] add have s:
    "sched_inv s" "active s = by_name cfg (cfg_Secrets cfg)" "\<not> sd_stopCh s" by auto
  with load pg show ?thesis by (simp add: program_inv_def scheds_inv_def sched_ok_def current_def)
qed

lemma program_step_inv:
  assumes "program_inv pg" and "program_step su e pg = Ok pg'"
  shows "program_inv pg'"
  by (rule program_step_cases [OF assms(1), of su e]) (use assms(2) in auto)

lemma program_run_inv:
  assumes "program_inv pg" and "program_run su evs pg = Ok pg'"
  shows "program_inv pg'"
  using assms(2,1) unfolding program_run_def by (rule each_keeps) (rule program_step_inv)


text \<open>What a state of the service can be: anything that a start and an interleaving of steps lead to.\<close>

definition reaches :: "('w, 't) service \<Rightarrow> 'w program \<Rightarrow> bool" where
  "reaches su pg \<longleftrightarrow>
     (\<exists>logError exporterError resourceError watchError os disk w pg0 evs.
        start_run su logError exporterError resourceError watchError os disk w = Ok pg0 \<and> program_run su evs pg0 = Ok pg)"

lemma reaches_inv: "reaches su pg \<Longrightarrow> program_inv pg"
  unfolding reaches_def by (blast intro: program_run_inv dest: start_run_inv)

text \<open>
  The goroutines for a name, over all schedulers there ever were, that have not returned and were not told to stop.
\<close>

definition running :: "string \<Rightarrow> 'w program \<Rightarrow> (Config \<times> Secret) list" where
  "running nm pg = concat (map (goroutines_for nm) (pg_scheds pg))"

lemma running_active:
  assumes "program_inv pg"
  shows "running nm pg = (case active (current pg) nm of None \<Rightarrow> [] | Some v \<Rightarrow> [v])"
proof -
  have inv: "scheds_inv pg" using assms by (simp add: program_inv_def)
  then have eq: "pg_scheds pg = butlast (pg_scheds pg) @ [current pg]" by (simp add: scheds_inv_def current_def)
  have "running nm pg = concat (map (goroutines_for nm) (butlast (pg_scheds pg))) @ goroutines_for nm (current pg)"
    unfolding running_def by (subst eq) simp
  moreover have "goroutines_for nm s = []" if "s \<in> set (butlast (pg_scheds pg))" for s
    using that inv goroutines_active [of s nm] by (auto simp: scheds_inv_def sched_ok_def dest: in_set_butlastD)
  then have "concat (map (goroutines_for nm) (butlast (pg_scheds pg))) = []" by simp
  ultimately show ?thesis using current_ok [OF inv] goroutines_active [of "current pg" nm] by (simp add: sched_ok_def)
qed

text \<open>The schedulers that a reload has replaced have told all their goroutines to stop.\<close>

lemma replaced_told:
  assumes "program_inv pg" and "s \<in> set (butlast (pg_scheds pg))"
  shows "told_to_stop s"
  using assms by (auto simp: program_inv_def scheds_inv_def sched_ok_def intro!: told_to_stopI dest: in_set_butlastD)


section \<open>How the process ends\<close>




section \<open>The properties of the service\<close>


text \<open>
  C11: a reload by signal is all or nothing.  In every state the service can reach, the branch for \<open>SIGHUP\<close> either
  leaves the state as it is, or it has loaded and validated a configuration, which is now the stored one.  Then the
  goroutines that were not told to stop are exactly those of the new configuration: for each name one, for the
  last secret of that name.  Every goroutine of the schedulers before is told to stop, its ticker is stopped and no tick
  waits; but the reload does not wait for it: it is where it was, and one that is synchronising will complete that
  synchronisation with the old configuration.
\<close>

theorem reload_all_or_nothing:
  assumes "reaches su pg" and "program_step su (Hangup os) pg = Ok pg'"
  shows "pg' = pg \<or>
    (\<exists>cfg0 cfg. Load os (su_path su) = Ok cfg0 \<and> Validate os cfg0 = Ok cfg \<and> pg_cfg pg' = cfg \<and>
       (\<forall>nm. running nm pg' = (case by_name cfg (cfg_Secrets cfg) nm of None \<Rightarrow> [] | Some v \<Rightarrow> [v])) \<and>
       (\<forall>s \<in> set (butlast (pg_scheds pg')). told_to_stop s) \<and>
       map phases (butlast (pg_scheds pg')) = map phases (pg_scheds pg))"
proof (cases "pg_exit pg = None \<and> pg_swept pg")
  case True
  then have step: "reload su os pg = Ok pg'" using assms(2) by simp
  note inv = reaches_inv [OF assms(1)]
  have eq: "butlast (pg_scheds pg) @ [current pg] = pg_scheds pg"
    using inv by (simp add: program_inv_def scheds_inv_def current_def)
  show ?thesis
  proof (rule reload_cases [OF inv, of su os])
    fix cfg0 cfg s s' q
    assume l: "Load os (su_path su) = Ok cfg0" "Validate os cfg0 = Ok cfg" "reload su os pg = Ok q" "program_inv q" "pg_cfg q = cfg"
      "active (current q) = by_name cfg (cfg_Secrets cfg)"
      and q: "pg_scheds q = butlast (pg_scheds pg) @ [s, s']" "Stop (current pg) = Ok s"
    have "map phases (butlast (pg_scheds q)) = map phases (pg_scheds pg)"
      using q(1) Stop_phases [OF q(2)] arg_cong [OF eq, of "map phases"] by (simp add: butlast_append)
    moreover have "q = pg'" using l(3) step by simp
    ultimately show ?thesis using l replaced_told [OF l(4)] running_active [OF l(4)] by auto
  qed (use True step in auto)
qed (use assms(2) in auto)

text \<open>
  C22: a reload by the file watcher does not do what a reload by signal does.  It replaces the goroutines of the secrets that
  the new configuration names and leaves all others running, also those of secrets that were removed from the file, and the stored
  configuration (from which the address of the store, the number of secrets and the swept directories are read)
  stays the old one.
\<close>

theorem watch_keeps_removed:
  assumes "reaches su pg" and "pg_exit pg = None" and "pg_watching pg"
    and "Load os (ConfigFile (su_env su)) = Ok cfg" and "program_step su (FileWritten os) pg = Ok pg'"
  shows "pg_cfg pg' = pg_cfg pg \<and>
    running nm pg' = (case by_name cfg (cfg_Secrets cfg) nm of None \<Rightarrow> running nm pg | Some v \<Rightarrow> [v])"
proof -
  note inv = reaches_inv [OF assms(1)]
  show ?thesis
    by (rule file_written_cases [OF inv assms(2,3), of su os])
       (use assms(4,5) inv in \<open>auto simp: running_active map_add_def split: option.split\<close>)
qed

lemma item_func_phases:
  assumes "item_func su dur i p = Ok (e, t, q)" and "pg_scheds p \<noteq> []"
  shows "pg_scheds q \<noteq> [] \<and> map phases (pg_scheds q) = map phases (pg_scheds p) \<and> pg_sync q = pg_sync p"
proof (cases i)
  case StopSchedulerItem
  with assms(1) obtain s where s: "Stop (current p) = Ok s" "q = set_current s p" by auto
  have "pg_scheds p = butlast (pg_scheds p) @ [current p]" using assms(2) by (simp add: current_def)
  from arg_cong [OF this, of "map phases"] Stop_phases [OF s(1)] s(2) show ?thesis by (simp add: set_current_def)
qed (use assms in \<open>auto split: option.split_asm prod.split_asm\<close>)

lemma terminate_waits_for_nobody:
  assumes "terminate su dur tie pg = Ok pg'" and "pg_scheds pg \<noteq> []"
  shows "map phases (pg_scheds pg') = map phases (pg_scheds pg) \<and> pg_sync pg' = pg_sync pg"
proof -
  let ?K = "\<lambda>p. pg_scheds p \<noteq> [] \<and> map phases (pg_scheds p) = map phases (pg_scheds pg) \<and> pg_sync p = pg_sync pg"
  have "?K pg'"
    by (rule terminate_keeps [where K = ?K, OF assms(1)]) (use assms(2) in simp, metis item_func_phases, simp)
  then show ?thesis by simp
qed

text \<open>
  C20: a termination signal closes everything, and waits for nothing.  In every state the loop can be in, if the
  registered functions take less than the 30 seconds of the handler, then the step for \<open>SIGTERM\<close> ends the process without
  the timeout error: every goroutine of every scheduler has been told to stop, no ticker runs, no tick waits, and the
  HTTP server, if there is one, is closed.  But each goroutine is where it was, and the pool of clients, Vault and the disk
  are as they were: a synchronisation that was under way is not completed before the process ends.
\<close>

theorem shutdown_closes_everything:
  assumes "reaches su pg" and "pg_exit pg = None" and "pg_swept pg"
    and "sum_list (map dur (pg_items pg)) < 30 * Second"
  shows "\<exists>pg'. program_step su (Terminate dur tie) pg = Ok pg' \<and>
    pg_exit pg' \<noteq> None \<and> pg_exit pg' \<noteq> Some (Err ShutdownTimeout) \<and>
    (\<forall>s \<in> set (pg_scheds pg'). told_to_stop s) \<and>
    (StopServerItem \<in> set (pg_items pg) \<longrightarrow> (\<forall>srv. pg_server pg' = Some srv \<longrightarrow> srv_started srv \<longrightarrow> \<not> srv_open srv)) \<and>
    map phases (pg_scheds pg') = map phases (pg_scheds pg) \<and> pg_sync pg' = pg_sync pg"
proof -
  note inv = reaches_inv [OF assms(1)]
  from terminate_ok [OF inv assms(2), of su dur tie] assms(4) obtain pg' where
    t: "terminate su dur tie pg = Ok pg'" "program_inv pg'" "pg_exit pg' \<noteq> None" "pg_exit pg' \<noteq> Some (Err ShutdownTimeout)"
      "sd_stopCh (current pg')" "active (current pg') = Map.empty"
      "StopServerItem \<in> set (pg_items pg) \<longrightarrow> (\<forall>srv. pg_server pg' = Some srv \<longrightarrow> srv_started srv \<longrightarrow> \<not> srv_open srv)"
    by blast
  have i: "scheds_inv pg'" "pg_scheds pg \<noteq> []" using t(2) inv by (simp_all add: program_inv_def scheds_inv_def)
  then have "set (pg_scheds pg') = insert (current pg') (set (butlast (pg_scheds pg')))"
    by (simp add: scheds_inv_def current_def) (metis append_butlast_last_id list.simps(15) rotate1.simps(2) set_rotate1)
  with t(5,6) current_in [OF i(1)] replaced_told [OF t(2)] have "\<forall>s \<in> set (pg_scheds pg'). told_to_stop s"
    by (auto intro: told_to_stopI)
  with t(1,3,4,7) assms(2,3) terminate_waits_for_nobody [OF t(1) i(2)] show ?thesis by (intro exI [of _ pg']) simp
qed

section \<open>The status after a reload\<close>

text \<open>A scheduler from which no result can come any more.\<close>

definition quiet :: "scheduler \<Rightarrow> bool" where
  "quiet s \<longleftrightarrow> sched_inv s \<and> sd_results s = [] \<and> (\<forall>j \<in> set (sd_heap s). j_stopCh j \<and> j_phase j \<noteq> Syncing)"

lemma quiet_runJob:
  assumes "quiet s" and "runJob env now c i (s, sy) = Ok (s', sy')"
  shows "quiet s' \<and> sy' = sy"
proof (cases "i < length (sd_heap s)")
  case True
  then have j: "sd_heap s ! i \<in> set (sd_heap s)" by simp
  with assms(1) have "\<not> j_tick (sd_heap s ! i)" "j_phase (sd_heap s ! i) \<noteq> Syncing" "j_stopCh (sd_heap s ! i)"
    by (auto simp: quiet_def sched_inv_def parts_ok_def job_ok_def)
  then have "s' = s \<or> s' = set_phase i Returned s" "sy' = sy"
    using assms(2) True by (cases c; auto simp: runJob_def split: job_phase.split_asm if_splits)+
  moreover have "quiet (set_phase i Returned s)" if "sched_inv (set_phase i Returned s)"
    using that assms(1) True set_update_subset_insert [of "sd_heap s" i "(sd_heap s ! i)\<lparr>j_phase := Returned\<rparr>"] j
    by (auto simp: quiet_def set_phase_def update_job_def)
  moreover have "sched_inv s'"
    using runJob_same_table [OF _ assms(2)] assms(1) by (simp add: quiet_def same_table_def)
  ultimately show ?thesis using assms(1) by auto
qed (use assms in \<open>simp add: runJob_def\<close>)

lemma quiet_ticker: "quiet s \<Longrightarrow> ticker_fires i s = s"
  using nth_mem [of i "sd_heap s"] by (auto simp: quiet_def ticker_fires_def sched_inv_def parts_ok_def job_ok_def)

definition frozen :: "Status \<Rightarrow> int \<Rightarrow> 'w program \<Rightarrow> bool" where
  "frozen st n pg \<longleftrightarrow> 2 \<le> length (pg_scheds pg) \<and> quiet (hd (pg_scheds pg)) \<and> pg_status pg = st \<and> pg_synced pg = n"

lemma frozen_cong:
  "frozen st n pg \<Longrightarrow> 2 \<le> length (pg_scheds pg') \<Longrightarrow> hd (pg_scheds pg') = hd (pg_scheds pg) \<Longrightarrow>
   pg_status pg' = pg_status pg \<Longrightarrow> pg_synced pg' = pg_synced pg \<Longrightarrow> frozen st n pg'"
  by (simp add: frozen_def)

lemma frozen_set_current: "frozen st n pg \<Longrightarrow> frozen st n (set_current s pg)"
  by (rule frozen_cong) (auto simp: frozen_def set_current_def neq_Nil_conv Suc_le_length_iff numeral_2_eq_2)

lemma frozen_item:
  assumes "frozen st n pg" and "item_func su dur i pg = Ok (e, t, pg1)"
  shows "frozen st n pg1"
proof (cases i)
  case StopSchedulerItem
  with assms frozen_set_current show ?thesis by auto
qed (use assms in \<open>auto simp: frozen_def split: option.split_asm prod.split_asm\<close>)

lemma frozen_terminate:
  assumes "frozen st n pg" and "terminate su dur tie pg = Ok pg'"
  shows "frozen st n pg'"
  by (rule terminate_keeps [where K = "frozen st n", OF assms(2,1)]) (erule (1) frozen_item, simp add: frozen_def)

lemma frozen_step:
  assumes "program_inv pg" and "frozen st n pg" and "program_step su e pg = Ok pg'"
  shows "frozen st n pg'"
proof (cases "pg_exit pg = None")
  case exit: True
  from assms(2) obtain s ss where ss: "pg_scheds pg = s # ss" "ss \<noteq> []" "quiet s"
    by (cases "pg_scheds pg") (auto simp: frozen_def Suc_le_eq)
  show ?thesis
  proof (cases e)
    case (JobStep k i c now)
    with assms(3) exit have "pg' = pg \<or> (\<exists>s' sy. runJob (program_env su (pg_tls pg) (pg_cfg pg)) now c i (pg_scheds pg ! k, pg_sync pg) = Ok (s', sy) \<and>
        pg' = pg\<lparr>pg_scheds := (pg_scheds pg)[k := s'], pg_sync := sy\<rparr>)" by (auto split: if_splits)
    with assms(2) ss show ?thesis by (cases k) (auto simp: frozen_def dest: quiet_runJob)
  next
    case (ClockTick k i)
    with assms(2,3) exit ss show ?thesis
      by (cases k) (auto simp: frozen_def quiet_ticker split: if_split_asm)
  next
    case TakeResult
    with assms(2,3) exit ss show ?thesis by (simp add: take_result_def quiet_def)
  next
    case (FileWritten os)
    show ?thesis
    proof (cases "pg_watching pg")
      case True
      show ?thesis
      proof (rule file_written_cases [OF assms(1) exit True, of su os])
        fix cfg p
        assume "program_step su (FileWritten os) pg = Ok p" "on_config_change cfg pg = Ok p"
        with assms(3) FileWritten have "on_config_change cfg pg = Ok pg'" by simp
        then obtain s' where "pg' = (set_current s' pg)\<lparr>pg_metrics := SetSecretsConfigured (int (length (cfg_Secrets cfg))) (pg_metrics pg)\<rparr>"
          by (auto simp: on_config_change_def)
        with frozen_set_current [OF assms(2), of s'] show ?thesis by (simp add: frozen_def)
      qed (use assms(2,3) FileWritten in auto)
    qed (use assms(2,3) FileWritten in auto)
  next
    case Sweep
    with assms(2,3) exit show ?thesis by (auto simp: frozen_def split: if_split_asm)
  next
    case (Hangup os)
    show ?thesis
    proof (cases "pg_swept pg")
      case True
      with Hangup assms(3) exit have step: "reload su os pg = Ok pg'" by simp
      show ?thesis
        by (rule reload_cases [OF assms(1) exit, of su os]) (use step assms(2) ss in \<open>auto simp: frozen_def\<close>)
    qed (use assms(2,3) Hangup in auto)
  next
    case (Terminate dur tie)
    with assms(2,3) exit show ?thesis by (auto split: if_split_asm dest: frozen_terminate)
  next
    case (BreakerState c to)
    with assms(2,3) exit show ?thesis by (auto simp: frozen_def)
  qed
qed (use assms in \<open>cases e; auto\<close>)

text \<open>
  C21: after a reload by signal the reported status stands still.  The goroutine that counts results ranges over the
  channel of the first scheduler; once that scheduler has been replaced, its channel is empty and none of its
  goroutines is in a synchronisation any more, no step of any kind changes the status or the count of successes again, whether the
  secrets of the new configuration synchronise or fail.
\<close>

theorem status_frozen_after_reload:
  assumes "reaches su pg" and "2 \<le> length (pg_scheds pg)" and "sd_results (hd (pg_scheds pg)) = []"
    and "\<forall>j \<in> set (sd_heap (hd (pg_scheds pg))). j_phase j \<noteq> Syncing" and "program_run su evs pg = Ok pg'"
  shows "pg_status pg' = pg_status pg \<and> pg_synced pg' = pg_synced pg"
proof -
  note inv = reaches_inv [OF assms(1)]
  from assms(2) have "hd (pg_scheds pg) \<in> set (butlast (pg_scheds pg))"
    by (cases "pg_scheds pg") auto
  with inv have h: "sched_inv (hd (pg_scheds pg))" "active (hd (pg_scheds pg)) = Map.empty"
    by (auto simp: program_inv_def scheds_inv_def sched_ok_def dest: in_set_butlastD)
  with assms(2-4) inactive_jobs [OF h] have f: "frozen (pg_status pg) (pg_synced pg) pg"
    by (simp add: frozen_def quiet_def)
  have "program_inv pg' \<and> frozen (pg_status pg) (pg_synced pg) pg'"
    using assms(5) unfolding program_run_def
    by (rule each_keeps) (use inv f program_step_inv frozen_step in blast)+
  then show ?thesis by (simp add: frozen_def)
qed

section \<open>Two secrets of one name\<close>

text \<open>
  Names are not checked.  There is an accepted configuration with two different secrets of the same name; whichever
  state the service starts in, only the last of them is ever worked on, the file of the first is never written.
\<close>

theorem same_name_secrets:
  "\<exists>cfg a b. Validate sample_os cfg = Ok cfg \<and> cfg_Secrets cfg = [a, b] \<and> a \<noteq> b \<and> sec_Name a = sec_Name b \<and>
     set (map file_Path (sec_Files a)) \<inter> set (map file_Path (sec_Files b)) = {} \<and>
     (\<exists>s. add_secrets cfg NewScheduler = Ok s \<and> goroutines_for (sec_Name a) s = [(cfg, b)])"
proof -
  let ?s = "\<lambda>p. (sample_secret [p])\<lparr>sec_Files := [(sample_file p)\<lparr>file_Mode := ''0600''\<rparr>]\<rparr>"
  let ?a = "?s ''/o/a''" and ?b = "?s ''/o/b''"
  let ?cfg = "\<lparr>cfg_SecretStore = sample_store, cfg_Secrets = [?a, ?b]\<rparr>"
  have v: "Validate sample_os ?cfg = Ok ?cfg"
    by (simp add: Validate_Ok accept_defs sample_defs path_eval Second_def norm_config_def norm_secret_def
        norm_file_def norm_path_def)
  from add_secrets_new [OF accepted_intervals [OF v]] obtain s where
    s: "add_secrets ?cfg NewScheduler = Ok s" "sched_inv s" "active s = by_name ?cfg [?a, ?b]" "\<not> sd_stopCh s" by auto
  then have "goroutines_for (sec_Name ?a) s = [(?cfg, ?b)]"
    using goroutines_active [OF s(2)] s(4) by (simp add: by_name_def sample_secret_def)
  with v s(1) show ?thesis
    by (intro exI [of _ ?cfg] exI [of _ ?a] exI [of _ ?b]) (simp add: sample_secret_def sample_file_def)
qed

section \<open>A concrete service\<close>

text \<open>
  Two secrets \<open>a\<close> and \<open>b\<close>, of which a later version of the file has only \<open>b\<close>; the server of
  \<^const>\<open>sample_api\<close>, to which the token \<open>root\<close> is known.
\<close>

definition run_secret :: "string \<Rightarrow> string \<Rightarrow> Secret" where
  "run_secret nm p =
     (sample_secret [p])\<lparr>sec_Name := nm, sec_Files := [(sample_file p)\<lparr>file_Mode := ''0600''\<rparr>]\<rparr>"

definition run_config :: "Secret list \<Rightarrow> Config" where
  "run_config xs = \<lparr>cfg_SecretStore = sample_store\<lparr>ss_Token := ''root''\<rparr>, cfg_Secrets = xs\<rparr>"

definition run_os :: "Secret list \<Rightarrow> os_env" where
  "run_os xs = sample_os\<lparr>yaml_Unmarshal := (\<lambda>d. if d = ''c'' then Some (run_config xs) else None)\<rparr>"

abbreviation "run_a \<equiv> run_secret ''a'' ''/o/a''"
abbreviation "run_b \<equiv> run_secret ''b'' ''/o/b''"

definition run_env :: EnvConfig where
  "run_env =
     \<lparr>VaultAddr = [], VaultToken = [], VaultRoleID = [], VaultSecretID = [], VaultCACert = [], VaultCAPath = [],
      VaultSkipVerify = False, VaultClientCert = [], VaultClientKey = [], ConfigFile = ''c.yaml'', WatchConfig = True,
      CircuitBreakerMaxReqs = 3, CircuitBreakerInterval = 60 * Second, CircuitBreakerTimeout = 30 * Second,
      LogLevel = ''info'', MetricsAddr = ''127.0.0.1'', MetricsPort = 8080, EnableMetrics = True, StatusFile = [],
      EnableTracing = False, OTELExporterEndpoint = [], InitialBackoff = Second, MaxBackoff = 5 * Minute,
      BackoffMultiplier = Fin 2\<rparr>"

definition run_service :: "(nat, string) service" where
  "run_service =
     \<lparr>su_api = sample_api 0, su_oor = (\<lambda>_. 0), su_parse = (\<lambda>_ t. Inr t), su_execute = (\<lambda>t _. Inr t), su_env = run_env,
      su_path = ''c.yaml'', su_newWatcher = (\<lambda>_ _ w. (Inr 0, w)),
      su_listens = (\<lambda>_. True), su_closeError = (\<lambda>_. None), su_glob = (\<lambda>_ _. None)\<rparr>"

lemmas run_defs = run_secret_def run_config_def run_os_def sample_file_def sample_store_def sample_secret_def sample_os_def

lemma run_load:
  "Load (run_os [run_a, run_b]) ''c.yaml'' = Ok (run_config [run_a, run_b])"
  "Load (run_os [run_b]) ''c.yaml'' = Ok (run_config [run_b])"
  "Validate (run_os [run_b]) (run_config [run_b]) = Ok (run_config [run_b])"
  by (simp_all add: Load_def Validate_Ok accept_defs run_defs path_eval Second_def ExpandEnvVars_def Let_def expandEnv_def
      has_suffix_def norm_config_def norm_secret_def norm_file_def norm_path_def)

lemma run_start:
  "\<exists>pg. start_run run_service None (\<lambda>_. None) None None (run_os [run_a, run_b]) sample_world 0 = Ok pg \<and>
     pg_watching pg \<and> pg_swept pg = False \<and> pg_items pg = [StopRenewalItem, StopSchedulerItem, StopServerItem] \<and>
     pg_cfg pg = run_config [run_a, run_b] \<and> length (pg_scheds pg) = 1"
proof -
  from add_secrets_new [OF Load_intervals [OF run_load(1)]] obtain s where
    s: "add_secrets (run_config [run_a, run_b]) NewScheduler = Ok s" by blast
  have c: "\<exists>c. clientFactory (su_api run_service) (su_env run_service)
      (tls_config (su_env run_service) (cfg_SecretStore (run_config [run_a, run_b])))
      (ss_Address (cfg_SecretStore (run_config [run_a, run_b])))
      (GetDefaultCredentials (cfg_SecretStore (run_config [run_a, run_b]))) 0 = (Inr c, 0) \<and> cl_authSecret c = None"
    by (simp add: clientFactory_def run_service_def NewClientWithTLS_def sample_api_def WithCircuitBreaker_def
        Authenticate_def authenticateToken_def executeWithBreaker_def api_call_def auth_config_def GetDefaultCredentials_def
        run_config_def sample_store_def SetToken_def Let_def)
  then obtain client where client: "clientFactory (su_api run_service) (su_env run_service)
      (tls_config (su_env run_service) (cfg_SecretStore (run_config [run_a, run_b])))
      (ss_Address (cfg_SecretStore (run_config [run_a, run_b])))
      (GetDefaultCredentials (cfg_SecretStore (run_config [run_a, run_b]))) 0 = (Inr client, 0)" "cl_authSecret client = None" by blast
  have f: "first_leader (su_api run_service) client 0 = (''l'', 0)"
    by (simp add: first_leader_def GetClusterInfo_def run_service_def sample_api_def)
  have e: "su_path run_service = ''c.yaml''" "su_env run_service = run_env" by (simp_all add: run_service_def)
  show ?thesis
    using client f run_load(1) s unfolding start_run_def Let_def e
    by (simp add: logger_Init_def StartRenewal_def run_env_def metrics_enabled_def shutdown_items_def)
qed

text \<open>The states the witnesses speak of: the sweep, a reload, and the end of the synchronisations of the old jobs.\<close>

lemma add_secrets_phases:
  assumes "add_secrets cfg NewScheduler = Ok s"
  shows "set (phases s) \<subseteq> {Syncing}"
proof -
  have "set (phases s) \<subseteq> {Syncing}"
    using assms unfolding add_secrets_def
  proof (rule each_keeps)
    show "set (phases NewScheduler) \<subseteq> {Syncing}" by (simp add: phases_def NewScheduler_def)
  next
    fix x u v assume u: "set (phases u) \<subseteq> {Syncing}" and "AddSecret cfg x u = Ok v"
    then obtain u1 where u1: "u1 = u \<or> (\<exists>i. stop_job i u = Ok u1)" "sd_heap v = sd_heap u1 @ [new_job cfg x]"
      by (elim AddSecret_heap)
    then have "phases u1 = phases u" using stop_job_phases by blast
    with u u1(2) show "set (phases v) \<subseteq> {Syncing}" by (simp add: phases_def new_job_def)
  qed
  then show ?thesis .
qed

lemma run_started:
  obtains pg where "start_run run_service None (\<lambda>_. None) None None (run_os [run_a, run_b]) sample_world 0 = Ok pg"
    and "pg_watching pg" and "\<not> pg_swept pg" and "pg_items pg = [StopRenewalItem, StopSchedulerItem, StopServerItem]"
    and "length (pg_scheds pg) = 1" and "pg_exit pg = None" and "reaches run_service pg" and "running ''a'' pg \<noteq> []"
    and "Syncing \<in> set (phases (current pg))"
proof -
  from run_start obtain pg where pg: "start_run run_service None (\<lambda>_. None) None None (run_os [run_a, run_b]) sample_world 0 = Ok pg"
    "pg_watching pg" "\<not> pg_swept pg" "pg_items pg = [StopRenewalItem, StopSchedulerItem, StopServerItem]"
    "pg_cfg pg = run_config [run_a, run_b]" "length (pg_scheds pg) = 1" by auto
  note i = start_run_inv [OF pg(1)]
  have "reaches run_service pg" unfolding reaches_def using pg(1) by (metis program_run_def each.simps(1))
  moreover have "running ''a'' pg \<noteq> []"
    using i pg(5) by (simp add: running_active by_name_def run_config_def run_secret_def)
  moreover from start_run_fields [OF pg(1)] obtain s where s: "add_secrets (pg_cfg pg) NewScheduler = Ok s" "pg_scheds pg = [s]" by blast
  moreover from this calculation have "goroutines_for ''a'' s \<noteq> []" by (simp add: running_def)
  then have "phases s \<noteq> []" by (auto simp: goroutines_for_def phases_def)
  then have "Syncing \<in> set (phases s)" using add_secrets_phases [OF s(1)] by (cases "phases s") auto
  ultimately show thesis using that pg i by (simp add: current_def)
qed

lemma reaches_step: "reaches su pg \<Longrightarrow> program_step su e pg = Ok pg' \<Longrightarrow> reaches su pg'"
  unfolding reaches_def program_run_def by (metis each.simps each_append and_then.simps(1))

lemma reaches_run: "reaches su pg \<Longrightarrow> program_run su evs pg = Ok pg' \<Longrightarrow> reaches su pg'"
  unfolding reaches_def program_run_def by (metis each_append and_then.simps(1))

lemma run_swept:
  obtains pg where "reaches run_service pg" and "pg_exit pg = None" and "pg_swept pg" and "pg_watching pg"
    and "pg_items pg = [StopRenewalItem, StopSchedulerItem, StopServerItem]" and "running ''a'' pg \<noteq> []"
    and "length (pg_scheds pg) = 1" and "Syncing \<in> set (phases (current pg))"
proof (rule run_started)
  fix pg
  assume pg: "pg_watching pg" "\<not> pg_swept pg" "pg_items pg = [StopRenewalItem, StopSchedulerItem, StopServerItem]"
    "length (pg_scheds pg) = 1" "pg_exit pg = None" "reaches run_service pg" "running ''a'' pg \<noteq> []"
    "Syncing \<in> set (phases (current pg))"
  have "program_step run_service Sweep pg = Ok (sweep run_service pg)" using pg by simp
  from reaches_step [OF pg(6) this] pg show thesis
    by (intro that [of "sweep run_service pg"]) (simp_all add: running_def current_def, simp_all add: sweep_def)
qed

lemma run_path: "su_path run_service = ''c.yaml''" "ConfigFile (su_env run_service) = ''c.yaml''"
  by (simp_all add: run_service_def run_env_def)

text \<open>The reload of the file without \<open>a\<close>, which succeeds.\<close>

lemma run_reload:
  assumes "reaches run_service pg" and "pg_exit pg = None" and "pg_swept pg"
  obtains pg' s s' where "program_step run_service (Hangup (run_os [run_b])) pg = Ok pg'"
    and "pg_cfg pg' = run_config [run_b]" and "pg_scheds pg' = butlast (pg_scheds pg) @ [s, s']" and "Stop (current pg) = Ok s"
    and "pg_exit pg' = None"
proof -
  note inv = reaches_inv [OF assms(1)]
  then have "\<not> sd_stopCh (current pg)" "sched_inv (current pg)"
    using assms(2) current_in by (auto simp: program_inv_def)
  with Stop_ok obtain s where s: "Stop (current pg) = Ok s" by blast
  from add_secrets_new [OF Load_intervals [OF run_load(2)]] obtain s' where
    s': "add_secrets (run_config [run_b]) NewScheduler = Ok s'" by blast
  let ?pg = "pg\<lparr>pg_cfg := run_config [run_b], pg_scheds := butlast (pg_scheds pg) @ [s, s'],
               pg_metrics := SetSecretsConfigured (int (length (cfg_Secrets (run_config [run_b])))) (pg_metrics pg)\<rparr>"
  have "program_step run_service (Hangup (run_os [run_b])) pg = Ok ?pg"
    using assms(2,3) s s' by (simp add: reload_def run_path run_load set_current_def)
  from that [OF this _ _ s] assms(2) show thesis by simp
qed


theorem reload_all_or_nothing_witness:
  "\<exists>pg pg'. reaches run_service pg \<and> running ''a'' pg \<noteq> [] \<and>
     program_step run_service (Hangup (run_os [run_b])) pg = Ok pg' \<and> running ''a'' pg' = [] \<and>
     running ''b'' pg' = [(run_config [run_b], run_b)] \<and> told_to_stop (hd (pg_scheds pg'))"
proof (rule run_swept)
  fix pg
  assume pg: "reaches run_service pg" "pg_exit pg = None" "pg_swept pg" "running ''a'' pg \<noteq> []" "length (pg_scheds pg) = 1"
  from run_reload [OF pg(1-3)] obtain pg' s s' where
    r: "program_step run_service (Hangup (run_os [run_b])) pg = Ok pg'" "pg_scheds pg' = butlast (pg_scheds pg) @ [s, s']"
      "pg_cfg pg' = run_config [run_b]" .
  have c: "cfg_Secrets (run_config [run_b]) = [run_b]" by (simp add: run_config_def)
  from arg_cong [OF r(2), of length] pg(5) have "pg' \<noteq> pg" by auto
  with reload_all_or_nothing [OF pg(1) r(1)] have told: "\<forall>s \<in> set (butlast (pg_scheds pg')). told_to_stop s" and
    "running nm pg' = (case by_name (run_config [run_b]) [run_b] nm of None \<Rightarrow> [] | Some v \<Rightarrow> [v])" for nm
    using r(3) c by auto
  then have "running ''a'' pg' = []" "running ''b'' pg' = [(run_config [run_b], run_b)]"
    by (simp_all add: by_name_def) (simp_all add: run_secret_def)
  moreover have "told_to_stop (hd (pg_scheds pg'))" using told r(2) pg(5) by (cases "pg_scheds pg") auto
  ultimately show ?thesis using pg r by blast
qed

theorem watch_keeps_removed_witness:
  "\<exists>pg pg'. reaches run_service pg \<and> running ''a'' pg \<noteq> [] \<and>
     program_step run_service (FileWritten (run_os [run_b])) pg = Ok pg' \<and> running ''a'' pg' = running ''a'' pg"
proof (rule run_swept)
  fix pg
  assume pg: "reaches run_service pg" "pg_exit pg = None" "pg_watching pg" "running ''a'' pg \<noteq> []"
  have l: "Load (run_os [run_b]) (ConfigFile (su_env run_service)) = Ok (run_config [run_b])"
    by (simp add: run_path run_load)
  obtain pg' where r: "program_step run_service (FileWritten (run_os [run_b])) pg = Ok pg'"
    by (rule file_written_cases [OF reaches_inv [OF pg(1)] pg(2,3), of run_service "run_os [run_b]"])
       (use l in auto)
  have "by_name (run_config [run_b]) (cfg_Secrets (run_config [run_b])) ''a'' = None"
    by (simp add: by_name_def run_config_def run_secret_def)
  with watch_keeps_removed [OF pg(1-3) l r, of "''a''"] pg r show ?thesis by auto
qed

theorem shutdown_closes_everything_witness:
  "\<exists>pg pg' s. reaches run_service pg \<and> running ''a'' pg \<noteq> [] \<and>
     program_step run_service (Terminate (\<lambda>_. Second) False) pg = Ok pg' \<and> pg_exit pg' \<noteq> None \<and>
     pg_scheds pg' = [s] \<and> told_to_stop s \<and> Syncing \<in> set (phases s)"
proof (rule run_swept)
  fix pg
  assume pg: "reaches run_service pg" "pg_exit pg = None" "pg_swept pg" "running ''a'' pg \<noteq> []"
    "pg_items pg = [StopRenewalItem, StopSchedulerItem, StopServerItem]"
    and one: "length (pg_scheds pg) = 1" and ph: "Syncing \<in> set (phases (current pg))"
  have "sum_list (map (\<lambda>_. Second) (pg_items pg)) < 30 * Second" by (simp add: pg(5) Second_def)
  from shutdown_closes_everything [OF pg(1-3) this, of False] obtain pg' where
    t: "program_step run_service (Terminate (\<lambda>_. Second) False) pg = Ok pg'" "pg_exit pg' \<noteq> None"
      "\<forall>s \<in> set (pg_scheds pg'). told_to_stop s" "map phases (pg_scheds pg') = map phases (pg_scheds pg)" by blast
  from one obtain s0 where s0: "pg_scheds pg = [s0]" by (cases "pg_scheds pg") auto
  with t(4) obtain s where s: "pg_scheds pg' = [s]" "phases s = phases s0" by auto
  with s0 ph have "Syncing \<in> set (phases s)" by (simp add: current_def)
  with t s(1) pg show ?thesis by (intro exI [of _ pg] exI [of _ pg'] exI [of _ s]) simp
qed

text \<open>
  The state in which the status stands still is always reached: the results of the first scheduler are taken, and its
  jobs end the synchronisation they are in.
\<close>

definition unsynced :: "scheduler \<Rightarrow> nat set" where
  "unsynced s = {i. i < length (sd_heap s) \<and> j_phase (sd_heap s ! i) = Syncing}"

lemma program_run_simps [simp]:
  "program_run su [] pg = Ok pg"
  "program_run su (e # evs) pg = and_then (program_step su e pg) (program_run su evs)"
  by (simp_all add: program_run_def [abs_def])

lemma take_all_results:
  assumes "pg_exit pg = None" and "pg_scheds pg = s # ss"
  shows "\<exists>pg'. program_run su (replicate (length (sd_results s)) TakeResult) pg = Ok pg' \<and>
           pg_exit pg' = None \<and> pg_scheds pg' = s\<lparr>sd_results := []\<rparr> # ss"
  using assms
proof (induction "sd_results s" arbitrary: s pg)
  case Nil
  then show ?case by simp
next
  case (Cons r rs)
  let ?s = "s\<lparr>sd_results := rs\<rparr>" and ?pg = "take_result pg"
  have "pg_exit ?pg = None" "pg_scheds ?pg = ?s # ss"
    using Cons.prems by (simp_all add: take_result_def Cons.hyps(2) [symmetric])
  from Cons.hyps(1) [OF _ this] obtain pg' where
    "program_run su (replicate (length rs) TakeResult) ?pg = Ok pg'" "pg_exit pg' = None" "pg_scheds pg' = s\<lparr>sd_results := []\<rparr> # ss"
    by auto
  with Cons.prems(1) show ?case by (simp add: Cons.hyps(2) [symmetric])
qed

lemma report_heap: "sd_heap (report r s) = sd_heap s"
  by (simp add: report_def)

lemma first_sync:
  assumes "i \<in> unsynced s"
  obtains s' sy' where "runJob env now c i (s, sy) = Ok (s', sy')" and "unsynced s' \<subset> unsynced s"
proof -
  let ?j = "sd_heap s ! i"
  have i: "i < length (sd_heap s)" "j_phase ?j = Syncing" using assms by (simp_all add: unsynced_def)
  obtain r sy' where r: "SyncSecret env (\<lambda>_. False) (j_cfg ?j) (j_secret ?j) sy = (r, sy')" by (rule prod.exhaust)
  have "\<exists>s1 t. syncAndReport env now i (s, sy) = Ok (s1, sy') \<and> sd_heap s1 = (sd_heap s)[i := ?j\<lparr>j_lastSync := t\<rparr>]"
  proof (cases r)
    case (Ok u)
    with r show ?thesis by (auto simp: syncAndReport_def Let_def report_heap update_job_def)
  next
    case (Err e)
    with r show ?thesis
      by (auto simp: syncAndReport_def Let_def report_heap intro: exI [of _ "j_lastSync ?j"])
  next
    case (Panic p)
    with r show ?thesis by (simp add: SyncSecret_never_panics)
  qed
  then obtain s1 t where s1: "syncAndReport env now i (s, sy) = Ok (s1, sy')" "sd_heap s1 = (sd_heap s)[i := ?j\<lparr>j_lastSync := t\<rparr>]"
    by blast
  have "unsynced (set_phase i Selecting s1) = unsynced s - {i}"
    using i s1(2) by (auto simp: unsynced_def set_phase_def update_job_def nth_list_update)
  with that [of "set_phase i Selecting s1" sy'] s1(1) i assms show thesis by (auto simp: runJob_def)
qed

lemma drain:
  assumes "pg_exit pg = None" and "pg_scheds pg = s # ss"
  shows "\<exists>evs pg' s'. program_run su evs pg = Ok pg' \<and> pg_scheds pg' = s' # ss \<and> sd_results s' = [] \<and> unsynced s' = {}"
  using assms
proof (induction "card (unsynced s)" arbitrary: s pg rule: less_induct)
  case less
  show ?case
  proof (cases "unsynced s = {}")
    case True
    then have "unsynced (s\<lparr>sd_results := []\<rparr>) = {}" by (simp add: unsynced_def)
    with take_all_results [OF less.prems, of su] show ?thesis by fastforce
  next
    case False
    then obtain i where i: "i \<in> unsynced s" by blast
    from first_sync [OF i] obtain s1 sy1 where
      r: "runJob (program_env su (pg_tls pg) (pg_cfg pg)) 0 TickC i (s, pg_sync pg) = Ok (s1, sy1)" "unsynced s1 \<subset> unsynced s" by blast
    let ?pg = "pg\<lparr>pg_scheds := s1 # ss, pg_sync := sy1\<rparr>"
    have st: "program_step su (JobStep 0 i TickC 0) pg = Ok ?pg" using less.prems r(1) by simp
    have "card (unsynced s1) < card (unsynced s)"
      by (rule psubset_card_mono [OF _ r(2)]) (simp add: unsynced_def)
    from less.hyps [OF this, of ?pg] less.prems obtain evs pg' s' where
      "program_run su evs ?pg = Ok pg'" "pg_scheds pg' = s' # ss" "sd_results s' = []" "unsynced s' = {}" by auto
    with st show ?thesis by (intro exI [of _ "JobStep 0 i TickC 0 # evs"] exI [of _ pg'] exI [of _ s']) simp
  qed
qed

theorem status_frozen_after_reload_witness:
  "\<exists>pg pg'. reaches run_service pg \<and> program_run run_service [JobStep 1 0 TickC 9, TakeResult] pg = Ok pg' \<and>
     pg_status pg' = pg_status pg \<and> pg_synced pg' = pg_synced pg"
proof (rule run_swept)
  fix pg
  assume pg: "reaches run_service pg" "pg_exit pg = None" "pg_swept pg" "length (pg_scheds pg) = 1"
  from run_reload [OF pg(1-3)] obtain pg1 s s' where
    r: "program_step run_service (Hangup (run_os [run_b])) pg = Ok pg1" "pg_scheds pg1 = butlast (pg_scheds pg) @ [s, s']"
      "pg_exit pg1 = None" .
  have two: "pg_scheds pg1 = [s, s']" using r(2) pg(4) by (cases "pg_scheds pg") auto
  from drain [OF r(3) two, of run_service] obtain evs pg2 q where
    d: "program_run run_service evs pg1 = Ok pg2" "pg_scheds pg2 = [q, s']" "sd_results q = []" "unsynced q = {}" by blast
  have re: "reaches run_service pg2"
    using reaches_run [OF reaches_step [OF pg(1) r(1)] d(1)] .
  obtain pg3 where p: "program_run run_service [JobStep 1 0 TickC 9, TakeResult] pg2 = Ok pg3"
    by (rule program_step_cases [OF reaches_inv [OF re], of run_service "JobStep 1 0 TickC 9"];
        use program_step_cases [of _ run_service TakeResult] in fastforce)
  have "\<forall>j \<in> set (sd_heap q). j_phase j \<noteq> Syncing" using d(4) by (auto simp: unsynced_def in_set_conv_nth)
  then have "pg_status pg3 = pg_status pg2 \<and> pg_synced pg3 = pg_synced pg2"
    by (intro status_frozen_after_reload [OF re _ _ _ p]) (simp_all add: d(2,3))
  with re p show ?thesis by blast
qed

section \<open>The environment\<close>


end
