(* ===== verification/Main_Metrics.thy ===== *)
theory Main_Metrics
  imports Main_Theorems
begin

text \<open>
  The numbers the service reports: the counters and gauges, the status of the endpoint and the count that \<open>run\<close> keeps
  are three records of the same events, and they agree in every state the service can reach.
\<close>

section \<open>Counting calls\<close>

text \<open>The increments of the counter of fetches with a given status, and those of the counter of errors.\<close>

fun fetch_with :: "string \<Rightarrow> metric_op \<Rightarrow> bool" where
  "fetch_with st (Inc SecretFetchTotal [nm, p, st']) = (st' = st)"
| "fetch_with st _ = False"

fun fetch_error :: "metric_op \<Rightarrow> bool" where
  "fetch_error (Inc SecretFetchErrors ls) = True"
| "fetch_error _ = False"

definition calls :: "(metric_op \<Rightarrow> bool) \<Rightarrow> metric_log \<Rightarrow> nat" where
  "calls P ms = length (filter P ms)"

lemma calls_simps [simp]:
  "calls P [] = 0" "calls P (m # ms) = of_bool (P m) + calls P ms" "calls P (ms @ ns) = calls P ms + calls P ns"
  by (simp_all add: calls_def)

definition counts_ok :: "metric_log \<Rightarrow> Status \<Rightarrow> int \<Rightarrow> bool" where
  "counts_ok ms st n \<longleftrightarrow> list_all well_labelled ms \<and> int (calls (fetch_with ''success'') ms) = n \<and>
     calls (fetch_with ''error'') ms = calls fetch_error ms \<and>
     gauge_value SecretsSynced [] ms = (if n = 0 then None else Some (f64_of_int n)) \<and>
     st_SyncedCount st = n \<and> IsReady st = (0 < n)"

definition metrics_inv :: "'w program \<Rightarrow> bool" where
  "metrics_inv pg \<longleftrightarrow> counts_ok (pg_metrics pg) (pg_status pg) (pg_synced pg)"

text \<open>Calls on other metrics change none of the counts.\<close>

fun other_metric :: "metric_op \<Rightarrow> bool" where
  "other_metric (SetTo m ls v) \<longleftrightarrow> m \<noteq> SecretsSynced \<and> length ls = length (snd (metric_decl m))"
| "other_metric _ \<longleftrightarrow> False"

lemma counts_ok_other:
  assumes "counts_ok ms st n" and "other_metric op"
  shows "counts_ok (ms @ [op]) st n"
  using assms by (cases op) (auto simp: counts_ok_def gauge_value_append)

lemma metrics_inv_cong:
  "metrics_inv pg \<Longrightarrow> pg_metrics pg' = pg_metrics pg \<Longrightarrow> pg_status pg' = pg_status pg \<Longrightarrow> pg_synced pg' = pg_synced pg \<Longrightarrow>
   metrics_inv pg'"
  by (simp add: metrics_inv_def)

lemma metrics_inv_other:
  "metrics_inv pg \<Longrightarrow> pg_metrics pg' = pg_metrics pg @ [op] \<Longrightarrow> other_metric op \<Longrightarrow> pg_status pg' = pg_status pg \<Longrightarrow>
   pg_synced pg' = pg_synced pg \<Longrightarrow> metrics_inv pg'"
  by (simp add: metrics_inv_def counts_ok_other)

section \<open>The steps\<close>

lemma SetReady_status:
  "fst (snd (SetReady c n s w)) = s\<lparr>st_Ready := 0 < n, st_SecretCount := c, st_SyncedCount := n\<rparr>"
  by (simp add: SetReady_def Let_def split: prod.split sum.split)

lemma consume_result_metrics:
  assumes "metrics_inv pg"
  shows "metrics_inv (consume_result r pg)"
proof (cases "sr_Success r")
  case True
  let ?n = "pg_synced pg + 1" and ?c = "int (length (cfg_Secrets (pg_cfg pg)))"
  have n: "0 \<le> pg_synced pg" using assms by (auto simp: metrics_inv_def counts_ok_def)
  obtain o1 s d where r: "SetReady ?c ?n (pg_status pg) (sy_disk (pg_sync pg)) = (o1, s, d)" by (rule prod_cases3)
  with SetReady_status [of ?c ?n "pg_status pg" "sy_disk (pg_sync pg)"] have
    "s = (pg_status pg)\<lparr>st_Ready := 0 < ?n, st_SecretCount := ?c, st_SyncedCount := ?n\<rparr>" by simp
  with True r n assms show ?thesis
    by (simp add: consume_result_def Let_def metrics_inv_def counts_ok_def metric_calls IsReady_def gauge_value_append)
next
  case False
  let ?n = "pg_synced pg" and ?c = "int (length (cfg_Secrets (pg_cfg pg)))"
  obtain o1 s d where r: "SetReady ?c ?n (pg_status pg) (sy_disk (pg_sync pg)) = (o1, s, d)" by (rule prod_cases3)
  with SetReady_status [of ?c ?n "pg_status pg" "sy_disk (pg_sync pg)"] have
    "s = (pg_status pg)\<lparr>st_Ready := 0 < ?n, st_SecretCount := ?c, st_SyncedCount := ?n\<rparr>" by simp
  with False r assms show ?thesis
    by (simp add: consume_result_def Let_def metrics_inv_def counts_ok_def metric_calls IsReady_def gauge_value_append)
qed

lemma take_result_metrics: "metrics_inv pg \<Longrightarrow> metrics_inv (take_result pg)"
  by (auto simp: take_result_def split: list.split intro!: consume_result_metrics elim: metrics_inv_cong)

text \<open>The registered functions report nothing.\<close>

lemma item_metrics: "metrics_inv pg \<Longrightarrow> item_func su dur i pg = Ok (e, t, pg1) \<Longrightarrow> metrics_inv pg1"
  by (cases i) (auto elim!: metrics_inv_cong simp: set_current_def split: option.split_asm prod.split_asm)

lemma terminate_metrics:
  assumes "metrics_inv pg" and "terminate su dur tie pg = Ok pg'"
  shows "metrics_inv pg'"
  by (rule terminate_keeps [where K = metrics_inv, OF assms(2,1)]) (erule (1) item_metrics, simp add: metrics_inv_def)

lemma reload_metrics:
  assumes "reload su os pg = Ok pg'"
  obtains "pg' = pg" | n where "pg_metrics pg' = SetSecretsConfigured n (pg_metrics pg)" and "pg_status pg' = pg_status pg"
    and "pg_synced pg' = pg_synced pg"
proof (cases "Load os (su_path su)")
  case load: (Ok c)
  show thesis
  proof (cases "Validate os c")
    case (Ok d)
    with load assms obtain s s' where "pg' = (set_current s pg)\<lparr>pg_cfg := d, pg_scheds := butlast (pg_scheds pg) @ [s, s'],
        pg_metrics := SetSecretsConfigured (int (length (cfg_Secrets d))) (pg_metrics pg)\<rparr>"
      by (auto simp: reload_def)
    then show thesis by (intro that(2) [of "int (length (cfg_Secrets d))"]) simp_all
  qed (use load assms that in \<open>simp_all add: reload_def\<close>)
qed (use assms that in \<open>simp_all add: reload_def\<close>)

lemma program_step_metrics:
  assumes "program_inv pg" and "metrics_inv pg" and "program_step su e pg = Ok pg'"
  shows "metrics_inv pg'"
proof (cases "pg_exit pg = None")
  case exit: True
  show ?thesis
  proof (cases e)
    case (JobStep k i c now)
    with assms(2,3) show ?thesis by (auto elim!: metrics_inv_cong split: if_split_asm)
  next
    case (ClockTick k i)
    with assms(2,3) show ?thesis by (auto elim!: metrics_inv_cong split: if_split_asm)
  next
    case TakeResult
    with assms(2,3) exit show ?thesis by (auto intro: take_result_metrics)
  next
    case (FileWritten os)
    show ?thesis
    proof (cases "pg_watching pg")
      case True
      show ?thesis
      proof (rule file_written_cases [OF assms(1) exit True, of su os])
        fix cfg p
        assume "program_step su (FileWritten os) pg = Ok p" "on_config_change cfg pg = Ok p"
        with assms(3) FileWritten have "on_config_change cfg pg = Ok pg'" by simp
        then obtain s where "pg' = (set_current s pg)\<lparr>pg_metrics := SetSecretsConfigured (int (length (cfg_Secrets cfg))) (pg_metrics pg)\<rparr>"
          by (auto simp: on_config_change_def)
        then show ?thesis
          by (intro metrics_inv_other [OF assms(2), where op = "SetTo SecretsConfigured [] (f64_of_int (int (length (cfg_Secrets cfg))))"])
             (simp_all add: SetSecretsConfigured_def)
      qed (use assms(2,3) FileWritten in auto)
    qed (use assms(2,3) FileWritten in auto)
  next
    case Sweep
    moreover have "metrics_inv (sweep su pg)" by (rule metrics_inv_cong [OF assms(2)]) (simp_all add: sweep_def Let_def)
    ultimately show ?thesis using assms(2,3) by (auto split: if_split_asm)
  next
    case (Hangup os)
    show ?thesis
    proof (cases "pg_swept pg")
      case True
      with Hangup assms(3) exit have step: "reload su os pg = Ok pg'" by simp
      show ?thesis
      proof (rule reload_metrics [OF step])
        fix n
        assume "pg_metrics pg' = SetSecretsConfigured n (pg_metrics pg)" "pg_status pg' = pg_status pg" "pg_synced pg' = pg_synced pg"
        then show ?thesis
          by (intro metrics_inv_other [OF assms(2), where op = "SetTo SecretsConfigured [] (f64_of_int n)"])
             (simp_all add: SetSecretsConfigured_def)
      qed (simp add: assms(2))
    qed (use assms(2,3) Hangup in auto)
  next
    case (Terminate dur tie)
    show ?thesis
    proof (cases "pg_swept pg")
      case True
      with Terminate assms(3) exit have "terminate su dur tie pg = Ok pg'" by simp
      with assms(2) show ?thesis by (rule terminate_metrics)
    qed (use assms(2,3) Terminate in auto)
  next
    case (BreakerState c to)
    have "pg_metrics (breaker_changed (su_api su) c to pg) = SetCircuitBreakerState ''vault-client'' to (pg_metrics pg)"
      by (simp add: breaker_changed_def Let_def split: sum.split prod.split)
    then obtain v where v: "pg_metrics (breaker_changed (su_api su) c to pg) = pg_metrics pg @ [SetTo CircuitBreakerState [''vault-client''] v]"
      by (simp add: SetCircuitBreakerState_def Let_def)
    have "metrics_inv (breaker_changed (su_api su) c to pg)"
      by (rule metrics_inv_other [OF assms(2) v]) simp_all
    with BreakerState assms(3) exit show ?thesis by simp
  qed
qed (use assms in \<open>cases e; auto\<close>)

lemma start_run_metrics:
  assumes "start_run su logError exporterError resourceError watchError os disk w = Ok pg"
  shows "metrics_inv pg"
proof -
  have "pg_metrics pg = SetSecretsConfigured (int (length (cfg_Secrets (pg_cfg pg)))) [] \<and> pg_synced pg = 0 \<and>
        pg_status pg = NewStatus (StatusFile (su_env su))"
    using start_run_fields [OF assms] by blast
  then show ?thesis
    by (simp add: metrics_inv_def counts_ok_def SetSecretsConfigured_def NewStatus_def IsReady_def)
qed

text \<open>
  C19: what the service reports about itself is consistent.  In every state it can reach, the counter of successful
  fetches over all secrets, the gauge of synced secrets, the count in the status and the count kept by \<open>run\<close> are the
  same number, the service is ready exactly when it is positive, every counted error has a type, and no call on a
  metric has a wrong number of labels (which would panic).
\<close>

theorem metrics_agree:
  assumes "reaches su pg"
  shows "int (calls (fetch_with ''success'') (pg_metrics pg)) = pg_synced pg \<and>
    gauge_value SecretsSynced [] (pg_metrics pg) = (if pg_synced pg = 0 then None else Some (f64_of_int (pg_synced pg))) \<and>
    calls (fetch_with ''error'') (pg_metrics pg) = calls fetch_error (pg_metrics pg) \<and>
    list_all well_labelled (pg_metrics pg) \<and>
    st_SyncedCount (pg_status pg) = pg_synced pg \<and> IsReady (pg_status pg) = (0 < pg_synced pg)"
proof -
  from assms obtain le ee re we os disk w pg0 evs where
    s: "start_run su le ee re we os disk w = Ok pg0" "program_run su evs pg0 = Ok pg" by (auto simp: reaches_def)
  have "program_inv pg \<and> metrics_inv pg"
    using s(2) unfolding program_run_def
    by (rule each_keeps) (use start_run_inv [OF s(1)] start_run_metrics [OF s(1)] program_step_inv program_step_metrics in blast)+
  then show ?thesis by (auto simp: metrics_inv_def counts_ok_def)
qed

theorem metrics_agree_witness:
  "\<exists>pg. reaches run_service pg \<and> pg_swept pg \<and> int (calls (fetch_with ''success'') (pg_metrics pg)) = pg_synced pg \<and>
     IsReady (pg_status pg) = (0 < pg_synced pg)"
proof (rule run_swept)
  fix pg
  assume "reaches run_service pg" "pg_swept pg"
  with metrics_agree [of run_service pg] show ?thesis by blast
qed

end
