(* ===== verification/Main_Refinement.thy ===== *)
theory Main_Refinement
  imports Main_Theorems
begin

text \<open>
  What the service does, seen from outside: it keeps a set of desired secrets, which the signals and the configuration
  file change.  The machine of \<open>Main_Program\<close>, with its schedulers, jobs and channels, implements this specification under
  every interleaving.
\<close>

section \<open>The specification\<close>

record desired =
  ds_secrets :: "string \<rightharpoonup> Config \<times> Secret"
  ds_swept :: bool
  ds_exited :: bool

text \<open>The configuration that a reload by signal applies, if any, and the one that the watcher applies.\<close>

definition reload_config :: "('w, 't) service \<Rightarrow> os_env \<Rightarrow> Config option" where
  "reload_config su os =
     (case Load os (su_path su) of
        Ok cfg0 \<Rightarrow> (case Validate os cfg0 of Ok cfg \<Rightarrow> Some cfg | _ \<Rightarrow> None)
      | _ \<Rightarrow> None)"

definition watch_config :: "('w, 't) service \<Rightarrow> os_env \<Rightarrow> Config option" where
  "watch_config su os = (case Load os (ConfigFile (su_env su)) of Ok cfg \<Rightarrow> Some cfg | _ \<Rightarrow> None)"

text \<open>
  One event: a reload by signal replaces the desired secrets, the watcher adds to them, and a shutdown ends the process
  with none left, or, when the registered functions take 30 seconds or more, possibly with all of them.
\<close>

fun desired_next :: "('w, 't) service \<Rightarrow> bool \<Rightarrow> shutdown_item list \<Rightarrow> program_event \<Rightarrow> desired \<Rightarrow> desired set" where
  "desired_next su watching items (Hangup os) d =
     (case reload_config su os of
        None \<Rightarrow> {d}
      | Some cfg \<Rightarrow> {if ds_exited d \<or> \<not> ds_swept d then d else d\<lparr>ds_secrets := by_name cfg (cfg_Secrets cfg)\<rparr>})"
| "desired_next su watching items (FileWritten os) d =
     (case watch_config su os of
        None \<Rightarrow> {d}
      | Some cfg \<Rightarrow> {if ds_exited d \<or> \<not> watching then d else d\<lparr>ds_secrets := ds_secrets d ++ by_name cfg (cfg_Secrets cfg)\<rparr>})"
| "desired_next su watching items Sweep d = {if ds_exited d then d else d\<lparr>ds_swept := True\<rparr>}"
| "desired_next su watching items (Terminate dur tie) d =
     (if ds_exited d \<or> \<not> ds_swept d then {d}
      else {d\<lparr>ds_exited := True, ds_secrets := Map.empty\<rparr>} \<union>
           (if sum_list (map dur items) < 30 * Second then {} else {d\<lparr>ds_exited := True\<rparr>}))"
| "desired_next su watching items e d = {d}"

fun desired_after :: "('w, 't) service \<Rightarrow> bool \<Rightarrow> shutdown_item list \<Rightarrow> program_event list \<Rightarrow> desired \<Rightarrow> desired set" where
  "desired_after su watching items [] d = {d}"
| "desired_after su watching items (e # es) d =
     (\<Union>d' \<in> desired_next su watching items e d. desired_after su watching items es d')"

text \<open>The abstraction: the table of the current scheduler.\<close>

definition desired_of :: "'w program \<Rightarrow> desired" where
  "desired_of pg = \<lparr>ds_secrets = active (current pg), ds_swept = pg_swept pg, ds_exited = (pg_exit pg \<noteq> None)\<rparr>"

section \<open>The simulation\<close>

text \<open>What no step changes.\<close>

definition same_setup :: "'w program \<Rightarrow> 'w program \<Rightarrow> bool" where
  "same_setup pg pg' \<longleftrightarrow> pg_watching pg' = pg_watching pg \<and> pg_items pg' = pg_items pg"

text \<open>A step of one scheduler that keeps its table keeps the abstraction.\<close>

lemma current_update:
  assumes "pg_scheds pg \<noteq> []" and "same_table (pg_scheds pg ! k) s" and "k < length (pg_scheds pg)"
    and "pg_scheds pg' = (pg_scheds pg)[k := s]"
  shows "active (current pg') = active (current pg)"
  using assms by (auto simp: current_def same_table_def last_conv_nth nth_list_update)

lemma desired_update:
  assumes "program_inv pg" and "same_table (pg_scheds pg ! k) s" and "k < length (pg_scheds pg)"
    and "pg_scheds pg' = (pg_scheds pg)[k := s]" and "pg_swept pg' = pg_swept pg" and "pg_exit pg' = pg_exit pg"
  shows "desired_of pg' = desired_of pg"
  using current_update [OF _ assms(2-4)] assms(1,5,6) by (simp add: desired_of_def program_inv_def scheds_inv_def)

lemma consume_result_setup: "same_setup pg (consume_result r pg) \<and> pg_swept (consume_result r pg) = pg_swept pg"
  by (simp add: consume_result_def same_setup_def Let_def split: prod.split)

lemma take_result_desired:
  assumes "program_inv pg"
  shows "same_setup pg (take_result pg) \<and> desired_of (take_result pg) = desired_of pg"
proof (cases "pg_scheds pg")
  case (Cons s ss)
  show ?thesis
  proof (cases "sd_results s")
    case r: (Cons r rs)
    let ?s = "s\<lparr>sd_results := rs\<rparr>" and ?pg = "pg\<lparr>pg_scheds := s\<lparr>sd_results := rs\<rparr> # ss\<rparr>"
    have t: "take_result pg = consume_result r ?pg" using Cons r by (simp add: take_result_def)
    have "sched_inv s" using scheds_nth [OF assms, of 0] Cons by simp
    note st = results_same_table [OF this r]
    have "desired_of (consume_result r ?pg) = desired_of pg"
      using st Cons consume_result_setup [of ?pg r] by (intro desired_update [OF assms, of 0 ?s]) simp_all
    with t consume_result_setup [of ?pg r] show ?thesis by (simp add: same_setup_def)
  qed (use Cons in \<open>simp add: take_result_def same_setup_def\<close>)
qed (simp add: take_result_def same_setup_def)

text \<open>A reload by signal, read off its definition.\<close>

lemma reload_effect:
  assumes "reload su os pg = Ok pg'"
  obtains "reload_config su os = None" and "pg' = pg"
  | cfg s s' where "reload_config su os = Some cfg" and "Stop (current pg) = Ok s" and "add_secrets cfg NewScheduler = Ok s'"
    and "\<forall>x \<in> set (cfg_Secrets cfg). 0 < sec_RefreshInterval x"
    and "pg' = (set_current s pg)\<lparr>pg_cfg := cfg, pg_scheds := butlast (pg_scheds pg) @ [s, s'],
           pg_metrics := SetSecretsConfigured (int (length (cfg_Secrets cfg))) (pg_metrics pg)\<rparr>"
proof (cases "Load os (su_path su)")
  case load: (Ok cfg0)
  show thesis
  proof (cases "Validate os cfg0")
    case (Ok cfg)
    from assms load Ok obtain s where s: "Stop (current pg) = Ok s" by (cases "Stop (current pg)") (auto simp: reload_def)
    with assms load Ok obtain s' where "add_secrets cfg NewScheduler = Ok s'"
      by (cases "add_secrets cfg NewScheduler") (auto simp: reload_def)
    with that(2) [of cfg s s'] s assms load Ok accepted_intervals [OF Ok] show thesis by (simp add: reload_def reload_config_def)
  qed (use that(1) assms load in \<open>auto simp: reload_def reload_config_def\<close>)
qed (use that(1) assms in \<open>auto simp: reload_def reload_config_def\<close>)

lemma reload_desired:
  assumes "reload su os pg = Ok pg'" and "program_inv pg" and "pg_exit pg = None" and "pg_swept pg"
  shows "same_setup pg pg' \<and> desired_of pg' \<in> desired_next su watching items (Hangup os) (desired_of pg)"
  using assms(1)
proof (cases rule: reload_effect)
  case 1
  then show ?thesis by (simp add: same_setup_def)
next
  case (2 cfg s s')
  from add_secrets_new [OF 2(4)] 2(3) have "active s' = by_name cfg (cfg_Secrets cfg)" by auto
  with 2(1,5) assms(3,4) show ?thesis by (simp add: same_setup_def desired_of_def current_def set_current_def)
qed

lemma file_written_desired:
  assumes "program_step su (FileWritten os) pg = Ok pg'" and "program_inv pg" and "pg_exit pg = None"
  shows "same_setup pg pg' \<and> desired_of pg' \<in> desired_next su (pg_watching pg) items (FileWritten os) (desired_of pg)"
proof (cases "pg_watching pg")
  case True
  show ?thesis
  proof (rule file_written_cases [OF assms(2,3) True, of su os])
    fix cfg p
    assume l: "Load os (ConfigFile (su_env su)) = Ok cfg" and p: "program_step su (FileWritten os) pg = Ok p"
      and a: "active (current p) = active (current pg) ++ by_name cfg (cfg_Secrets cfg)" and o: "on_config_change cfg pg = Ok p"
    have "p = pg'" using p assms(1) by simp
    moreover have "same_setup pg p \<and> pg_swept p = pg_swept pg \<and> pg_exit p = pg_exit pg"
      using o by (cases "add_secrets cfg (current pg)") (auto simp: on_config_change_def same_setup_def set_current_def)
    ultimately show ?thesis using l a True assms(3) by (simp add: watch_config_def desired_of_def)
  qed (use assms True in \<open>auto simp: watch_config_def same_setup_def\<close>)
qed (use assms in \<open>auto simp: same_setup_def desired_of_def split: option.split\<close>)

lemma terminate_desired:
  assumes "terminate su dur tie pg = Ok pg'" and "program_inv pg" and "pg_exit pg = None" and "pg_swept pg"
  shows "same_setup pg pg' \<and> desired_of pg' \<in> desired_next su watching (pg_items pg) (Terminate dur tie) (desired_of pg)"
proof -
  let ?m = "active (current pg)"
  let ?K = "\<lambda>p :: 'a program. pg_scheds p \<noteq> [] \<and> sched_inv (current p) \<and> same_setup pg p \<and> pg_swept p = pg_swept pg \<and>
    (active (current p) = ?m \<or> active (current p) = Map.empty)"
  have "?K pg'"
  proof (rule terminate_keeps [where K = ?K, OF assms(1)])
    have "scheds_inv pg" using assms(2) by (simp add: program_inv_def)
    with current_in [OF this] show "?K pg" by (simp add: scheds_inv_def same_setup_def)
  next
    fix i and p q :: "'a program" and e t
    assume k: "?K p" and i: "item_func su dur i p = Ok (e, t, q)"
    show "?K q"
    proof (cases i)
      case StopSchedulerItem
      with i obtain s where s: "Stop (current p) = Ok s" "q = set_current s p" by (cases "Stop (current p)") auto
      have "\<not> sd_stopCh (current p)" using s(1) by (auto simp: Stop_def)
      with Stop_ok k s have "sched_inv s" "active s = Map.empty" by fastforce+
      with k s(2) show ?thesis by (simp add: current_def set_current_def same_setup_def)
    qed (use k i in \<open>auto simp: current_def same_setup_def split: option.splits prod.splits\<close>)
  next
    fix p :: "'a program" and x assume "?K p"
    then show "?K (p\<lparr>pg_exit := x\<rparr>)" by (simp add: current_def same_setup_def)
  qed
  moreover from terminate_ok [OF assms(2,3), of su dur tie] assms(1) have "pg_exit pg' \<noteq> None" and
    "sum_list (map dur (pg_items pg)) < 30 * Second \<longrightarrow> active (current pg') = Map.empty" by auto
  ultimately show ?thesis using assms(3,4) by (auto simp: desired_of_def)
qed

lemma program_step_desired:
  assumes "program_step su e pg = Ok pg'" and "program_inv pg"
  shows "same_setup pg pg' \<and> desired_of pg' \<in> desired_next su (pg_watching pg) (pg_items pg) e (desired_of pg)"
proof (cases "pg_exit pg = None")
  case False
  with assms(1) have "pg' = pg" by (cases e) auto
  with False show ?thesis by (cases e) (auto simp: same_setup_def desired_of_def split: option.split)
next
  case exit: True
  show ?thesis
  proof (cases e)
    case (JobStep k i c now)
    show ?thesis
    proof (cases "k < length (pg_scheds pg)")
      case True
      with assms(1) JobStep exit obtain s sy where r: "runJob (program_env su (pg_tls pg) (pg_cfg pg)) now c i (pg_scheds pg ! k, pg_sync pg) = Ok (s, sy)"
        and pg': "pg' = pg\<lparr>pg_scheds := (pg_scheds pg)[k := s], pg_sync := sy\<rparr>"
        by (cases "runJob (program_env su (pg_tls pg) (pg_cfg pg)) now c i (pg_scheds pg ! k, pg_sync pg)") auto
      note st = runJob_same_table [OF scheds_nth [OF assms(2) True] r]
      from desired_update [OF assms(2) st True, of pg'] pg' JobStep show ?thesis by (simp add: same_setup_def)
    qed (use assms JobStep in \<open>auto simp: same_setup_def\<close>)
  next
    case (ClockTick k i)
    show ?thesis
    proof (cases "k < length (pg_scheds pg)")
      case True
      let ?s = "ticker_fires i (pg_scheds pg ! k)"
      have pg': "pg' = pg\<lparr>pg_scheds := (pg_scheds pg)[k := ?s]\<rparr>" using assms(1) ClockTick exit True by simp
      note st = ticker_same_table [OF scheds_nth [OF assms(2) True], of i]
      from desired_update [OF assms(2) st True, of pg'] pg' ClockTick show ?thesis by (simp add: same_setup_def)
    qed (use assms ClockTick in \<open>auto simp: same_setup_def\<close>)
  next
    case TakeResult
    with assms(1) exit take_result_desired [OF assms(2)] show ?thesis by simp
  next
    case (FileWritten os)
    with file_written_desired assms exit show ?thesis by blast
  next
    case Sweep
    with assms(1) exit show ?thesis
      by (cases "pg_swept pg") (auto simp: same_setup_def desired_of_def sweep_def Let_def current_def)
  next
    case (Hangup os)
    show ?thesis
    proof (cases "pg_swept pg")
      case True
      with assms exit Hangup reload_desired show ?thesis by auto
    qed (use assms Hangup in \<open>auto simp: same_setup_def desired_of_def split: option.split\<close>)
  next
    case (Terminate dur tie)
    show ?thesis
    proof (cases "pg_swept pg")
      case True
      have "terminate su dur tie pg = Ok pg'" using assms(1) exit Terminate True by simp
      from terminate_desired [OF this assms(2) exit True] show ?thesis unfolding Terminate .
    qed (use assms Terminate in \<open>auto simp: same_setup_def desired_of_def\<close>)
  next
    case (BreakerState c to)
    let ?q = "breaker_changed (su_api su) c to pg"
    have "same_setup pg ?q \<and> pg_swept ?q = pg_swept pg"
      by (simp add: same_setup_def breaker_changed_def Let_def split: sum.split prod.split)
    moreover have "pg' = ?q" using assms(1) BreakerState exit by simp
    ultimately show ?thesis using BreakerState by (simp add: desired_of_def current_def)
  qed
qed

lemma program_run_desired:
  assumes "program_run su evs pg = Ok pg'" and "program_inv pg"
  shows "desired_of pg' \<in> desired_after su (pg_watching pg) (pg_items pg) evs (desired_of pg)"
  using assms
proof (induction evs arbitrary: pg)
  case (Cons e evs)
  then obtain q where q: "program_step su e pg = Ok q" "program_run su evs q = Ok pg'" by (cases "program_step su e pg") auto
  note st = program_step_desired [OF q(1) Cons.prems(2)]
  from Cons.IH [OF q(2) program_step_inv [OF Cons.prems(2) q(1)]] st show ?case by (auto simp: same_setup_def)
qed simp

text \<open>
  C7: the service implements the map of desired secrets.  Start it with any configuration and let any events happen in any
  order.  Then the specification can make the same events from the map of the loaded configuration, and at the end
  the goroutines for a name that have not returned and were not told to stop are exactly the one for its desired secret, if it
  has one, over all schedulers there have been; the process has ended exactly when the specification has.
\<close>

theorem service_refines:
  assumes "start_run su logError exporterError resourceError watchError os disk w = Ok pg0" and "program_run su evs pg0 = Ok pg"
  shows "\<exists>d \<in> desired_after su (pg_watching pg0) (pg_items pg0) evs
              \<lparr>ds_secrets = by_name (pg_cfg pg0) (cfg_Secrets (pg_cfg pg0)), ds_swept = False, ds_exited = False\<rparr>.
           (\<forall>nm. running nm pg = (case ds_secrets d nm of None \<Rightarrow> [] | Some v \<Rightarrow> [v])) \<and>
           (ds_exited d \<longleftrightarrow> pg_exit pg \<noteq> None)"
proof -
  note i = start_run_inv [OF assms(1)]
  have sw: "\<not> pg_swept pg0" using start_run_fields [OF assms(1)] by blast
  have d0: "desired_of pg0 = \<lparr>ds_secrets = by_name (pg_cfg pg0) (cfg_Secrets (pg_cfg pg0)), ds_swept = False, ds_exited = False\<rparr>"
    using i sw by (simp add: desired_of_def)
  have inv: "program_inv pg" using program_run_inv [OF _ assms(2)] i by blast
  from program_run_desired [OF assms(2)] i have "desired_of pg \<in> desired_after su (pg_watching pg0) (pg_items pg0) evs (desired_of pg0)" by blast
  moreover have "\<forall>nm. running nm pg = (case ds_secrets (desired_of pg) nm of None \<Rightarrow> [] | Some v \<Rightarrow> [v])"
    using running_active [OF inv] by (simp add: desired_of_def)
  moreover have "ds_exited (desired_of pg) \<longleftrightarrow> pg_exit pg \<noteq> None" by (simp add: desired_of_def)
  ultimately show ?thesis unfolding d0 by blast
qed

theorem service_refines_witness:
  "\<exists>pg0 pg. start_run run_service None (\<lambda>_. None) None None (run_os [run_a, run_b]) sample_world 0 = Ok pg0 \<and>
     program_run run_service [Sweep, Hangup (run_os [run_b])] pg0 = Ok pg \<and> running ''a'' pg = [] \<and>
     running ''b'' pg = [(run_config [run_b], run_b)]"
proof (rule run_started)
  fix pg0
  assume s: "start_run run_service None (\<lambda>_. None) None None (run_os [run_a, run_b]) sample_world 0 = Ok pg0"
    and p: "\<not> pg_swept pg0" "pg_exit pg0 = None" "reaches run_service pg0"
  have sw: "program_step run_service Sweep pg0 = Ok (sweep run_service pg0)" using p by simp
  have "pg_exit (sweep run_service pg0) = None" "pg_swept (sweep run_service pg0)"
    using p(2) by (simp_all add: sweep_def Let_def)
  from run_reload [OF reaches_step [OF p(3) sw] this] obtain pg where
    h: "program_step run_service (Hangup (run_os [run_b])) (sweep run_service pg0) = Ok pg" by blast
  have r: "program_run run_service [Sweep, Hangup (run_os [run_b])] pg0 = Ok pg" using sw h by simp
  have "reload_config run_service (run_os [run_b]) = Some (run_config [run_b])"
    by (simp add: reload_config_def run_path run_load)
  with service_refines [OF s r] have
    "running nm pg = (case by_name (run_config [run_b]) (cfg_Secrets (run_config [run_b])) nm of None \<Rightarrow> [] | Some v \<Rightarrow> [v])" for nm
    by simp
  moreover have "cfg_Secrets (run_config [run_b]) = [run_b]" by (simp add: run_config_def)
  ultimately have "running ''a'' pg = []" "running ''b'' pg = [(run_config [run_b], run_b)]"
    by (simp_all add: by_name_def) (simp_all add: run_secret_def)
  with s r show ?thesis by blast
qed

end
