(* ===== verification/Main_Progress.thy ===== *)
theory Main_Progress
  imports Main_Refinement
begin

text \<open>
  Nothing the service does blocks a desired secret: as long as the process runs, the goroutine of each desired secret can
  always make its next synchronisation.
\<close>

section \<open>A tick and two turns\<close>

lemma syncAndReport_runs:
  assumes "syncAndReport env now i (s, sy) = Ok (s', sy')"
  shows "\<exists>r. SyncSecret env (\<lambda>_. False) (j_cfg (sd_heap s ! i)) (j_secret (sd_heap s ! i)) sy = (r, sy')"
proof -
  obtain r sy1 where r: "SyncSecret env (\<lambda>_. False) (j_cfg (sd_heap s ! i)) (j_secret (sd_heap s ! i)) sy = (r, sy1)"
    by (rule prod.exhaust)
  with assms show ?thesis by (cases r) (auto simp: syncAndReport_def Let_def)
qed

text \<open>The goroutine that \<open>running\<close> lists for a name is an open job of the current scheduler that has not returned.\<close>

lemma running_job:
  assumes "program_inv pg" and "running nm pg = [(c, x)]"
  obtains i where "i < length (sd_heap (current pg))" and "\<not> j_stopCh (sd_heap (current pg) ! i)"
    and "j_phase (sd_heap (current pg) ! i) \<noteq> Returned"
    and "j_cfg (sd_heap (current pg) ! i) = c" and "j_secret (sd_heap (current pg) ! i) = x"
proof -
  let ?s = "current pg"
  have ok: "sched_inv ?s" "sd_stopCh ?s \<Longrightarrow> active ?s = Map.empty"
    using assms(1) current_ok [of pg] by (simp_all add: program_inv_def sched_ok_def)
  from goroutines_active [OF ok, of nm] running_active [OF assms(1), of nm] assms(2)
  have "goroutines_for nm ?s = [(c, x)]" by metis
  then have "(c, x) \<in> set (goroutines_for nm ?s)" by simp
  then obtain j where "j \<in> set (sd_heap ?s)" "\<not> j_stopCh j" "j_phase j \<noteq> Returned" "j_cfg j = c" "j_secret j = x"
    by (auto simp: goroutines_for_def)
  with that show thesis by (auto simp: in_set_conv_nth)
qed

text \<open>The turn of a goroutine that is in a synchronisation, and the tick that takes it there.\<close>

lemma runJob_syncs:
  assumes "i < length (sd_heap s)" and "j_phase (sd_heap s ! i) = Syncing"
  obtains s' sy' r where "runJob env now c i (s, sy) = Ok (s', sy')"
    and "SyncSecret env (\<lambda>_. False) (j_cfg (sd_heap s ! i)) (j_secret (sd_heap s ! i)) sy = (r, sy')"
    and "length (sd_heap s') = length (sd_heap s)" and "j_phase (sd_heap s' ! i) = Selecting"
    and "j_tick (sd_heap s' ! i) = j_tick (sd_heap s ! i)"
proof -
  obtain s1 sy1 where s1: "syncAndReport env now i (s, sy) = Ok (s1, sy1)"
    "map j_tick (sd_heap s1) = map j_tick (sd_heap s)"
    using sync_step [OF refl] by metis
  have l: "length (sd_heap s1) = length (sd_heap s)" using arg_cong [OF s1(2), of length] by simp
  have t: "j_tick (sd_heap s1 ! i) = j_tick (sd_heap s ! i)" using arg_cong [OF s1(2), of "\<lambda>l. l ! i"] assms(1) l by simp
  obtain r where "SyncSecret env (\<lambda>_. False) (j_cfg (sd_heap s ! i)) (j_secret (sd_heap s ! i)) sy = (r, sy1)"
    using syncAndReport_runs [OF s1(1)] by blast
  moreover have "runJob env now c i (s, sy) = Ok (set_phase i Selecting s1, sy1)" using assms s1(1) by (simp add: runJob_def)
  ultimately show thesis using l t assms(1) by (intro that [of "set_phase i Selecting s1" sy1 r]) (simp_all add: set_phase_def)
qed

lemma runJob_tick:
  assumes "i < length (sd_heap s)" and "j_phase (sd_heap s ! i) = Selecting" and "j_tick (sd_heap s ! i)"
  obtains s' where "runJob env now TickC i (s, sy) = Ok (s', sy)" and "length (sd_heap s') = length (sd_heap s)"
    and "j_phase (sd_heap s' ! i) = Syncing" and "j_cfg (sd_heap s' ! i) = j_cfg (sd_heap s ! i)"
    and "j_secret (sd_heap s' ! i) = j_secret (sd_heap s ! i)"
  using assms by (intro that [of "set_phase i Syncing (update_job i (\<lambda>j. j\<lparr>j_tick := False\<rparr>) s)"])
    (simp_all add: runJob_def set_phase_def)

text \<open>
  Wherever an open goroutine is, once a tick waits for it, two turns of it make exactly one synchronisation: the turn in
  which it takes the tick, and the one in which the synchronisation ends.
\<close>

lemma two_turns:
  assumes "i < length (sd_heap s)" and "j_phase (sd_heap s ! i) \<noteq> Returned" and "j_tick (sd_heap s ! i)"
  obtains s1 sy1 s2 sy2 r where "runJob env now TickC i (s, sy) = Ok (s1, sy1)" and "runJob env now' TickC i (s1, sy1) = Ok (s2, sy2)"
    and "SyncSecret env (\<lambda>_. False) (j_cfg (sd_heap s ! i)) (j_secret (sd_heap s ! i)) sy = (r, sy2)"
proof (cases "j_phase (sd_heap s ! i)")
  case Syncing
  from runJob_syncs [OF assms(1) Syncing, of env now TickC sy] obtain s1 sy1 r where
    a: "runJob env now TickC i (s, sy) = Ok (s1, sy1)"
      "SyncSecret env (\<lambda>_. False) (j_cfg (sd_heap s ! i)) (j_secret (sd_heap s ! i)) sy = (r, sy1)"
      "length (sd_heap s1) = length (sd_heap s)" "j_phase (sd_heap s1 ! i) = Selecting" "j_tick (sd_heap s1 ! i) = j_tick (sd_heap s ! i)" .
  from runJob_tick [of i s1 env now' sy1] a assms obtain s2 where "runJob env now' TickC i (s1, sy1) = Ok (s2, sy1)" by auto
  with a(1) show thesis using a(2) by (rule that)
next
  case Selecting
  from runJob_tick [OF assms(1) Selecting assms(3), of env now sy] obtain s1 where
    a: "runJob env now TickC i (s, sy) = Ok (s1, sy)" "length (sd_heap s1) = length (sd_heap s)" "j_phase (sd_heap s1 ! i) = Syncing"
      "j_cfg (sd_heap s1 ! i) = j_cfg (sd_heap s ! i)" "j_secret (sd_heap s1 ! i) = j_secret (sd_heap s ! i)" .
  have "i < length (sd_heap s1)" using a(2) assms(1) by simp
  from runJob_syncs [OF this a(3), of env now' TickC sy] obtain s2 sy2 r where
    "runJob env now' TickC i (s1, sy) = Ok (s2, sy2)"
    "SyncSecret env (\<lambda>_. False) (j_cfg (sd_heap s1 ! i)) (j_secret (sd_heap s1 ! i)) sy = (r, sy2)" .
  then show thesis unfolding a(4,5) using a(1) by (intro that)
qed (use assms(2) in simp)

text \<open>
  C29: no desired secret is starved.  In every state the service can reach while it runs, whatever has happened before, the
  goroutine of each desired secret can synchronise next: a tick of its ticker and two turns of it (it takes the tick, and the
  synchronisation ends) run exactly one synchronisation, of that secret with the configuration it was added with, and
  change the disk and the vault's state as that synchronisation does.
\<close>

theorem desired_secret_synchronises:
  assumes "reaches su pg" and "pg_exit pg = None" and "running nm pg = [(c, x)]"
  shows "\<exists>k i pg'. program_run su [ClockTick k i, JobStep k i TickC now, JobStep k i TickC now'] pg = Ok pg' \<and>
    (\<exists>r. SyncSecret (program_env su (pg_tls pg) (pg_cfg pg)) (\<lambda>_. False) c x (pg_sync pg) = (r, pg_sync pg'))"
proof -
  note inv = reaches_inv [OF assms(1)]
  let ?s = "current pg" and ?k = "length (pg_scheds pg) - 1" and ?env = "program_env su (pg_tls pg) (pg_cfg pg)"
  have ne: "pg_scheds pg \<noteq> []" using inv by (simp add: program_inv_def scheds_inv_def)
  then have k: "?k < length (pg_scheds pg)" and s: "pg_scheds pg ! ?k = ?s" by (simp_all add: current_def last_conv_nth)
  from running_job [OF inv assms(3)] obtain i where i: "i < length (sd_heap ?s)" "\<not> j_stopCh (sd_heap ?s ! i)"
    "j_phase (sd_heap ?s ! i) \<noteq> Returned" "j_cfg (sd_heap ?s ! i) = c" "j_secret (sd_heap ?s ! i) = x" .
  have "sched_inv ?s" using inv current_in [of pg] by (simp add: program_inv_def)
  then have tick: "j_ticking (sd_heap ?s ! i)" using i(1,2) by (auto simp: sched_inv_def parts_ok_nth job_ok_def)
  let ?u = "ticker_fires i ?s"
  have u: "?u = update_job i (\<lambda>j. j\<lparr>j_tick := True\<rparr>) ?s" using i(1) tick by (simp add: ticker_fires_def)
  then have "i < length (sd_heap ?u)" "j_phase (sd_heap ?u ! i) \<noteq> Returned" "j_tick (sd_heap ?u ! i)" using i by simp_all
  then obtain s1 sy1 s2 sy2 r where t: "runJob ?env now TickC i (?u, pg_sync pg) = Ok (s1, sy1)"
    "runJob ?env now' TickC i (s1, sy1) = Ok (s2, sy2)"
    "SyncSecret ?env (\<lambda>_. False) (j_cfg (sd_heap ?u ! i)) (j_secret (sd_heap ?u ! i)) (pg_sync pg) = (r, sy2)"
    by (rule two_turns)
  let ?pg = "pg\<lparr>pg_scheds := (pg_scheds pg)[?k := ?u]\<rparr>"
  let ?pg1 = "?pg\<lparr>pg_scheds := (pg_scheds ?pg)[?k := s1], pg_sync := sy1\<rparr>"
  let ?pg2 = "?pg1\<lparr>pg_scheds := (pg_scheds ?pg1)[?k := s2], pg_sync := sy2\<rparr>"
  have "program_step su (ClockTick ?k i) pg = Ok ?pg" using assms(2) k s by simp
  moreover have "program_step su (JobStep ?k i TickC now) ?pg = Ok ?pg1" using assms(2) k t(1) by simp
  moreover have "program_step su (JobStep ?k i TickC now') ?pg1 = Ok ?pg2" using assms(2) k t(2) by simp
  ultimately have "program_run su [ClockTick ?k i, JobStep ?k i TickC now, JobStep ?k i TickC now'] pg = Ok ?pg2" by simp
  moreover have "SyncSecret ?env (\<lambda>_. False) c x (pg_sync pg) = (r, pg_sync ?pg2)" using t(3) i u by simp
  ultimately show ?thesis by blast
qed

theorem desired_secret_synchronises_witness:
  "\<exists>pg k i pg'. reaches run_service pg \<and> program_run run_service [ClockTick k i, JobStep k i TickC 7, JobStep k i TickC 8] pg = Ok pg' \<and>
     (\<exists>r. SyncSecret (program_env run_service (pg_tls pg) (pg_cfg pg)) (\<lambda>_. False) (run_config [run_b]) run_b (pg_sync pg) =
        (r, pg_sync pg'))"
proof (rule run_swept)
  fix pg
  assume pg: "reaches run_service pg" "pg_exit pg = None" "pg_swept pg"
  from run_reload [OF pg] obtain pg' where r: "program_step run_service (Hangup (run_os [run_b])) pg = Ok pg'" "pg_exit pg' = None" .
  have "reload run_service (run_os [run_b]) pg = Ok pg'" using r(1) pg(2,3) by simp
  note re = reaches_step [OF pg(1) r(1)]
  have "reload_config run_service (run_os [run_b]) = Some (run_config [run_b])"
    by (simp add: reload_config_def run_path run_load)
  with reload_desired [OF \<open>reload run_service (run_os [run_b]) pg = Ok pg'\<close> reaches_inv [OF pg(1)] pg(2,3), of True "[]"]
  have "active (current pg') ''b'' = Some (run_config [run_b], run_b)"
    using pg(2,3) by (auto simp: desired_of_def by_name_def run_config_def) (simp_all add: run_secret_def)
  then have "running ''b'' pg' = [(run_config [run_b], run_b)]" by (simp add: running_active [OF reaches_inv [OF re]])
  from desired_secret_synchronises [OF re r(2) this, of 7 8] re show ?thesis by blast
qed

end
