(* ===== verification/Main_Files.thy ===== *)
theory Main_Files
  imports Main_Refinement Writer_Leftovers
begin

text \<open>
  The files over the life of the service: the guarantee of the writer carried through the syncer, the scheduler, the status
  file, the sweep, both kinds of reload and the shutdown.
\<close>

section \<open>Secrets, outputs and renderings\<close>

text \<open>The secrets of the configuration that the service would load with the given environment.\<close>

definition secrets_at :: "('w, 't) service \<Rightarrow> os_env \<Rightarrow> Secret set" where
  "secrets_at su os =
     {s. \<exists>f cfg. (f = su_path su \<or> f = ConfigFile (su_env su)) \<and> Load os f = Ok cfg \<and> s \<in> set (cfg_Secrets cfg)}"

fun event_secrets :: "('w, 't) service \<Rightarrow> program_event \<Rightarrow> Secret set" where
  "event_secrets su (Hangup os) = secrets_at su os"
| "event_secrets su (FileWritten os) = secrets_at su os"
| "event_secrets su _ = {}"

definition outputs :: "Secret set \<Rightarrow> string set" where
  "outputs S = (\<Union>s \<in> S. paths_of s)"

text \<open>
  Paths that do not get into each other's way: as for one synchronisation, and none looks like a temporary file or lies
  in a directory with pattern characters; a Go map has each key once.
\<close>

definition outputs_ok :: "Secret set \<Rightarrow> bool" where
  "outputs_ok S \<longleftrightarrow> apart (outputs S) \<and> (\<forall>p \<in> outputs S. p \<notin> tmp_names \<and> \<not> has_meta (filepath_Dir p)) \<and>
     (\<forall>s \<in> S. go_map (sec_TemplateData s))"

text \<open>
  The complete text of a file: its template, rendered from data that Vault answered with for the secret's own path.
\<close>

definition rendering :: "('w, 't) service \<Rightarrow> Secret set \<Rightarrow> string \<Rightarrow> node \<Rightarrow> bool" where
  "rendering su S p n \<longleftrightarrow>
     (\<exists>s \<in> S. \<exists>tmpl t data text m u g. p \<in> paths_of s \<and> (filepath_Base p, tmpl) \<in> set (sec_TemplateData s) \<and>
        su_parse su (replace_char (CHR ''-'') (CHR ''_'') (filepath_Base p)) tmpl = Inr t \<and>
        su_execute su t data = Inr text \<and> (\<exists>ses. answer_for (su_api su) ses s data) \<and> n = Reg text m u g)"

lemma renders_rendering:
  assumes "renders_to (program_env su tls cfg) s data (filepath_Base p) text" and "answer_for (su_api su) ses s data"
    and "s \<in> S" and "p \<in> paths_of s"
  shows "rendering su S p (Reg text m u g)"
  using assms unfolding renders_to_def rendering_def program_env_def by fastforce

section \<open>One synchronisation on a disk in use\<close>

lemma SyncSecret_in_use:
  assumes "SyncSecret env cancelled cfg s st = (r, st')" and "apart P" and "paths_of s \<subseteq> P"
    and "clean_temps P (sy_disk st)" and "go_map (sec_TemplateData s)"
    and "\<And>p data ses text m u g. p \<in> paths_of s \<Longrightarrow> renders_to env s data (filepath_Base p) text \<Longrightarrow>
           answer_for (sv_api env) ses s data \<Longrightarrow> F p (Reg text m u g)"
  shows "clean_temps P (sy_disk st') \<and> harmless P F (sy_disk st) (sy_disk st')"
  using assms(1)
proof (cases rule: SyncSecret_stages)
  case (writing creds client pool w data pauses client' rendered)
  obtain ses where ses: "answer_for (sv_api env) ses s data"
    using fetched_answer [OF writing(1-3)] .
  show ?thesis
  proof (rule write_each_related [where I = "clean_temps P" and R = "harmless P F", OF writing(5) [unfolded write_files_def] assms(4)])
    fix f c d v q v'
    assume f: "f \<in> set (sec_Files s)"
      and p: "prepare_file (file_to_template (keys (sec_TemplateData s)) (sec_Files s)) rendered f = Ok (c, d)"
      and v: "clean_temps P v" "WriteFile c d v = (q, v')"
    note pf = prepared_file(1,2) [OF p f writing(4) assms(5)]
    have in_s: "fc_Path c \<in> paths_of s" using pf(1) f by (simp add: paths_of_def)
    have "F (fc_Path c) (Reg d m u g)" for m u g
      using assms(6) [OF in_s _ ses] pf by simp
    with WriteFile_in_use [OF assms(2) v(1) _ v(2), of F] in_s assms(3) show "clean_temps P v' \<and> harmless P F v v'" by blast
  qed (rule harmless_refl, rule harmless_trans)
qed (use assms(4) harmless_refl in simp)

section \<open>The secrets of the goroutines\<close>

definition job_secrets :: "scheduler \<Rightarrow> Secret set" where
  "job_secrets s = j_secret ` set (sd_heap s)"

lemma update_job_secrets:
  assumes "\<And>j. j_secret (f j) = j_secret j"
  shows "map j_secret (sd_heap (update_job i f s)) = map j_secret (sd_heap s)"
proof (cases "i < length (sd_heap s)")
  case True
  then show ?thesis by (simp add: update_job_def map_update assms) (metis list_update_id map_update nth_map)
qed (simp add: update_job_def list_update_beyond)

lemma job_secrets_map: "map j_secret (sd_heap s') = map j_secret (sd_heap s) \<Longrightarrow> job_secrets s' = job_secrets s"
  unfolding job_secrets_def by (metis image_set)

lemma stop_job_secrets: "stop_job i s = Ok s' \<Longrightarrow> job_secrets s' = job_secrets s"
  by (auto simp: stop_job_def intro!: job_secrets_map update_job_secrets split: if_splits)

lemma AddSecret_secrets:
  assumes "AddSecret cfg x s = Ok s'"
  shows "job_secrets s' = insert x (job_secrets s)"
proof -
  from assms obtain s1 where s1: "s1 = s \<or> (\<exists>i. stop_job i s = Ok s1)" "sd_heap s' = sd_heap s1 @ [new_job cfg x]"
    by (rule AddSecret_heap)
  have "job_secrets s1 = job_secrets s" using s1(1) stop_job_secrets by blast
  with s1(2) show ?thesis by (auto simp: job_secrets_def new_job_def)
qed

lemma add_secrets_secrets: "add_secrets cfg s = Ok s' \<Longrightarrow> job_secrets s' = job_secrets s \<union> set (cfg_Secrets cfg)"
proof -
  have "each (AddSecret cfg) xs s = Ok s' \<Longrightarrow> job_secrets s' = job_secrets s \<union> set xs" for xs
    by (induction xs arbitrary: s) (auto dest: AddSecret_secrets)
  then show "add_secrets cfg s = Ok s' \<Longrightarrow> job_secrets s' = job_secrets s \<union> set (cfg_Secrets cfg)"
    by (simp add: add_secrets_def)
qed

lemma Stop_secrets: "Stop s = Ok s' \<Longrightarrow> job_secrets s' = job_secrets s"
  by (erule Stop_heap [where P = "\<lambda>v. job_secrets v = job_secrets s"]) (rule refl, simp add: stop_job_secrets, simp add: job_secrets_def)

lemma syncAndReport_sync:
  assumes "syncAndReport env now i (s, sy) = Ok (s', sy')"
  shows "job_secrets s' = job_secrets s \<and>
    (\<exists>r. SyncSecret env (\<lambda>_. False) (j_cfg (sd_heap s ! i)) (j_secret (sd_heap s ! i)) sy = (r, sy'))"
proof -
  let ?j = "sd_heap s ! i"
  have u: "job_secrets (report r (update_job i (\<lambda>j. j\<lparr>j_lastSync := t\<rparr>) s)) = job_secrets s" for r t
    by (rule job_secrets_map) (simp add: report_heap update_job_secrets)
  have n: "job_secrets (report r s) = job_secrets s" for r by (rule job_secrets_map) (simp add: report_heap)
  obtain r sy1 where r: "SyncSecret env (\<lambda>_. False) (j_cfg ?j) (j_secret ?j) sy = (r, sy1)" by (rule prod.exhaust)
  with assms u n show ?thesis by (cases r) (auto simp: syncAndReport_def Let_def)
qed

lemma runJob_sync:
  assumes "runJob env now c i (s, sy) = Ok (s', sy')"
  shows "job_secrets s' = job_secrets s \<and>
    (sy' = sy \<or> i < length (sd_heap s) \<and>
      (\<exists>r. SyncSecret env (\<lambda>_. False) (j_cfg (sd_heap s ! i)) (j_secret (sd_heap s ! i)) sy = (r, sy')))"
proof (cases "i < length (sd_heap s)")
  case True
  have ph: "job_secrets (set_phase i p v) = job_secrets v" for p v
    unfolding set_phase_def by (rule job_secrets_map) (rule update_job_secrets, simp)
  let ?u = "update_job i (\<lambda>j. j\<lparr>j_tick := False\<rparr>) s"
  have u: "job_secrets ?u = job_secrets s" by (rule job_secrets_map, rule update_job_secrets, simp)
  show ?thesis
  proof (cases "j_phase (sd_heap s ! i)")
    case Syncing
    with assms True obtain s1 where "syncAndReport env now i (s, sy) = Ok (s1, sy')" "s' = set_phase i Selecting s1"
      by (auto simp: runJob_def)
    with syncAndReport_sync [OF this(1)] ph True show ?thesis by simp
  next
    case Selecting
    with assms True ph u show ?thesis by (auto simp: runJob_def split: if_split_asm)
  qed (use assms True in \<open>simp add: runJob_def\<close>)
qed (use assms in \<open>simp add: runJob_def\<close>)

section \<open>The invariant\<close>

lemma Load_Validate:
  assumes "Load os f = Ok cfg0" and "Validate os cfg0 = Ok cfg"
  shows "cfg = cfg0"
proof -
  from assms(1) obtain raw where ok: "config_ok os raw" and c: "cfg0 = norm_config os raw" by (auto simp: Load_Ok)
  with assms(2) norm_config_idem [OF ok] show ?thesis by (simp add: Validate_Ok)
qed

text \<open>
  Every goroutine and the stored configuration have secrets of \<open>S\<close> only, and the disk has evolved from \<open>d0\<close> by complete
  files.
\<close>

definition secrets_inv :: "Secret set \<Rightarrow> 'w program \<Rightarrow> bool" where
  "secrets_inv S pg \<longleftrightarrow> (\<forall>s \<in> set (pg_scheds pg). job_secrets s \<subseteq> S) \<and> set (cfg_Secrets (pg_cfg pg)) \<subseteq> S"

definition disk_inv :: "('w, 't) service \<Rightarrow> Secret set \<Rightarrow> world \<Rightarrow> 'w program \<Rightarrow> bool" where
  "disk_inv su S d0 pg \<longleftrightarrow> clean_temps (outputs S) (sy_disk (pg_sync pg)) \<and>
     status_ok (outputs S) (st_StatusFile (pg_status pg)) (sy_disk (pg_sync pg)) \<and>
     evolves (outputs S) (rendering su S) d0 (sy_disk (pg_sync pg))"

lemma disk_inv_cong:
  "disk_inv su S d0 pg \<Longrightarrow> sy_disk (pg_sync pg') = sy_disk (pg_sync pg) \<Longrightarrow> pg_status pg' = pg_status pg \<Longrightarrow> disk_inv su S d0 pg'"
  by (simp add: disk_inv_def)

lemma paths_outputs: "s \<in> S \<Longrightarrow> paths_of s \<subseteq> outputs S"
  by (auto simp: outputs_def)

lemma disk_inv_sync:
  assumes "disk_inv su S d0 pg" and "outputs_ok S" and "x \<in> S"
    and "SyncSecret (program_env su tls c) (\<lambda>_. False) cfg x (pg_sync pg) = (r, sy)"
    and "pg_sync pg' = sy" and "pg_status pg' = pg_status pg"
  shows "disk_inv su S d0 pg'"
proof -
  let ?P = "outputs S" and ?t = "st_StatusFile (pg_status pg)"
  have ok: "apart ?P" "go_map (sec_TemplateData x)" using assms(2,3) by (auto simp: outputs_ok_def)
  have h: "clean_temps ?P (sy_disk sy) \<and> harmless ?P (rendering su S) (sy_disk (pg_sync pg)) (sy_disk sy)"
    by (rule SyncSecret_in_use [OF assms(4) ok(1) paths_outputs [OF assms(3)] _ ok(2)])
       (use assms(1,3) renders_rendering [where su = su and S = S] in \<open>auto simp: disk_inv_def program_env_def\<close>)
  then have "status_ok ?P ?t (sy_disk sy)"
    using assms(1) by (auto simp: disk_inv_def status_ok_def harmless_def intro: plain_file_same)
  with h assms(1,5,6) show ?thesis by (auto simp: disk_inv_def harmless_def intro: evolves_trans)
qed

lemma disk_inv_status:
  assumes "disk_inv su S d0 pg" and "SetReady n k (pg_status pg) (sy_disk (pg_sync pg)) = (r, st, d)"
    and "sy_disk (pg_sync pg') = d" and "pg_status pg' = st"
  shows "disk_inv su S d0 pg'"
  using SetReady_in_use [OF assms(2), of "outputs S" "rendering su S"] assms
  by (auto simp: disk_inv_def intro: evolves_trans)

lemma disk_inv_sweep:
  assumes "disk_inv su S d0 pg" and "secrets_inv S pg" and "outputs_ok S"
  shows "disk_inv su S d0 (sweep su pg)"
proof -
  let ?paths = "concat (map (\<lambda>s. map file_Path (sec_Files s)) (cfg_Secrets (pg_cfg pg)))"
  have "set ?paths \<subseteq> outputs S"
    using assms(2) by (auto simp: secrets_inv_def outputs_def paths_of_def)
  moreover have "set (GetOutputDirectories ps) \<subseteq> filepath_Dir ` set ps" for ps
    by (auto simp: GetOutputDirectories_def)
  ultimately have "\<forall>d \<in> set (GetOutputDirectories ?paths). \<not> has_meta d"
    using assms(3) unfolding outputs_ok_def by blast
  from sweep_in_use [where P = "outputs S" and F = "rendering su S" and glob = "su_glob su" and
      t = "st_StatusFile (pg_status pg)" and w = "sy_disk (pg_sync pg)", OF this]
    assms(1,3) show ?thesis
    by (auto simp: disk_inv_def outputs_ok_def sweep_def Let_def intro: evolves_trans)
qed

section \<open>Every step\<close>

lemma secrets_invI:
  assumes "secrets_inv S pg" and "\<forall>s \<in> set (pg_scheds pg'). s \<in> set (pg_scheds pg) \<or> job_secrets s \<subseteq> S"
    and "pg_cfg pg' = pg_cfg pg"
  shows "secrets_inv S pg'"
  using assms by (auto simp: secrets_inv_def)

lemma current_secrets: "program_inv pg \<Longrightarrow> secrets_inv S pg \<Longrightarrow> job_secrets (current pg) \<subseteq> S"
  by (auto simp: program_inv_def scheds_inv_def secrets_inv_def current_def)

lemma set_current_secrets: "secrets_inv S pg \<Longrightarrow> job_secrets s \<subseteq> S \<Longrightarrow> secrets_inv S (set_current s pg)"
  by (auto simp: secrets_inv_def set_current_def dest: in_set_butlastD)

lemma item_func_disk:
  assumes "item_func su dur i p = Ok (e, t, q)"
  shows "pg_sync q = pg_sync p \<and> pg_status q = pg_status p \<and> pg_cfg q = pg_cfg p \<and>
    (pg_scheds q = pg_scheds p \<or> (\<exists>s. Stop (current p) = Ok s \<and> q = set_current s p))"
proof (cases i)
  case StopSchedulerItem
  with assms show ?thesis by (cases "Stop (current p)") (auto simp: set_current_def)
next
  case StopServerItem
  with assms show ?thesis by (auto split: option.split_asm prod.split_asm)
next
  case StopTracingItem
  with assms show ?thesis by (auto split: option.splits)
qed (use assms in auto)

lemma terminate_files:
  assumes "terminate su dur tie pg = Ok pg'" and "program_inv pg" and "secrets_inv S pg" and "disk_inv su S d0 pg"
  shows "secrets_inv S pg' \<and> disk_inv su S d0 pg'"
proof -
  let ?K = "\<lambda>p :: 'a program. pg_scheds p \<noteq> [] \<and> secrets_inv S p \<and> disk_inv su S d0 p"
  have "?K pg'"
  proof (rule terminate_keeps [where K = ?K, OF assms(1)])
    show "?K pg" using assms(2-4) by (simp add: program_inv_def scheds_inv_def)
  next
    fix i and p q :: "'a program" and e t
    assume k: "?K p" and i: "item_func su dur i p = Ok (e, t, q)"
    note f = item_func_disk [OF i]
    have cur: "job_secrets (current p) \<subseteq> S" using k by (auto simp: secrets_inv_def current_def)
    have "pg_scheds q \<noteq> [] \<and> secrets_inv S q"
    proof (cases "pg_scheds q = pg_scheds p")
      case True
      with k f show ?thesis by (simp add: secrets_inv_def)
    next
      case False
      with f obtain s where s: "Stop (current p) = Ok s" "q = set_current s p" by blast
      with cur Stop_secrets [OF s(1)] k set_current_secrets [of S p s] show ?thesis by (simp add: set_current_def)
    qed
    with k f disk_inv_cong [of su S d0 p q] show "?K q" by simp
  next
    fix p :: "'a program" and x assume "?K p"
    then show "?K (p\<lparr>pg_exit := x\<rparr>)" by (simp add: secrets_inv_def disk_inv_def)
  qed
  then show ?thesis by simp
qed

definition files_inv :: "('w, 't) service \<Rightarrow> Secret set \<Rightarrow> world \<Rightarrow> 'w program \<Rightarrow> bool" where
  "files_inv su S d0 pg \<longleftrightarrow> secrets_inv S pg \<and> disk_inv su S d0 pg"

lemma job_step_files:
  assumes "program_step su (JobStep k i c now) pg = Ok pg'" and "files_inv su S d0 pg" and "outputs_ok S"
  shows "files_inv su S d0 pg'"
proof (cases "pg_exit pg \<noteq> None \<or> length (pg_scheds pg) \<le> k")
  case False
  let ?s = "pg_scheds pg ! k" and ?env = "program_env su (pg_tls pg) (pg_cfg pg)"
  from False assms(1) obtain s sy where r: "runJob ?env now c i (?s, pg_sync pg) = Ok (s, sy)"
    and pg': "pg' = pg\<lparr>pg_scheds := (pg_scheds pg)[k := s], pg_sync := sy\<rparr>"
    by (cases "runJob ?env now c i (?s, pg_sync pg)") auto
  note j = runJob_sync [OF r]
  have sub: "job_secrets ?s \<subseteq> S" using False assms(2) by (auto simp: files_inv_def secrets_inv_def)
  have sec: "secrets_inv S pg'"
    by (rule secrets_invI [of S pg])
       (use j sub assms(2) in \<open>auto simp: pg' files_inv_def dest: set_update_subset_insert [THEN subsetD]\<close>)
  have d: "disk_inv su S d0 pg" using assms(2) by (simp add: files_inv_def)
  have "disk_inv su S d0 pg'"
  proof (cases "sy = pg_sync pg")
    case True
    with disk_inv_cong [OF d, of pg'] pg' show ?thesis by simp
  next
    case False
    with j obtain x where i: "i < length (sd_heap ?s)"
      and x: "SyncSecret ?env (\<lambda>_. False) (j_cfg (sd_heap ?s ! i)) (j_secret (sd_heap ?s ! i)) (pg_sync pg) = (x, sy)" by blast
    have "j_secret (sd_heap ?s ! i) \<in> S" using i sub by (auto simp: job_secrets_def)
    from disk_inv_sync [OF d assms(3) this x, of pg'] pg' show ?thesis by simp
  qed
  with sec show ?thesis by (simp add: files_inv_def)
qed (use assms in auto)

lemma take_result_files:
  assumes "files_inv su S d0 pg"
  shows "files_inv su S d0 (take_result pg)"
proof (cases "pg_scheds pg")
  case (Cons s ss)
  show ?thesis
  proof (cases "sd_results s")
    case r: (Cons r rs)
    let ?pg = "pg\<lparr>pg_scheds := s\<lparr>sd_results := rs\<rparr> # ss\<rparr>"
    have t: "take_result pg = consume_result r ?pg" using Cons r by (simp add: take_result_def)
    have sec: "secrets_inv S (consume_result r ?pg)"
      using assms Cons by (simp add: files_inv_def secrets_inv_def job_secrets_def)
    obtain x st d where sr: "SetReady (int (length (cfg_Secrets (pg_cfg pg))))
        (pg_synced pg + (if sr_Success r then 1 else 0)) (pg_status pg) (sy_disk (pg_sync pg)) = (x, st, d)" by (rule prod_cases3)
    have c: "sy_disk (pg_sync (consume_result r ?pg)) = d" "pg_status (consume_result r ?pg) = st"
      using sr by (cases "sr_Success r"; simp add: consume_result_def Let_def)+
    from disk_inv_status [OF _ sr, of su S d0 "consume_result r ?pg"] assms c sec show ?thesis
      by (simp add: files_inv_def t)
  qed (use assms Cons in \<open>simp add: take_result_def\<close>)
qed (use assms in \<open>simp add: take_result_def\<close>)

lemma file_written_files:
  assumes "program_step su (FileWritten os) pg = Ok pg'" and "files_inv su S d0 pg" and "program_inv pg"
    and "secrets_at su os \<subseteq> S"
  shows "files_inv su S d0 pg'"
proof (cases "pg_exit pg = None \<and> pg_watching pg")
  case True
  show ?thesis
  proof (rule file_written_cases [OF assms(3), of su os])
    fix cfg pg1
    assume l: "Load os (ConfigFile (su_env su)) = Ok cfg" and pg1: "program_step su (FileWritten os) pg = Ok pg1"
      and o: "on_config_change cfg pg = Ok pg1"
    have new: "set (cfg_Secrets cfg) \<subseteq> S" using l assms(4) by (auto simp: secrets_at_def)
    obtain s where s: "add_secrets cfg (current pg) = Ok s"
      and p: "pg1 = (set_current s pg)\<lparr>pg_metrics := SetSecretsConfigured (int (length (cfg_Secrets cfg))) (pg_metrics pg)\<rparr>"
      using o by (cases "add_secrets cfg (current pg)") (auto simp: on_config_change_def)
    have "job_secrets s \<subseteq> S"
      using add_secrets_secrets [OF s] new current_secrets [OF assms(3)] assms(2) by (auto simp: files_inv_def)
    with set_current_secrets [of S pg s] assms(2) have "secrets_inv S pg1"
      by (simp add: files_inv_def p secrets_inv_def)
    moreover have "disk_inv su S d0 pg1"
      using assms(2) disk_inv_cong [of su S d0 pg pg1] by (simp add: files_inv_def p set_current_def)
    ultimately show ?thesis using pg1 assms(1) by (simp add: files_inv_def)
  qed (use assms True in auto)
qed (use assms in auto)

lemma reload_files:
  assumes "reload su os pg = Ok pg'" and "files_inv su S d0 pg" and "program_inv pg" and "secrets_at su os \<subseteq> S"
  shows "files_inv su S d0 pg'"
  using assms(1)
proof (cases rule: reload_effect)
  case (2 cfg s s')
  from 2(1) obtain cfg0 where "Load os (su_path su) = Ok cfg0" "Validate os cfg0 = Ok cfg"
    by (auto simp: reload_config_def split: outcome.splits)
  with Load_Validate have "Load os (su_path su) = Ok cfg" by blast
  then have new: "set (cfg_Secrets cfg) \<subseteq> S" using assms(4) by (auto simp: secrets_at_def)
  have "job_secrets s \<subseteq> S"
    using Stop_secrets [OF 2(2)] current_secrets [OF assms(3)] assms(2) by (simp add: files_inv_def)
  moreover have "job_secrets s' \<subseteq> S"
    using add_secrets_secrets [OF 2(3)] new by (simp add: job_secrets_def NewScheduler_def)
  ultimately have "secrets_inv S pg'"
    using new assms(2) by (auto simp: files_inv_def 2(5) secrets_inv_def dest: in_set_butlastD)
  moreover have "disk_inv su S d0 pg'"
    using assms(2) disk_inv_cong [of su S d0 pg pg'] by (simp add: files_inv_def 2(5) set_current_def)
  ultimately show ?thesis by (simp add: files_inv_def)
qed (use assms in simp)

lemma program_step_files:
  assumes "program_step su e pg = Ok pg'" and "files_inv su S d0 pg" and "program_inv pg" and "outputs_ok S"
    and "event_secrets su e \<subseteq> S"
  shows "files_inv su S d0 pg'"
proof (cases e)
  case (JobStep k i c now)
  with assms show ?thesis by (auto intro: job_step_files)
next
  case (ClockTick k i)
  show ?thesis
  proof (cases "pg_exit pg \<noteq> None \<or> length (pg_scheds pg) \<le> k")
    case False
    let ?s = "pg_scheds pg ! k"
    have "job_secrets (ticker_fires i ?s) = job_secrets ?s"
      by (rule job_secrets_map) (simp add: ticker_fires_def update_job_secrets)
    moreover have "?s \<in> set (pg_scheds pg)" using False by simp
    ultimately have t: "job_secrets (ticker_fires i ?s) \<subseteq> S" using assms(2) by (simp add: files_inv_def secrets_inv_def)
    have pg': "pg' = pg\<lparr>pg_scheds := (pg_scheds pg)[k := ticker_fires i ?s]\<rparr>"
      using assms(1) ClockTick False by simp
    have "secrets_inv S pg'"
      by (rule secrets_invI [of S pg])
         (use t assms(2) in \<open>auto simp: pg' files_inv_def dest: set_update_subset_insert [THEN subsetD]\<close>)
    moreover have "disk_inv su S d0 pg'" using assms(2) by (simp add: pg' files_inv_def disk_inv_def)
    ultimately show ?thesis by (simp add: files_inv_def)
  qed (use ClockTick assms(1,2) in simp)
next
  case TakeResult
  with assms(1,2) take_result_files show ?thesis by (auto split: if_split_asm)
next
  case (FileWritten os)
  with assms file_written_files [of su os pg pg' S d0] show ?thesis by simp
next
  case Sweep
  have "secrets_inv S (sweep su pg)" using assms(2) by (simp add: files_inv_def secrets_inv_def sweep_def Let_def)
  with Sweep assms disk_inv_sweep [of su S d0 pg] show ?thesis by (auto simp: files_inv_def split: if_split_asm)
next
  case (Hangup os)
  with assms reload_files [of su os pg pg' S d0] show ?thesis by (cases "pg_exit pg \<noteq> None \<or> \<not> pg_swept pg") auto
next
  case (Terminate dur tie)
  with assms terminate_files [of su dur tie pg pg' S d0] show ?thesis
    by (cases "pg_exit pg \<noteq> None \<or> \<not> pg_swept pg") (auto simp: files_inv_def)
next
  case (BreakerState c to)
  have "secrets_inv S (breaker_changed (su_api su) c to pg) \<and> disk_inv su S d0 (breaker_changed (su_api su) c to pg)"
    using assms(2) by (auto simp: files_inv_def secrets_inv_def disk_inv_def breaker_changed_def Let_def split: sum.split prod.split)
  with BreakerState assms(1,2) show ?thesis by (auto simp: files_inv_def split: if_split_asm)
qed

lemma program_run_files:
  assumes "program_run su evs pg = Ok pg'" and "files_inv su S d0 pg" and "program_inv pg" and "outputs_ok S"
    and "\<forall>e \<in> set evs. event_secrets su e \<subseteq> S"
  shows "files_inv su S d0 pg'"
  using assms(1-3,5)
proof (induction evs arbitrary: pg)
  case (Cons e evs)
  then obtain q where q: "program_step su e pg = Ok q" "program_run su evs q = Ok pg'"
    by (cases "program_step su e pg") auto
  from program_step_files [OF q(1) Cons.prems(2,3) assms(4)] Cons.prems(4) have "files_inv su S d0 q" by simp
  with Cons.IH [OF q(2)] program_step_inv [OF Cons.prems(3) q(1)] Cons.prems(4) show ?case by simp
qed simp

text \<open>
  The start does not touch the disk, so a status file that an earlier run left behind still reports readiness.
\<close>

lemma start_keeps_status_file:
  "start_run su logError exporterError resourceError watchError os disk w = Ok pg \<Longrightarrow>
   CheckReadiness (StatusFile (su_env su)) (sy_disk (pg_sync pg)) = CheckReadiness (StatusFile (su_env su)) disk"
  by (drule start_run_fields) auto

section \<open>The files over the life of the service\<close>

text \<open>
  C6: every output file is complete at every moment of the life of the service.  Take any start and any interleaving
  of synchronisations, results, reloads of both kinds, the sweep, breaker reports and the shutdown; let \<open>S\<close> be the secrets
  of all configurations that were offered.  If their paths do not get into each other's way and the names of the
  temporary files and the status file are not directories or links, then in every state of the disk since the start
  each output path holds the node it had at the start or the complete rendering of the template of its name by
  a secret of \<open>S\<close>, from data that Vault gave as an answer for the path of that secret; whatever system calls fail and
  whatever earlier runs left behind.
\<close>

theorem output_files_complete:
  assumes "start_run su logError exporterError resourceError watchError os disk w = Ok pg0"
    and "program_run su evs pg0 = Ok pg" and "S = secrets_at su os \<union> (\<Union>e \<in> set evs. event_secrets su e)"
    and "outputs_ok S" and "clean_temps (outputs S) disk" and "status_ok (outputs S) (StatusFile (su_env su)) disk"
    and "p \<in> outputs S"
  shows "\<exists>hs. w_hist (sy_disk (pg_sync pg)) = hs @ w_hist disk \<and>
           (\<forall>ns \<in> set (w_nodes (sy_disk (pg_sync pg)) # hs).
              map_of ns p = map_of (w_nodes disk) p \<or> (\<exists>n. map_of ns p = Some n \<and> rendering su S p n))"
proof -
  note f = start_run_fields [OF assms(1)]
  note i = start_run_inv [OF assms(1)]
  from f obtain s where s: "add_secrets (pg_cfg pg0) NewScheduler = Ok s" "pg_scheds pg0 = [s]" by blast
  have "set (cfg_Secrets (pg_cfg pg0)) \<subseteq> S" using f assms(3) by (auto simp: secrets_at_def)
  then have "secrets_inv S pg0"
    using add_secrets_secrets [OF s(1)] s(2) by (simp add: secrets_inv_def job_secrets_def NewScheduler_def)
  moreover have "disk_inv su S disk pg0"
    using f assms(5,6) by (auto simp: disk_inv_def NewStatus_def)
  ultimately have "files_inv su S disk pg0" by (simp add: files_inv_def)
  from program_run_files [OF assms(2) this _ assms(4)] i assms(3) have "files_inv su S disk pg" by auto
  with assms(7) show ?thesis by (auto simp: files_inv_def disk_inv_def evolves_def node_ok_def)
qed

lemma program_run_no_reload:
  assumes "program_inv pg" and "\<forall>e \<in> set evs. \<forall>os. e \<noteq> Hangup os \<and> e \<noteq> FileWritten os"
  shows "\<exists>pg'. program_run su evs pg = Ok pg'"
  using assms
proof (induction evs arbitrary: pg)
  case (Cons e evs)
  show ?case
    by (rule program_step_cases [OF Cons.prems(1), of su e]) (use Cons in auto)
qed simp

lemma run_secrets: "secrets_at run_service (run_os [run_a, run_b]) = {run_a, run_b}"
  by (auto simp: secrets_at_def run_path run_load) (simp_all add: run_config_def)

lemma run_outputs: "outputs {run_a, run_b} = {''/o/a'', ''/o/b''}"
  by (auto simp: outputs_def paths_of_def run_secret_def sample_file_def)

lemma run_outputs_ok: "outputs_ok {run_a, run_b}"
proof -
  have d: "filepath_Dir ''/o/a'' = ''/o''" "filepath_Dir ''/o/b'' = ''/o''" "dir_chain ''/o'' = [''/o'']"
    "filepath_Base ''/o/a'' = ''a''" "filepath_Base ''/o/b'' = ''b''"
    by code_simp+
  have q: "proper_path ''/o/a''" "proper_path ''/o/b''" by code_simp+
  have "apart {''/o/a'', ''/o/b''}" by (auto simp: apart_def d q temp_name_def)
  moreover have "''/o/a'' \<notin> tmp_names" "''/o/b'' \<notin> tmp_names" by (simp_all add: tmp_names_def d has_prefix_def)
  moreover have "\<not> has_meta ''/o''" by (simp add: has_meta_def)
  moreover have "go_map (sec_TemplateData run_a)" "go_map (sec_TemplateData run_b)"
    by (simp_all add: run_secret_def sample_secret_def go_map_def)
  ultimately show ?thesis by (simp add: outputs_ok_def run_outputs d)
qed

lemma run_clean: "clean_temps {''/o/a'', ''/o/b''} sample_world"
  by (simp add: clean_temps_def plain_file_def temp_name_def lookup_def sample_world_def)

theorem output_files_complete_witness:
  "\<exists>pg0 pg hs.
     start_run run_service None (\<lambda>_. None) None None (run_os [run_a, run_b]) sample_world 0 = Ok pg0 \<and>
     program_run run_service [JobStep 0 0 TickC 5, Sweep, TakeResult, JobStep 0 1 TickC 6] pg0 = Ok pg \<and>
     w_hist (sy_disk (pg_sync pg)) = hs \<and>
     (\<forall>ns \<in> set (w_nodes (sy_disk (pg_sync pg)) # hs).
        map_of ns ''/o/a'' = None \<or> (\<exists>n. map_of ns ''/o/a'' = Some n \<and> rendering run_service {run_a, run_b} ''/o/a'' n))"
proof (rule run_started)
  fix pg0
  assume s: "start_run run_service None (\<lambda>_. None) None None (run_os [run_a, run_b]) sample_world 0 = Ok pg0"
  let ?evs = "[JobStep 0 0 TickC 5, Sweep, TakeResult, JobStep 0 1 TickC 6]"
  have "\<forall>e \<in> set ?evs. \<forall>os. e \<noteq> Hangup os \<and> e \<noteq> FileWritten os" by simp
  from program_run_no_reload [OF _ this] start_run_inv [OF s] obtain pg where
    r: "program_run run_service ?evs pg0 = Ok pg" by blast
  have S: "{run_a, run_b} = secrets_at run_service (run_os [run_a, run_b]) \<union> (\<Union>e \<in> set ?evs. event_secrets run_service e)"
    by (simp add: run_secrets)
  have st: "status_ok (outputs {run_a, run_b}) (StatusFile (su_env run_service)) sample_world"
    by (simp add: status_ok_def run_service_def run_env_def)
  have w: "map_of (w_nodes sample_world) ''/o/a'' = None" "w_hist sample_world = []" by (simp_all add: sample_world_def)
  have "''/o/a'' \<in> outputs {run_a, run_b}" "clean_temps (outputs {run_a, run_b}) sample_world"
    using run_clean by (simp_all add: run_outputs)
  from output_files_complete [OF s r S run_outputs_ok this(2) st this(1)] s r show ?thesis
    unfolding w append_Nil2 by blast
qed

end
