(* ===== verification/Spec2Isabelle.thy ===== *)
theory Spec2Isabelle
  imports Validator_Theorems Env_Config Writer_Theorems Cleanup Vault_Auth Syncer_Theorems Scheduler_Theorems
    Convert_Theorems Syncer_Files Fixed_Texts Main_Metrics Main_Refinement Main_Progress Main_Files
begin

text \<open>
  A model of \<open>secrets-sync\<close>, a service that reads secrets from a Vault server and keeps files with their renderings up
  to date, and of its commands.  Everything under \<open>internal/\<close> and \<open>cmd/\<close> that decides something is translated; the
  properties \<open>C1\<close>, \<open>C2\<close>, \dots are stated in the theory of the component they are about.

  The program and its parts.  \<open>run\<close> in \<open>cmd/secrets-sync/main.go\<close> loads a configuration (\<open>internal/config\<close>),
  creates an authenticated client (\<open>internal/vault\<close>), and hands each secret to a scheduler (\<open>internal/syncer\<close>) with
  one goroutine per secret.  A synchronisation fetches the secret through a circuit breaker with retries, renders its
  templates (\<open>internal/template\<close>) and writes the files (\<open>internal/filewriter\<close>).  Results go through a channel
  to a goroutine that updates the status (\<open>internal/health\<close>) and the metrics (\<open>internal/metrics\<close>).  A file watcher
  (\<open>internal/config/watcher.go\<close>) and the signal \<open>SIGHUP\<close> reload the configuration; \<open>SIGTERM\<close> runs the registered
  functions of \<open>internal/shutdown\<close>.

  Theories, from the bottom up.

  \<^item> \<open>Prelude\<close>: \<open>outcome\<close> (a value, an error, or a panic with its cause) with its sequencing, guards in order, loops
    over slices and over states (\<open>each\<close>).  \<open>Go_Numbers\<close>: \<open>strconv\<close>, \<open>time.ParseDuration\<close> and the
    floating-point arithmetic that is used.  \<open>Go_Path\<close>: \<open>path\<close> and \<open>filepath\<close>.  \<open>File_System\<close>: a
    disk of named nodes with a list of faults to come and a history of its states, one step per system call.
    \<open>File_Store\<close>: its interface as a locale, with what follows from the laws.
  \<^item> \<open>Config_Types\<close>, \<open>Env_Config\<close>, \<open>File_Mode\<close>, \<open>Validator\<close>, \<open>Validator_Theorems\<close>: the types, the
    environment, validation and loading.  Shown: an order-free characterisation of acceptance, what an accepted
    configuration guarantees, when a second validation succeeds, what a variable of the environment parses to, the cause of the only panic.
  \<^item> \<open>Writer\<close>, \<open>Writer_Facts\<close>, \<open>Writer_Theorems\<close>, \<open>Cleanup\<close>: \<open>WriteFile\<close> with every system call, and the sweep of
    temporary files.  Shown: atomicity for every observer and every failure, the result of a success and of an error, success
    when nothing fails, and what the sweep removes.
  \<^item> \<open>Writer_Leftovers\<close>: the writer, the status file and the sweep on a disk where earlier runs left temporary files.
    \<open>Writer_Steps\<close>, \<open>Writer_Turns\<close>, \<open>Writer_Concurrent\<close>: \<open>WriteFile\<close> one system call per turn (a lemma checks that a writer
    alone does what \<open>WriteFile\<close> does), and
    pools of writers whose turns are interleaved with each other and with sweeps.  Shown: atomicity under every
    interleaving, provided that the random names differ, and that a writer ends after a fixed number of its own turns.
  \<^item> \<open>Vault_Client\<close>, \<open>Vault_Breaker\<close>, \<open>Vault_Fetch\<close>, \<open>Vault_Auth\<close>: the client, its circuit breaker, fetching
    with retries, login and the renewal goroutine.  Shown: which answer a fetch returns, the retry loop against a
    reference, the pauses, the trip condition in exact arithmetic, the invariant of renewal and how it ends.
  \<^item> \<open>Template_Engine\<close>, \<open>Syncer\<close>, \<open>Syncer_Theorems\<close>: rendering and one synchronisation.  Shown: each output
    path has its old node or the complete new one however it ends; a success leaves the rendering of the right template, both
    from the data that was fetched (\<open>fetched\<close>): an answer of the server for the path of the secret.
  \<^item> \<open>Syncer_Steps\<close>, \<open>Syncer_Concurrent\<close>, \<open>Syncer_Files\<close>: \<open>SyncSecret\<close> with one access to shared state per turn (the map of
    clients, the clients in a store, the breaker, the server, the disk; a lemma checks that one alone does what \<open>SyncSecret\<close> does), and any number of such
    synchronisations whose turns are interleaved with each other and with sweeps.  Shown: what each of them reads, when
    they read from each other's namespace, that each run leaves the disk of a run of \<open>Writer_Concurrent\<close>, hence complete
    files with the right contents, and that each ends.
  \<^item> \<open>Scheduler\<close>, \<open>Scheduler_Theorems\<close>: \<open>internal/syncer/scheduler.go\<close>, jobs in a heap, and the steps of their
    goroutines: a tick that is taken makes a job \<open>Syncing\<close>, and the synchronisation ends with a later turn, so that jobs are in
    the middle of one while others run, or when they are told to stop.  Shown: the refinement of a map from names to secrets,
    by the goroutines that have not returned and have an open channel (\<open>goroutines_for\<close>); that a job whose channel is closed
    can complete the synchronisation it is in, begins no other, and ends.
  \<^item> \<open>Observability\<close>, \<open>Health\<close>, \<open>Shutdown\<close>, \<open>Watcher\<close>: metrics, logger and tracing; status, status file and
    endpoints; signals and registered functions; the goroutine of the file watcher.
  \<^item> \<open>Convert\<close>, \<open>Convert_Theorems\<close>: the command \<open>convert\<close>, with the lines it prints and the commands it runs.  Shown:
    exactly when it ends, that templates and files belong together, and what a failed query leads to.
  \<^item> \<open>Command_Line\<close>: flags, subcommands, the choice of the configuration file, \<open>validate\<close>, \<open>version\<close>, \<open>isready\<close>.
    \<open>Yaml_Block\<close>: a reader for a small part of YAML.  \<open>Example_Text\<close>: what \<open>init\<close> prints, and what that reader makes of it.
    \<open>Fixed_Texts\<close>: what \<open>help\<close> prints; the example configuration is valid, the list of commands is complete.
  \<^item> \<open>Main_Program\<close>, \<open>Main_Theorems\<close>, \<open>Main_Metrics\<close>: \<open>run\<close> as a start (\<open>start_run\<close>) and a machine
    (\<open>program_step\<close>) whose events are the steps of the jobs, the clock, the results goroutine, the watcher, the
    sweep, the two signals and the breaker callback, in any order.  Shown: safety under every interleaving, what the
    two kinds of reload do and do not do, that a termination signal closes everything and waits for no goroutine, that all
    reported numbers agree, and what the settings of the environment become.  \<open>running\<close> are the goroutines of all schedulers
    that have not returned and were not told to stop; \<open>told_to_stop\<close> says that all those of a scheduler were.
  \<^item> \<open>Main_Refinement\<close>: the service as a map of desired secrets (\<open>desired_next\<close>), which the machine implements.
    \<open>Main_Progress\<close>: the goroutine of a desired secret can always synchronise next.  \<open>Main_Files\<close>: over the whole life of
    the service each output file is complete at every moment.

  How the state corresponds.  A Go struct is a record with the same fields, an error type a datatype, a panic a value
  \<open>Panic p\<close>; maps are association lists, since their order is not specified and nothing depends on it (where code
  ranges over a map, the order is a parameter).  The state of the disk is \<open>world\<close>; the state of everything behind the
  Vault API is the type variable \<open>'w\<close>.  Variables of \<open>run\<close> that its closures share are fields of \<open>program\<close>.

  Bounds.  Recursion is structural or has a measure, so all definitions that model the program are total and have no fuel
  (the YAML reader, which belongs to the specification, gives up when its calls are nested 1000 deep; the example has
  fewer than 100 lines of content).  The loop of
  \<open>convert\<close> over the documents of a stream is a \<open>partial_function\<close>, because it may run for ever (the value None).  Integers
  of 64 bits that can overflow (durations, file modes, parsed numbers) are ranges or words; counters of results are
  unbounded integers.

  Parameters, for code that is not in the repository: URL and YAML parsing, the template language, the Vault API, the
  circuit breaker and the lifetime watcher, Prometheus, zap, OpenTelemetry, file notification, \<open>net/http\<close>, the shell,
  \<open>strconv.ParseFloat\<close>, patterns in the names of directories, the clock and the random bytes.

  Not modelled.  In the machine of the service a reload and a shutdown are one step each, and what a synchronisation does to
  the disk and to Vault happens in the step with which it ends, whatever happened since it began; the
  interleaving of synchronisations is the subject of \<open>Syncer_Concurrent\<close>, where each access to the map of clients is one
  step, so that what Go does when two goroutines use a map at the same time (it may end the process) is not visible, nor
  is the data race on \<open>lastSync\<close>.  A process that exits while a synchronisation is under way leaves what that has done so far, which is
  the subject of the properties of \<open>Syncer_Files\<close> about every moment.  The goroutine that reads the results is taken to have fetched the channel before the first
  reload.  Left out are the text of log entries of \<open>run\<close>, \<open>GetFileInfo\<close> (used by tests
  only), the constant for Windows and the constants for tests.  Text is a sequence of bytes: \<open>%q\<close> and \<open>TrimSpace\<close> are
  exact for printable UTF-8 and ASCII space.
\<close>

end
